(* ===== verification/Prelude.thy ===== *)
theory Prelude
  imports Main "HOL-Library.Word" "HOL-Library.AList" "HOL-Library.Char_ord"
    "HOL-Library.List_Lexorder"
begin

text \<open>
  What every component of the development shares: the types that stand for Go's (byte strings,
  fixed-width integers, maps with an unspecified iteration order, errors as the left summand), the
  functions of Go's standard library that the sources call (\<^verbatim>\<open>strings\<close>, \<^verbatim>\<open>strconv\<close>, \<^verbatim>\<open>net\<close>),
  and the generic lemmas about them that the component proofs use.
\<close>

section \<open>Types\<close>

text \<open>
  A Go string and a Go byte slice are both sequences of bytes; an Isabelle \<^typ>\<open>char\<close> is a byte.
  A Go \<^verbatim>\<open>uint32\<close> is a 32-bit word.
\<close>

type_synonym bytes = string
type_synonym uint32 = "32 word"

text \<open>
  A Go map is the list of its entries in the order in which one \<^verbatim>\<open>range\<close> loop visits them. Go
  leaves that order unspecified: a theorem about every list with distinct keys is a theorem about
  every order.
\<close>

type_synonym ('k, 'v) gomap = "('k \<times> 'v) list"

definition mwf :: "('k, 'v) gomap \<Rightarrow> bool" where
  "mwf m \<longleftrightarrow> distinct (map fst m)"

abbreviation mget :: "('k, 'v) gomap \<Rightarrow> 'k \<Rightarrow> 'v option" where
  "mget \<equiv> map_of"

abbreviation mput :: "'k \<Rightarrow> 'v \<Rightarrow> ('k, 'v) gomap \<Rightarrow> ('k, 'v) gomap" where
  "mput \<equiv> AList.update"

abbreviation mdel :: "'k \<Rightarrow> ('k, 'v) gomap \<Rightarrow> ('k, 'v) gomap" where
  "mdel \<equiv> AList.delete"

section \<open>Collections of facts\<close>

named_theorems gomap_simps \<open>what a lookup returns after an operation on a map\<close>
named_theorems gomap_wf \<open>operations that keep the keys of a map distinct\<close>

lemma mget_mput [gomap_simps]: "mget (mput k v m) = (mget m)(k \<mapsto> v)"
  by (rule update_conv')

lemma mget_mdel [gomap_simps]: "mget (mdel k m) = (mget m)(k := None)"
  by (rule delete_conv')

lemma mwf_Nil [simp, gomap_wf]: "mwf []"
  by (simp add: mwf_def)

lemma mwf_Cons [simp]: "mwf ((k, v) # m) \<longleftrightarrow> mget m k = None \<and> mwf m"
  by (auto simp: mwf_def map_of_eq_None_iff)

lemma mwf_mput [gomap_wf]: "mwf m \<Longrightarrow> mwf (mput k v m)"
  by (simp add: mwf_def distinct_update)

lemma mwf_mdel [gomap_wf]: "mwf m \<Longrightarrow> mwf (mdel k m)"
  by (simp add: mwf_def distinct_delete)

lemma mwf_filter [gomap_wf]: "mwf m \<Longrightarrow> mwf (filter P m)"
  by (simp add: mwf_def distinct_map_filter)

lemma mwf_mget_iff: "mwf m \<Longrightarrow> (k, v) \<in> set m \<longleftrightarrow> mget m k = Some v"
  by (simp add: mwf_def)

lemma mget_filter: "mwf m \<Longrightarrow> mget (filter P m) k =
    (case mget m k of None \<Rightarrow> None | Some v \<Rightarrow> if P (k, v) then Some v else None)"
proof (induction m)
  case Nil
  then show ?case by simp
next
  case (Cons e m)
  obtain k' v' where e: "e = (k', v')" by (cases e)
  show ?case
  proof (cases "k' = k")
    case True
    with Cons.prems have none: "mget m k = None" "mwf m" by (auto simp: e)
    with Cons.IH have "mget (filter P m) k = None" by simp
    with True none show ?thesis by (simp add: e)
  next
    case False
    with Cons show ?thesis by (simp add: e)
  qed
qed

lemma zip_map_self: "zip xs (map f xs) = map (\<lambda>x. (x, f x)) xs"
  by (induction xs) auto

section \<open>32-bit words\<close>

lemma unat32_less: "unat (w :: uint32) < 4294967296"
  by (rule order_less_le_trans [OF unsigned_less]) simp

lemma of_nat_unat32 [simp]: "(of_nat (unat w) :: uint32) = w"
  by simp

lemma unat32_of_nat: "n < 4294967296 \<Longrightarrow> unat (of_nat n :: uint32) = n"
  by (simp add: unat_of_nat take_bit_nat_eq_self)

lemma unat32_inc: "(w :: uint32) < u \<Longrightarrow> unat (w + 1) = Suc (unat w)"
  by unat_arith

lemma unat32_min: "unat (min a b :: uint32) = min (unat a) (unat b)"
  by (simp add: min_def word_le_nat_alt)

lemma unat32_plus_le: "unat ((a :: uint32) + of_nat n) \<le> unat a + n"
  by (simp add: unat_word_ariths unat_of_nat)

section \<open>strings\<close>

definition hasPrefix :: "string \<Rightarrow> string \<Rightarrow> bool" where
  "hasPrefix s p \<longleftrightarrow> take (length p) s = p"

definition trimPrefix :: "string \<Rightarrow> string \<Rightarrow> string" where
  "trimPrefix s p = (if hasPrefix s p then drop (length p) s else s)"

lemma hasPrefix_append [simp]: "hasPrefix (p @ s) p"
  by (simp add: hasPrefix_def)

lemma trimPrefix_append [simp]: "trimPrefix (p @ s) p = s"
  by (simp add: trimPrefix_def)

lemma hasPrefix_iff: "hasPrefix s p \<longleftrightarrow> (\<exists>t. s = p @ t)"
  by (metis append_eq_conv_conj append_take_drop_id hasPrefix_def)

text \<open>\<^verbatim>\<open>strings.Split\<close> with a one-byte separator.\<close>

fun splitOn :: "char \<Rightarrow> string \<Rightarrow> string list" where
  "splitOn c [] = [[]]"
| "splitOn c (x # xs) =
     (if x = c then [] # splitOn c xs
      else (case splitOn c xs of [] \<Rightarrow> [[x]] | y # ys \<Rightarrow> (x # y) # ys))"

lemma splitOn_not_Nil [simp]: "splitOn c xs \<noteq> []"
  by (induction xs) (auto split: list.splits)

lemma splitOn_no_sep: "c \<notin> set xs \<Longrightarrow> splitOn c xs = [xs]"
  by (induction xs) auto

lemma splitOn_append: "c \<notin> set xs \<Longrightarrow> splitOn c (xs @ c # ys) = xs # splitOn c ys"
  by (induction xs) auto

lemma splitOn_parts: "x \<in> set (splitOn c xs) \<Longrightarrow> c \<notin> set x"
  by (induction xs arbitrary: x) (auto split: list.splits if_splits)

section \<open>strconv\<close>

text \<open>
  \<^verbatim>\<open>ParseUint\<close> in base 10. The loop stops at the first byte that is no digit (a syntax error) and
  at the first prefix whose value passes the largest value of the width (a range error).
\<close>

datatype num_error = ErrSyntax | ErrRange

definition isDigit :: "char \<Rightarrow> bool" where
  "isDigit c \<longleftrightarrow> 48 \<le> (of_char c :: nat) \<and> (of_char c :: nat) \<le> 57"

definition digitVal :: "char \<Rightarrow> nat" where
  "digitVal c = of_char c - 48"

definition digitChar :: "nat \<Rightarrow> char" where
  "digitChar d = char_of (48 + d)"

fun parseDigits :: "nat \<Rightarrow> nat \<Rightarrow> string \<Rightarrow> num_error + nat" where
  "parseDigits bits n [] = Inr n"
| "parseDigits bits n (c # cs) =
     (if \<not> isDigit c then Inl ErrSyntax
      else if n * 10 + digitVal c \<ge> 2 ^ bits then Inl ErrRange
      else parseDigits bits (n * 10 + digitVal c) cs)"

definition parseUint :: "nat \<Rightarrow> string \<Rightarrow> num_error + nat" where
  "parseUint bits s = (if s = [] then Inl ErrSyntax else parseDigits bits 0 s)"

fun formatUint :: "nat \<Rightarrow> string" where
  "formatUint n = (if n < 10 then [digitChar n] else formatUint (n div 10) @ [digitChar (n mod 10)])"

declare formatUint.simps [simp del]

lemma digitChar_eval [simp]:
  "digitChar 0 = CHR ''0''" "digitChar (Suc 0) = CHR ''1''" "digitChar 1 = CHR ''1''"
  "digitChar 2 = CHR ''2''" "digitChar 3 = CHR ''3''" "digitChar 4 = CHR ''4''"
  "digitChar 5 = CHR ''5''" "digitChar 6 = CHR ''6''" "digitChar 7 = CHR ''7''"
  "digitChar 8 = CHR ''8''" "digitChar 9 = CHR ''9''"
  by (simp_all add: digitChar_def char_of_def bit_0)

lemma digitChar_digit: "d < 10 \<Longrightarrow> isDigit (digitChar d) \<and> digitVal (digitChar d) = d"
  by (simp add: isDigit_def digitVal_def digitChar_def)

lemma formatUint_not_Nil [simp]: "formatUint n \<noteq> []"
  by (subst formatUint.simps) simp

lemma formatUint_digits: "c \<in> set (formatUint n) \<Longrightarrow> isDigit c"
proof (induction n arbitrary: c rule: formatUint.induct)
  case (1 n)
  show ?case
  proof (cases "n < 10")
    case True
    with "1.prems" show ?thesis
      by (subst (asm) formatUint.simps) (simp add: digitChar_digit)
  next
    case False
    with "1.prems" have "c \<in> set (formatUint (n div 10)) \<or> c = digitChar (n mod 10)"
      by (subst (asm) formatUint.simps) auto
    with False "1.IH" show ?thesis by (auto simp: digitChar_digit)
  qed
qed

lemma parseDigits_append:
  "parseDigits b n (xs @ ys) =
     (case parseDigits b n xs of Inl e \<Rightarrow> Inl e | Inr m \<Rightarrow> parseDigits b m ys)"
  by (induction b n xs rule: parseDigits.induct) auto

lemma parseDigits_bound: "parseDigits b n s = Inr m \<Longrightarrow> n < 2 ^ b \<Longrightarrow> m < 2 ^ b"
  by (induction b n s rule: parseDigits.induct) (auto split: if_splits)

lemma parseDigits_formatUint: "n < 2 ^ b \<Longrightarrow> parseDigits b 0 (formatUint n) = Inr n"
proof (induction n rule: formatUint.induct)
  case (1 n)
  show ?case
  proof (cases "n < 10")
    case True
    with "1.prems" show ?thesis
      by (subst formatUint.simps) (simp add: digitChar_digit)
  next
    case False
    have "n div 10 < 2 ^ b" using "1.prems" by (meson div_le_dividend le_less_trans)
    with False "1.IH" have "parseDigits b 0 (formatUint (n div 10)) = Inr (n div 10)" by blast
    moreover have "n div 10 * 10 + n mod 10 = n" by simp
    ultimately show ?thesis
      using False "1.prems"
      by (subst formatUint.simps) (simp add: parseDigits_append digitChar_digit)
  qed
qed

lemma parseUint_formatUint: "n < 2 ^ b \<Longrightarrow> parseUint b (formatUint n) = Inr n"
  by (simp add: parseUint_def parseDigits_formatUint)

lemma parseUint_bound: "parseUint b s = Inr n \<Longrightarrow> n < 2 ^ b"
  by (auto simp: parseUint_def split: if_splits dest: parseDigits_bound)

lemma formatUint_inject: "formatUint m = formatUint n \<Longrightarrow> m = n"
proof -
  assume eq: "formatUint m = formatUint n"
  have "m < 2 ^ (m + n + 1)" "n < 2 ^ (m + n + 1)"
    by (simp_all add: less_trans [OF _ less_exp] del: power_Suc)
  with eq show ?thesis by (metis Inr_inject parseUint_formatUint)
qed

lemma parseUint_digits: "parseUint b s = Inr n \<Longrightarrow> list_all isDigit s"
proof -
  have "parseDigits b k s = Inr n \<Longrightarrow> list_all isDigit s" for k
    by (induction b k s rule: parseDigits.induct) (auto split: if_splits)
  then show "parseUint b s = Inr n \<Longrightarrow> list_all isDigit s"
    by (auto simp: parseUint_def split: if_splits)
qed

end
