(* ===== verification/Messages.thy ===== *)
theory Messages
  imports Prelude
begin

text \<open>
  The protobuf messages of \<^verbatim>\<open>pkg/api/hostlink/v1\<close> as the handlers read them. A message is a record
  of its fields, so that a selector is the generated getter; a \<^verbatim>\<open>oneof\<close> is a datatype with one
  more constructor for a message in which no known member is set. The generated code treats an
  unset message field as its zero value, which is how the model builds messages too.
\<close>

section \<open>The byte pipe\<close>

datatype frame_type = DATA | HALF_CLOSE | RESET | OPEN | READY | UnknownType uint32

record peerForwardOpen =
  pfo_agent_id :: string
  pfo_target :: string

record frame =
  f_session_id :: string
  f_type :: frame_type
  f_data :: bytes
  f_open :: "peerForwardOpen option"

definition mkFrame :: "frame_type \<Rightarrow> bytes \<Rightarrow> frame" where
  "mkFrame t d = \<lparr>f_session_id = [], f_type = t, f_data = d, f_open = None\<rparr>"

lemma mkFrame_sel [simp]:
  "f_type (mkFrame t d) = t" "f_data (mkFrame t d) = d" "f_session_id (mkFrame t d) = []"
  "f_open (mkFrame t d) = None"
  by (simp_all add: mkFrame_def)

record openForward =
  of_session_id :: string
  of_target :: string

section \<open>Requests and results\<close>

record agentRequest =
  rq_request_id :: string
  rq_method :: string
  rq_payload :: bytes

record agentRequestChunk =
  ck_request_id :: string
  ck_data :: bytes
  ck_last :: bool

record agentResult =
  rs_request_id :: string
  rs_code :: uint32
  rs_payload :: bytes
  rs_error :: string
  rs_final :: bool

record agentProgress =
  pg_request_id :: string
  pg_payload :: bytes

record dispatchRequest =
  dr_agent_id :: string
  dr_request :: agentRequest

datatype uploadKind = UploadOpen dispatchRequest | UploadChunk bytes | UploadNone

record uploadFrame =
  uf_kind :: uploadKind
  uf_last :: bool

section \<open>The Control stream\<close>

record dockerEvent =
  de_type :: string
  de_container_id :: string

datatype command =
    CmdOpenForward openForward
  | CmdDockerOp
  | CmdExposeRule
  | CmdRequest agentRequest
  | CmdChunk agentRequestChunk
  | CmdNone

datatype agentEventKind =
    EvHello string
  | EvHeartbeat
  | EvDocker dockerEvent
  | EvResult agentResult
  | EvProgress agentProgress
  | EvNone

record agentEvent =
  ev_agent_id :: string
  ev_kind :: agentEventKind

end
