(* ===== verification/Tunnel.thy ===== *)
theory Tunnel
  imports Messages "HOL-Library.Sublist"
begin

text \<open>
  The byte pipe of \<^verbatim>\<open>pkg/tunnel/splice.go\<close>. \<^verbatim>\<open>SpliceConn\<close> runs two goroutines over one TCP
  connection and one frame stream; the model interleaves them: each call on the connection or the
  stream is one step of its worker, the result of the call is part of the step, and the calls under
  \<^verbatim>\<open>errOnce\<close> and \<^verbatim>\<open>connCloser.once\<close> are atomic. A schedule is any list of steps. The relay
  \<^verbatim>\<open>SpliceStream\<close> has two directions that share nothing, so a direction is a function of what its
  source delivers.
\<close>

section \<open>Errors\<close>

text \<open>
  An error is the list of what \<^verbatim>\<open>errors.Join\<close> joined, \<open>[]\<close> being nil. \<open>EOF\<close> is \<^verbatim>\<open>io.EOF\<close>, \<open>IOErr\<close>
  any other error of a read or a receive.
\<close>

datatype io_err = EOF | IOErr

datatype tunnel_err =
    ErrSendData | ErrSendHalfClose | ErrSendReset | ErrReadLocal | ErrRecvFrame
  | ErrWriteLocal | ErrShortWrite | ErrCloseWrite | ErrReset | ErrUnknownFrame uint32
  | ErrSetLinger | ErrCloseLocal
  | ErrForwardData | ErrForwardHalfClose | ErrForwardReset | ErrAfterHalfClose frame_type

type_synonym go_err = "tunnel_err list"

definition chunkSize :: nat where
  "chunkSize = 32 * 1024"

section \<open>connCloser\<close>

text \<open>
  \<open>cl_closes\<close> records the calls of \<^verbatim>\<open>conn.Close\<close>, each with whether it was an abort. The connection is
  a \<^verbatim>\<open>*net.TCPConn\<close>, as every caller's is; whether \<^verbatim>\<open>SetLinger\<close> and \<^verbatim>\<open>Close\<close> succeed is given.
\<close>

record connCloser =
  cl_once :: bool
  cl_err :: go_err
  cl_closes :: "bool list"

definition closer_close :: "bool \<Rightarrow> bool \<Rightarrow> bool \<Rightarrow> connCloser \<Rightarrow> go_err \<times> connCloser" where
  "closer_close abort lingerOk closeOk c =
     (let c' = (if cl_once c then c
                else c\<lparr>cl_once := True,
                       cl_err := (if abort \<and> \<not> lingerOk then [ErrSetLinger] else []) @
                                 (if closeOk then [] else [ErrCloseLocal]),
                       cl_closes := cl_closes c @ [abort]\<rparr>)
      in (cl_err c', c'))"

section \<open>SpliceConn\<close>

text \<open>
  Where each worker is: before which call, with what it will use next. \<open>RSendData d e\<close> is the
  \<^verbatim>\<open>send\<close> of the bytes \<open>d\<close> of a \<^verbatim>\<open>Read\<close> that also returned \<open>e\<close>; \<open>WWrite d\<close> is the loop of
  \<^verbatim>\<open>writeFrameData\<close> with \<open>d\<close> left to write; \<open>RSendReset\<close> and \<open>WSendReset\<close> are the send of the
  closure \<^verbatim>\<open>reset\<close>, and \<open>RFail\<close> and \<open>WFail\<close> the call of \<^verbatim>\<open>fail\<close>.
\<close>

datatype readerPc =
    RRead
  | RSendData bytes "io_err option"
  | RSendHalfClose
  | RSendReset go_err
  | RFail go_err
  | RDone

datatype writerPc =
    WRecv
  | WWrite bytes
  | WCloseWrite
  | WSendReset go_err
  | WFail go_err
  | WDone

text \<open>
  The variables of \<^verbatim>\<open>SpliceConn\<close> and, below them, what has passed through the two ends: the bytes
  read from and written to the connection, the frames sent and received, the calls of
  \<^verbatim>\<open>CloseWrite\<close> that succeeded.
\<close>

record splice =
  reader :: readerPc
  writer :: writerPc
  closer :: connCloser
  errDone :: bool
  firstErr :: go_err
  returned :: "go_err option"
  bytesRead :: bytes
  sent :: "frame list"
  received :: "frame list"
  bytesWritten :: bytes
  closedWrite :: nat

definition splice_init :: splice where
  "splice_init =
     \<lparr>reader = RRead, writer = WRecv,
      closer = \<lparr>cl_once = False, cl_err = [], cl_closes = []\<rparr>,
      errDone = False, firstErr = [], returned = None,
      bytesRead = [], sent = [], received = [], bytesWritten = [], closedWrite = 0\<rparr>"

text \<open>
  The results of the calls: \<open>ResRead\<close> of \<^verbatim>\<open>conn.Read\<close>, \<open>ResOk\<close> and \<open>ResErr\<close> of \<^verbatim>\<open>Send\<close> and
  \<^verbatim>\<open>CloseWrite\<close>, \<open>ResRecv\<close> of \<^verbatim>\<open>Recv\<close>, \<open>ResWrite n failed\<close> of \<^verbatim>\<open>conn.Write\<close>, and \<open>ResClose\<close> of
  \<^verbatim>\<open>SetLinger\<close> and \<^verbatim>\<open>Close\<close> where the step closes the connection.
\<close>

datatype opResult =
    ResRead bytes "io_err option"
  | ResOk
  | ResErr
  | ResRecv "io_err + frame"
  | ResWrite nat bool
  | ResClose bool bool

definition splice_fail :: "go_err \<Rightarrow> bool \<Rightarrow> bool \<Rightarrow> splice \<Rightarrow> splice" where
  "splice_fail err lingerOk closeOk s =
     (if errDone s then s
      else (case closer_close True lingerOk closeOk (closer s) of
        (cerr, c) \<Rightarrow> s\<lparr>errDone := True, firstErr := err @ cerr, closer := c\<rparr>))"

definition afterRead :: "io_err option \<Rightarrow> readerPc" where
  "afterRead e =
     (case e of None \<Rightarrow> RRead | Some EOF \<Rightarrow> RSendHalfClose | Some IOErr \<Rightarrow> RSendReset [ErrReadLocal])"

definition spliceConnToStream :: "opResult \<Rightarrow> splice \<Rightarrow> splice option" where
  "spliceConnToStream res s =
     (case reader s of
        RRead \<Rightarrow>
          (case res of
             ResRead d readErr \<Rightarrow>
               if length d \<le> chunkSize
               then Some (s\<lparr>bytesRead := bytesRead s @ d,
                            reader := if d \<noteq> [] then RSendData d readErr else afterRead readErr\<rparr>)
               else None
           | _ \<Rightarrow> None)
      | RSendData d readErr \<Rightarrow>
          (case res of
             ResOk \<Rightarrow> Some (s\<lparr>sent := sent s @ [mkFrame DATA d], reader := afterRead readErr\<rparr>)
           | ResErr \<Rightarrow> Some (s\<lparr>reader := RFail [ErrSendData]\<rparr>)
           | _ \<Rightarrow> None)
      | RSendHalfClose \<Rightarrow>
          (case res of
             ResOk \<Rightarrow> Some (s\<lparr>sent := sent s @ [mkFrame HALF_CLOSE []], reader := RDone\<rparr>)
           | ResErr \<Rightarrow> Some (s\<lparr>reader := RFail [ErrSendHalfClose]\<rparr>)
           | _ \<Rightarrow> None)
      | RSendReset err \<Rightarrow>
          (case res of
             ResOk \<Rightarrow> Some (s\<lparr>sent := sent s @ [mkFrame RESET []], reader := RFail err\<rparr>)
           | ResErr \<Rightarrow> Some (s\<lparr>reader := RFail (err @ [ErrSendReset])\<rparr>)
           | _ \<Rightarrow> None)
      | RFail err \<Rightarrow>
          (case res of
             ResClose lingerOk closeOk \<Rightarrow> Some (splice_fail err lingerOk closeOk s\<lparr>reader := RDone\<rparr>)
           | _ \<Rightarrow> None)
      | RDone \<Rightarrow> None)"

text \<open>The switch on the type of a received frame: the call the writer makes next.\<close>

definition onFrame :: "frame \<Rightarrow> writerPc" where
  "onFrame frame =
     (case f_type frame of
        DATA \<Rightarrow> if f_data frame = [] then WRecv else WWrite (f_data frame)
      | HALF_CLOSE \<Rightarrow> WCloseWrite
      | RESET \<Rightarrow> WFail [ErrReset]
      | OPEN \<Rightarrow> WRecv
      | READY \<Rightarrow> WRecv
      | UnknownType n \<Rightarrow> WSendReset [ErrUnknownFrame n])"

text \<open>
  One turn of the loop of \<^verbatim>\<open>writeFrameData\<close> with \<open>d\<close> left to write, after a \<^verbatim>\<open>Write\<close> that wrote \<open>n\<close> bytes
  and failed or not: where its caller is next.
\<close>

definition writeFrameData :: "bytes \<Rightarrow> nat \<Rightarrow> bool \<Rightarrow> writerPc" where
  "writeFrameData d n failed =
     (if failed then WSendReset [ErrWriteLocal]
      else if n = 0 then WSendReset [ErrShortWrite]
      else if drop n d = [] then WRecv
      else WWrite (drop n d))"

declare writeFrameData_def [simp]

definition spliceStreamToConn :: "opResult \<Rightarrow> splice \<Rightarrow> splice option" where
  "spliceStreamToConn res s =
     (case writer s of
        WRecv \<Rightarrow>
          (case res of
             ResRecv (Inl _) \<Rightarrow> Some (s\<lparr>writer := WSendReset [ErrRecvFrame]\<rparr>)
           | ResRecv (Inr frame) \<Rightarrow> Some (s\<lparr>received := received s @ [frame], writer := onFrame frame\<rparr>)
           | _ \<Rightarrow> None)
      | WWrite d \<Rightarrow>
          (case res of
             ResWrite n failed \<Rightarrow>
               if n \<le> length d
               then Some (s\<lparr>bytesWritten := bytesWritten s @ take n d,
                            writer := writeFrameData d n failed\<rparr>)
               else None
           | _ \<Rightarrow> None)
      | WCloseWrite \<Rightarrow>
          (case res of
             ResOk \<Rightarrow> Some (s\<lparr>closedWrite := Suc (closedWrite s), writer := WDone\<rparr>)
           | ResErr \<Rightarrow> Some (s\<lparr>writer := WSendReset [ErrCloseWrite]\<rparr>)
           | _ \<Rightarrow> None)
      | WSendReset err \<Rightarrow>
          (case res of
             ResOk \<Rightarrow> Some (s\<lparr>sent := sent s @ [mkFrame RESET []], writer := WFail err\<rparr>)
           | ResErr \<Rightarrow> Some (s\<lparr>writer := WFail (err @ [ErrSendReset])\<rparr>)
           | _ \<Rightarrow> None)
      | WFail err \<Rightarrow>
          (case res of
             ResClose lingerOk closeOk \<Rightarrow> Some (splice_fail err lingerOk closeOk s\<lparr>writer := WDone\<rparr>)
           | _ \<Rightarrow> None)
      | WDone \<Rightarrow> None)"

text \<open>After \<^verbatim>\<open>workers.Wait()\<close>.\<close>

definition spliceReturn :: "opResult \<Rightarrow> splice \<Rightarrow> splice option" where
  "spliceReturn res s =
     (case res of
        ResClose lingerOk closeOk \<Rightarrow>
          if reader s \<noteq> RDone \<or> writer s \<noteq> WDone \<or> returned s \<noteq> None then None
          else if firstErr s \<noteq> [] then Some (s\<lparr>returned := Some (firstErr s)\<rparr>)
          else (case closer_close False lingerOk closeOk (closer s) of
            (err, c) \<Rightarrow> Some (s\<lparr>closer := c, returned := Some err\<rparr>))
      | _ \<Rightarrow> None)"

datatype worker = Reader | Writer | Main

fun splice_step :: "worker \<times> opResult \<Rightarrow> splice \<Rightarrow> splice option" where
  "splice_step (Reader, res) s = spliceConnToStream res s"
| "splice_step (Writer, res) s = spliceStreamToConn res s"
| "splice_step (Main, res) s = spliceReturn res s"

fun SpliceConn :: "(worker \<times> opResult) list \<Rightarrow> splice \<Rightarrow> splice option" where
  "SpliceConn [] s = Some s"
| "SpliceConn (e # es) s = (case splice_step e s of None \<Rightarrow> None | Some s' \<Rightarrow> SpliceConn es s')"

section \<open>SpliceStream\<close>

text \<open>
  The sending side of a relay: the frames it sent and a script of which calls of \<^verbatim>\<open>Send\<close> fail. A
  direction reads what its source delivers; \<open>None\<close> is a direction still waiting in \<^verbatim>\<open>Recv\<close>.
\<close>

record sender =
  out :: "frame list"
  sendFails :: "bool list"

definition send :: "frame \<Rightarrow> sender \<Rightarrow> bool \<times> sender" where
  "send f w =
     (if sendFails w \<noteq> [] \<and> hd (sendFails w) then (False, w\<lparr>sendFails := tl (sendFails w)\<rparr>)
      else (True, w\<lparr>out := out w @ [f], sendFails := tl (sendFails w)\<rparr>))"

definition sendReset :: "go_err \<Rightarrow> sender \<Rightarrow> go_err \<times> sender" where
  "sendReset cause w =
     (case send (mkFrame RESET []) w of
        (True, w') \<Rightarrow> (cause, w')
      | (False, w') \<Rightarrow> (cause @ [ErrSendReset], w'))"

fun spliceStreamDirection :: "bool \<Rightarrow> (io_err + frame) list \<Rightarrow> sender \<Rightarrow> (go_err \<times> sender) option" where
  "spliceStreamDirection halfClosed [] w = None"
| "spliceStreamDirection halfClosed (Inl recvErr # rest) w =
     (if halfClosed \<and> recvErr = EOF then Some ([], w)
      else Some (sendReset [ErrRecvFrame] w))"
| "spliceStreamDirection halfClosed (Inr frame # rest) w =
     (if halfClosed \<and> f_type frame \<noteq> RESET
      then Some (sendReset [ErrAfterHalfClose (f_type frame)] w)
      else (case f_type frame of
        DATA \<Rightarrow>
          (case send (mkFrame DATA (f_data frame)) w of
             (True, w') \<Rightarrow> spliceStreamDirection halfClosed rest w'
           | (False, w') \<Rightarrow> Some ([ErrForwardData], w'))
      | HALF_CLOSE \<Rightarrow>
          (case send (mkFrame HALF_CLOSE []) w of
             (True, w') \<Rightarrow> spliceStreamDirection True rest w'
           | (False, w') \<Rightarrow> Some ([ErrForwardHalfClose], w'))
      | RESET \<Rightarrow>
          (case send (mkFrame RESET []) w of
             (True, w') \<Rightarrow> Some ([ErrReset], w')
           | (False, w') \<Rightarrow> Some ([ErrReset, ErrForwardReset], w'))
      | OPEN \<Rightarrow> spliceStreamDirection halfClosed rest w
      | READY \<Rightarrow> spliceStreamDirection halfClosed rest w
      | UnknownType n \<Rightarrow> Some (sendReset [ErrUnknownFrame n] w)))"

text \<open>
  \<^verbatim>\<open>SpliceStream\<close> returns when both directions have: \<open>aFirst\<close> says which result came first on the
  channel.
\<close>

definition SpliceStream :: "bool \<Rightarrow> (io_err + frame) list \<Rightarrow> (io_err + frame) list \<Rightarrow>
    sender \<Rightarrow> sender \<Rightarrow> (go_err \<times> sender \<times> sender) option" where
  "SpliceStream aFirst fromA fromB toA toB =
     (case (spliceStreamDirection False fromA toB, spliceStreamDirection False fromB toA) of
        (Some (errA, toB'), Some (errB, toA')) \<Rightarrow>
          Some (if aFirst then errA @ errB else errB @ errA, toA', toB')
      | _ \<Rightarrow> None)"

section \<open>Invariants of SpliceConn\<close>

definition payload :: "frame list \<Rightarrow> bytes" where
  "payload fs = concat (map f_data (filter (\<lambda>f. f_type f = DATA) fs))"

text \<open>What was sent but for resets: the data in order, then the half-close if there was one.\<close>

definition pipeline :: "frame list \<Rightarrow> bytes \<Rightarrow> bool \<Rightarrow> bool" where
  "pipeline fs d closed \<longleftrightarrow>
     (\<exists>ds. filter (\<lambda>f. f_type f \<noteq> RESET) fs =
             map (mkFrame DATA) ds @ (if closed then [mkFrame HALF_CLOSE []] else []) \<and> concat ds = d)"

lemma payload_simps [simp]:
  "payload [] = []" "payload (fs @ gs) = payload fs @ payload gs"
  "payload (f # fs) = (if f_type f = DATA then f_data f else []) @ payload fs"
  by (simp_all add: payload_def)

lemma pipeline_Nil [simp]: "pipeline [] [] False"
  by (simp add: pipeline_def)

lemma pipeline_data: "pipeline fs d False \<Longrightarrow> pipeline (fs @ [mkFrame DATA x]) (d @ x) False"
  unfolding pipeline_def by (auto intro: exI [of _ "_ @ [x]"])

lemma pipeline_half_close: "pipeline fs d False \<Longrightarrow> pipeline (fs @ [mkFrame HALF_CLOSE []]) d True"
  by (auto simp: pipeline_def)

lemma pipeline_reset [simp]: "pipeline (fs @ [mkFrame RESET []]) d c \<longleftrightarrow> pipeline fs d c"
  by (simp add: pipeline_def)

lemma payload_filter: "payload (filter (\<lambda>f. f_type f \<noteq> RESET) fs) = payload fs"
  by (induction fs) auto

lemma pipeline_payload: "pipeline fs d c \<Longrightarrow> payload fs = d"
proof -
  have "payload (map (mkFrame DATA) ds) = concat ds" for ds
    by (induction ds) auto
  then show "pipeline fs d c \<Longrightarrow> payload fs = d"
    by (auto simp: pipeline_def payload_filter [of fs, symmetric])
qed

fun reader_ok :: "readerPc \<Rightarrow> frame list \<Rightarrow> bytes \<Rightarrow> bool \<Rightarrow> bool" where
  "reader_ok RRead fs d failed = pipeline fs d False"
| "reader_ok (RSendData x e) fs d failed = (\<exists>y. pipeline fs y False \<and> d = y @ x)"
| "reader_ok RSendHalfClose fs d failed = pipeline fs d False"
| "reader_ok (RSendReset err) fs d failed = (pipeline fs d False \<and> err \<noteq> [])"
| "reader_ok (RFail err) fs d failed = ((\<exists>y. pipeline fs y False \<and> prefix y d) \<and> err \<noteq> [])"
| "reader_ok RDone fs d failed =
     (pipeline fs d True \<or> failed \<and> (\<exists>y. pipeline fs y False \<and> prefix y d))"

fun writer_ok :: "writerPc \<Rightarrow> frame list \<Rightarrow> bytes \<Rightarrow> nat \<Rightarrow> bool \<Rightarrow> bool" where
  "writer_ok WRecv fs d n failed = (d = payload fs \<and> n = 0)"
| "writer_ok (WWrite x) fs d n failed = (d @ x = payload fs \<and> n = 0)"
| "writer_ok WCloseWrite fs d n failed =
     (d = payload fs \<and> n = 0 \<and> fs \<noteq> [] \<and> f_type (last fs) = HALF_CLOSE)"
| "writer_ok (WSendReset err) fs d n failed = (prefix d (payload fs) \<and> n = 0 \<and> err \<noteq> [])"
| "writer_ok (WFail err) fs d n failed = (prefix d (payload fs) \<and> n = 0 \<and> err \<noteq> [])"
| "writer_ok WDone fs d n failed =
     (d = payload fs \<and> n = 1 \<and> fs \<noteq> [] \<and> f_type (last fs) = HALF_CLOSE \<or>
      failed \<and> prefix d (payload fs) \<and> n = 0)"

definition closer_ok :: "splice \<Rightarrow> bool" where
  "closer_ok s \<longleftrightarrow>
     (case returned s of
        None \<Rightarrow>
          if errDone s then firstErr s \<noteq> [] \<and> cl_once (closer s) \<and> cl_closes (closer s) = [True]
          else firstErr s = [] \<and> \<not> cl_once (closer s) \<and> cl_closes (closer s) = []
      | Some e \<Rightarrow> reader s = RDone \<and> writer s = WDone \<and>
          (if errDone s then e = firstErr s \<and> e \<noteq> [] \<and> cl_closes (closer s) = [True]
           else cl_closes (closer s) = [False] \<and> set e \<subseteq> {ErrCloseLocal}))"

definition reset_ok :: "splice \<Rightarrow> bool" where
  "reset_ok s \<longleftrightarrow>
     ((\<exists>f \<in> set (sent s). f_type f = RESET) \<longrightarrow>
        errDone s \<or> (\<exists>e. reader s = RFail e) \<or> (\<exists>e. writer s = WFail e))"

definition splice_inv :: "splice \<Rightarrow> bool" where
  "splice_inv s \<longleftrightarrow>
     reader_ok (reader s) (sent s) (bytesRead s) (errDone s) \<and>
     writer_ok (writer s) (received s) (bytesWritten s) (closedWrite s) (errDone s) \<and>
     closer_ok s \<and> reset_ok s"

lemma closer_fail: "closer_ok s \<Longrightarrow> returned s = None \<Longrightarrow> err \<noteq> [] \<Longrightarrow>
    closer_ok (splice_fail err l c s\<lparr>reader := r\<rparr>) \<and> closer_ok (splice_fail err l c s\<lparr>writer := w\<rparr>)"
  by (auto simp: closer_ok_def splice_fail_def closer_close_def Let_def)

lemma splice_fail_sel [simp]:
  "errDone (splice_fail err l c s)" "reader (splice_fail err l c s) = reader s"
  "writer (splice_fail err l c s) = writer s" "sent (splice_fail err l c s) = sent s"
  "bytesRead (splice_fail err l c s) = bytesRead s" "received (splice_fail err l c s) = received s"
  "bytesWritten (splice_fail err l c s) = bytesWritten s"
  "closedWrite (splice_fail err l c s) = closedWrite s" "returned (splice_fail err l c s) = returned s"
  by (simp_all add: splice_fail_def split: prod.splits)

lemma reader_ok_failed: "reader_ok r fs d f \<Longrightarrow> reader_ok r fs d True"
  by (cases r) auto

lemma writer_ok_failed: "writer_ok w fs d n f \<Longrightarrow> writer_ok w fs d n True"
  by (cases w) auto

lemma reader_ok_reset: "reader_ok r (fs @ [mkFrame RESET []]) d f \<longleftrightarrow> reader_ok r fs d f"
  by (cases r) auto

lemma afterRead_ok: "pipeline fs d False \<Longrightarrow> reader_ok (afterRead e) fs d f"
  by (cases e; auto simp: afterRead_def split: io_err.splits)

lemma afterRead_not_RFail [simp]: "afterRead e \<noteq> RFail err" "afterRead e \<noteq> RDone"
  by (auto simp: afterRead_def split: option.splits io_err.splits)

lemma not_returned:
  "closer_ok s \<Longrightarrow> reader s \<noteq> RDone \<or> writer s \<noteq> WDone \<Longrightarrow> returned s = None"
  by (auto simp: closer_ok_def split: option.splits)

lemma closer_ok_cong:
  "closer_ok s \<Longrightarrow> returned s = None \<Longrightarrow> returned s' = None \<Longrightarrow> errDone s' = errDone s \<Longrightarrow>
   firstErr s' = firstErr s \<Longrightarrow> closer s' = closer s \<Longrightarrow> closer_ok s'"
  by (simp add: closer_ok_def)

lemma pipeline_prefix: "pipeline fs y False \<Longrightarrow> \<exists>z. pipeline fs z False \<and> prefix z (y @ d)"
  by (meson prefixI)

lemma written_prefix: "a @ d = p \<Longrightarrow> prefix (a @ take n d) p" "a @ d = p \<Longrightarrow> prefix a p"
  by (auto simp: take_is_prefix)

lemma reader_step_inv:
  assumes "splice_inv s" "spliceConnToStream res s = Some s'"
  shows "splice_inv s'"
proof (cases "reader s")
  case RRead
  with assms not_returned [of s] show ?thesis
    by (auto simp: splice_inv_def spliceConnToStream_def reset_ok_def afterRead_ok
        split: opResult.splits if_splits intro: closer_ok_cong)
next
  case (RSendData d e)
  with assms not_returned [of s] show ?thesis
    by (auto simp: splice_inv_def spliceConnToStream_def reset_ok_def afterRead_ok pipeline_data
        split: opResult.splits intro: closer_ok_cong pipeline_prefix)
next
  case RSendHalfClose
  with assms not_returned [of s] show ?thesis
    by (auto simp: splice_inv_def spliceConnToStream_def reset_ok_def pipeline_half_close
        split: opResult.splits intro: closer_ok_cong)
next
  case (RSendReset err)
  with assms not_returned [of s] show ?thesis
    by (auto simp: splice_inv_def spliceConnToStream_def reset_ok_def
        split: opResult.splits intro: closer_ok_cong)
next
  case (RFail err)
  with assms not_returned [of s] show ?thesis
    by (auto simp: splice_inv_def spliceConnToStream_def reset_ok_def closer_fail
        split: opResult.splits intro: writer_ok_failed)
next
  case RDone
  with assms show ?thesis by (simp add: spliceConnToStream_def)
qed

lemma onFrame_ok: "d = payload fs \<Longrightarrow> writer_ok (onFrame f) (fs @ [f]) d 0 failed"
  by (auto simp: onFrame_def split: frame_type.splits)

lemma writer_step_inv:
  assumes "splice_inv s" "spliceStreamToConn res s = Some s'"
  shows "splice_inv s'"
proof (cases "writer s")
  case WRecv
  with assms not_returned [of s] show ?thesis
    by (auto simp: splice_inv_def spliceStreamToConn_def reset_ok_def onFrame_ok
        split: opResult.splits sum.splits intro: closer_ok_cong)
next
  case (WWrite d)
  with assms not_returned [of s] show ?thesis
    by (auto simp: splice_inv_def spliceStreamToConn_def reset_ok_def
        split: opResult.splits if_splits intro: closer_ok_cong written_prefix)
next
  case WCloseWrite
  with assms not_returned [of s] show ?thesis
    by (auto simp: splice_inv_def spliceStreamToConn_def reset_ok_def
        split: opResult.splits intro: closer_ok_cong)
next
  case (WSendReset err)
  with assms not_returned [of s] show ?thesis
    by (auto simp: splice_inv_def spliceStreamToConn_def reset_ok_def reader_ok_reset
        split: opResult.splits intro: closer_ok_cong)
next
  case (WFail err)
  with assms not_returned [of s] show ?thesis
    by (auto simp: splice_inv_def spliceStreamToConn_def reset_ok_def closer_fail
        split: opResult.splits intro: reader_ok_failed)
next
  case WDone
  with assms show ?thesis by (simp add: spliceStreamToConn_def)
qed

lemma main_step_inv:
  assumes "splice_inv s" "spliceReturn res s = Some s'"
  shows "splice_inv s'"
  using assms
  by (auto simp: splice_inv_def spliceReturn_def reset_ok_def closer_ok_def closer_close_def Let_def
      split: opResult.splits if_splits option.splits)

lemma splice_step_inv: "splice_inv s \<Longrightarrow> splice_step e s = Some s' \<Longrightarrow> splice_inv s'"
  by (cases "(e, s)" rule: splice_step.cases)
    (auto dest: reader_step_inv writer_step_inv main_step_inv)

lemma splice_init_inv: "splice_inv splice_init"
  by (simp add: splice_inv_def splice_init_def closer_ok_def reset_ok_def)

lemma SpliceConn_inv: "SpliceConn es s = Some s' \<Longrightarrow> splice_inv s \<Longrightarrow> splice_inv s'"
  by (induction es arbitrary: s) (auto split: option.splits dest: splice_step_inv)

lemmas SpliceConn_reachable = SpliceConn_inv [OF _ splice_init_inv]

section \<open>What a relay forwards\<close>

definition frames :: "(io_err + frame) list \<Rightarrow> frame list" where
  "frames recvs = concat (map (\<lambda>r. case r of Inl _ \<Rightarrow> [] | Inr f \<Rightarrow> [f]) recvs)"

lemma frames_simps [simp]:
  "frames [] = []" "frames (Inl e # rs) = frames rs" "frames (Inr f # rs) = f # frames rs"
  by (simp_all add: frames_def)

definition relay1 :: "frame \<Rightarrow> frame list" where
  "relay1 f =
     (if f_type f = DATA then [mkFrame DATA (f_data f)]
      else if f_type f \<in> {HALF_CLOSE, RESET} then [mkFrame (f_type f) []] else [])"

definition relayed :: "frame list \<Rightarrow> frame list" where
  "relayed fs = concat (map relay1 fs)"

lemma relayed_simps [simp]: "relayed [] = []" "relayed (f # fs) = relay1 f @ relayed fs"
  "relayed (fs @ gs) = relayed fs @ relayed gs"
  by (simp_all add: relayed_def)

lemma payload_relayed [simp]: "payload (relayed fs) = payload fs"
  by (induction fs) (auto simp: relay1_def)

lemma send_out: "send f w = (ok, w') \<Longrightarrow> out w' = (if ok then out w @ [f] else out w)"
  by (auto simp: send_def split: if_splits)

lemma sendReset_out:
  "sendReset cause w = (err, w') \<Longrightarrow> out w' = out w \<or> out w' = out w @ [mkFrame RESET []]"
  by (auto simp: sendReset_def split: prod.splits bool.splits dest: send_out)

lemma sendReset_err: "sendReset cause w = (err, w') \<Longrightarrow> cause \<noteq> [] \<Longrightarrow> err \<noteq> []"
  by (auto simp: sendReset_def split: prod.splits bool.splits)

definition relayed_to :: "frame list \<Rightarrow> sender \<Rightarrow> sender \<Rightarrow> bool" where
  "relayed_to fs w w' \<longleftrightarrow>
     (\<exists>gs. prefix gs fs \<and>
        (out w' = out w @ relayed gs \<or> out w' = out w @ relayed gs @ [mkFrame RESET []]))"

lemma relayed_toI:
  "out w' = out w \<or> out w' = out w @ [mkFrame RESET []] \<Longrightarrow> relayed_to fs w w'"
  unfolding relayed_to_def by (rule exI [of _ "[]"]) auto

lemma relayed_to_step:
  "relayed_to fs w1 w' \<Longrightarrow> out w1 = out w @ relay1 f \<Longrightarrow> relayed_to (f # fs) w w'"
  unfolding relayed_to_def by (elim exE conjE, rule_tac x = "f # gs" in exI) auto

lemma direction_relays:
  "spliceStreamDirection halfClosed recvs w = Some (err, w') \<Longrightarrow> relayed_to (frames recvs) w w'"
proof (induction recvs arbitrary: halfClosed w)
  case Nil
  then show ?case by simp
next
  case (Cons r rest)
  show ?case
  proof (cases r)
    case (Inl e)
    with Cons.prems show ?thesis by (auto split: if_splits dest: sendReset_out intro: relayed_toI)
  next
    case (Inr f)
    obtain ok w1 where s: "send (mkFrame (f_type f) (if f_type f = DATA then f_data f else [])) w = (ok, w1)"
      by fastforce
    note o = send_out [OF s]
    have go: "relayed_to (f # frames rest) w w'"
      if "spliceStreamDirection hc rest w2 = Some (err, w')" "out w2 = out w @ relay1 f" for hc w2
      using relayed_to_step [OF Cons.IH [OF that(1)] that(2)] .
    show ?thesis
    proof (cases "halfClosed \<and> f_type f \<noteq> RESET")
      case True
      with Cons.prems Inr show ?thesis by (auto dest: sendReset_out intro: relayed_toI)
    next
      case False
      with Cons.prems Inr s o show ?thesis
        by (cases "f_type f"; cases ok) (auto simp: relay1_def dest: sendReset_out intro: relayed_toI go)
    qed
  qed
qed

text \<open>A direction that returned no error has relayed all it received, up to the end of its source.\<close>

definition clean_relay :: "bool \<Rightarrow> frame list \<Rightarrow> bool" where
  "clean_relay halfClosed fs \<longleftrightarrow>
     (\<forall>f \<in> set fs. f_type f \<noteq> RESET) \<and>
     (if halfClosed then fs = []
      else fs \<noteq> [] \<and> f_type (last fs) = HALF_CLOSE \<and> (\<forall>f \<in> set (butlast fs). f_type f \<noteq> HALF_CLOSE))"

lemma clean_relay_Cons:
  "f_type f = DATA \<or> f_type f = OPEN \<or> f_type f = READY \<Longrightarrow> clean_relay False fs \<Longrightarrow>
   clean_relay False (f # fs)"
  by (auto simp: clean_relay_def)

definition relayed_all :: "bool \<Rightarrow> (io_err + frame) list \<Rightarrow> sender \<Rightarrow> sender \<Rightarrow> bool" where
  "relayed_all halfClosed recvs w w' \<longleftrightarrow>
     (\<exists>fs rest. recvs = map Inr fs @ Inl EOF # rest \<and> out w' = out w @ relayed fs \<and>
        clean_relay halfClosed fs)"

lemma relayed_all_step:
  assumes "relayed_all hc rest w2 w'" "out w2 = out w @ relay1 f"
    and "\<And>fs. clean_relay hc fs \<Longrightarrow> clean_relay hc' (f # fs)"
  shows "relayed_all hc' (Inr f # rest) w w'"
proof -
  from assms(1) obtain fs rest' where
    "rest = map Inr fs @ Inl EOF # rest'" "out w' = out w2 @ relayed fs" "clean_relay hc fs"
    by (auto simp: relayed_all_def)
  with assms(2,3) show ?thesis
    unfolding relayed_all_def by (intro exI [of _ "f # fs"] exI [of _ rest']) auto
qed

lemma direction_clean:
  "spliceStreamDirection halfClosed recvs w = Some ([], w') \<Longrightarrow> relayed_all halfClosed recvs w w'"
proof (induction recvs arbitrary: halfClosed w)
  case Nil
  then show ?case by simp
next
  case (Cons r rest)
  show ?case
  proof (cases r)
    case (Inl e)
    with Cons.prems show ?thesis
      by (auto simp: relayed_all_def clean_relay_def split: if_splits dest: sendReset_err)
  next
    case (Inr f)
    obtain ok w1 where s: "send (mkFrame (f_type f) (if f_type f = DATA then f_data f else [])) w = (ok, w1)"
      by fastforce
    note o = send_out [OF s]
    have open_: "\<not> halfClosed"
      using Cons.prems s Inr by (cases ok) (auto dest: sendReset_err split: if_splits)
    note go = relayed_all_step [OF Cons.IH]
    have closing: "clean_relay True fs \<Longrightarrow> clean_relay False (f # fs)" if "f_type f = HALF_CLOSE" for fs
      using that by (simp add: clean_relay_def)
    from Cons.prems Inr s o open_ show ?thesis
      by (cases "f_type f"; cases ok)
        (auto simp: relay1_def dest: sendReset_err intro: go closing clean_relay_Cons)
  qed
qed

section \<open>Properties\<close>

lemma sent_pipeline:
  assumes "splice_inv s"
  shows "\<exists>y c. pipeline (sent s) y c \<and> prefix y (bytesRead s) \<and> (c \<longrightarrow> y = bytesRead s \<and> reader s = RDone)"
proof -
  have "reader_ok (reader s) (sent s) (bytesRead s) (errDone s)" using assms by (simp add: splice_inv_def)
  then show ?thesis by (cases "reader s") (auto intro: prefixI)
qed

lemma written_payload:
  assumes "splice_inv s"
  shows "prefix (bytesWritten s) (payload (received s)) \<and> closedWrite s \<le> 1 \<and>
         (closedWrite s = 1 \<longrightarrow> bytesWritten s = payload (received s) \<and> received s \<noteq> [] \<and>
            f_type (last (received s)) = HALF_CLOSE)"
proof -
  have "writer_ok (writer s) (received s) (bytesWritten s) (closedWrite s) (errDone s)"
    using assms by (simp add: splice_inv_def)
  then show ?thesis by (cases "writer s") (auto intro: written_prefix)
qed

lemma pipeline_tail:
  assumes "pipeline (xs @ ys) d c" "h \<in> set xs" "f_type h = HALF_CLOSE"
  shows "c \<and> payload xs = d"
proof -
  let ?core = "filter (\<lambda>f. f_type f \<noteq> RESET)"
  from assms(1) obtain ds where
    ds: "?core xs @ ?core ys = map (mkFrame DATA) ds @ (if c then [mkFrame HALF_CLOSE []] else [])"
    by (auto simp: pipeline_def)
  have h: "h \<in> set (?core xs)" using assms(2,3) by simp
  have nd: "f_type f = DATA" if "f \<in> set (map (mkFrame DATA) ds)" for f using that by auto
  have c
  proof (rule ccontr)
    assume "\<not> c"
    then have "map (mkFrame DATA) ds = ?core xs @ ?core ys" using ds by simp
    then have "h \<in> set (map (mkFrame DATA) ds)" using h by simp
    with nd assms(3) show False by force
  qed
  have "?core ys = []"
  proof (cases "?core ys" rule: rev_cases)
    case (snoc zs z)
    with ds \<open>c\<close> have "?core xs @ zs = map (mkFrame DATA) ds" by (simp flip: append_assoc)
    then have "h \<in> set (map (mkFrame DATA) ds)" using h by (metis UnI1 set_append)
    with nd assms(3) show ?thesis by force
  qed
  then have "payload ys = []" using payload_filter [of ys] by simp
  with \<open>c\<close> pipeline_payload [OF assms(1)] show ?thesis by simp
qed

lemma prefix_relayed:
  assumes "prefix xs (relayed fs)"
  shows "\<exists>gs. prefix gs fs \<and> xs = relayed gs"
  using assms
proof (induction fs arbitrary: xs rule: rev_induct)
  case Nil
  then show ?case by simp
next
  case (snoc f fs)
  show ?case
  proof (cases "prefix xs (relayed fs)")
    case True
    with snoc.IH show ?thesis by (meson prefix_append prefix_order.trans)
  next
    case False
    have "length (relay1 f) \<le> 1" by (simp add: relay1_def)
    with False snoc.prems have "xs = relayed (fs @ [f])"
      by (cases "relay1 f") (auto simp: prefix_append prefix_Cons)
    then show ?thesis by blast
  qed
qed

lemma relayed_half_close: "relayed gs \<noteq> [] \<Longrightarrow> f_type (last (relayed gs)) = HALF_CLOSE \<Longrightarrow>
    \<exists>h \<in> set gs. f_type h = HALF_CLOSE"
  by (induction gs) (auto simp: relay1_def split: if_splits)

text \<open>
  (C4) Bytes cross the tunnel unchanged. A connection spliced at one end, a relay between two frame
  streams, a connection spliced at the other end, each with any schedule and any results of its
  reads, partial writes, sends and receives, frames being delivered in order: what is written at
  the far end is a prefix of what was read at the near end, and once the far end's write side has
  been half-closed it is all of it, the near end having read to its end of file.
\<close>

theorem tunnel_end_to_end:
  assumes "SpliceConn esA splice_init = Some a" "SpliceConn esB splice_init = Some b"
    and "spliceStreamDirection False recvs \<lparr>out = [], sendFails = fails\<rparr> = Some (err, w)"
    and "prefix (frames recvs) (sent a)" "prefix (received b) (out w)"
  shows "prefix (bytesWritten b) (bytesRead a) \<and> closedWrite b \<le> 1 \<and>
         (closedWrite b = 1 \<longrightarrow> bytesWritten b = bytesRead a \<and> reader a = RDone)"
proof -
  note inv = SpliceConn_reachable [OF assms(1)] SpliceConn_reachable [OF assms(2)]
  from sent_pipeline [OF inv(1)] obtain y c where
    y: "pipeline (sent a) y c" "prefix y (bytesRead a)" "c \<longrightarrow> y = bytesRead a \<and> reader a = RDone"
    by blast
  from direction_relays [OF assms(3)] obtain gs where gs: "prefix gs (frames recvs)"
      "out w = relayed gs \<or> out w = relayed gs @ [mkFrame RESET []]"
    by (auto simp: relayed_to_def)
  have "prefix gs (sent a)" using gs(1) assms(4) by (rule prefix_order.trans)
  note b = written_payload [OF inv(2)]
  have reset: "received b = relayed gs @ [mkFrame RESET []] \<or> prefix (received b) (relayed gs)"
    using gs(2) assms(5) by auto
  have "prefix (payload (received b)) (payload gs)"
    using reset by (auto simp: prefix_def) (metis payload_simps(2) payload_relayed)
  moreover have "prefix (payload gs) (payload (sent a))"
    using \<open>prefix gs (sent a)\<close> by (auto simp: prefix_def)
  ultimately have "prefix (bytesWritten b) (bytesRead a)"
    using b y(2) pipeline_payload [OF y(1)] by (metis prefix_order.trans)
  moreover have "bytesWritten b = bytesRead a \<and> reader a = RDone" if cw: "closedWrite b = 1"
  proof -
    from b cw have last: "received b \<noteq> []" "f_type (last (received b)) = HALF_CLOSE" by simp_all
    with reset have "prefix (received b) (relayed gs)" by auto
    from prefix_relayed [OF this] obtain hs where hs: "prefix hs gs" "received b = relayed hs" by blast
    with last relayed_half_close obtain h where h: "h \<in> set hs" "f_type h = HALF_CLOSE" by metis
    from hs(1) \<open>prefix gs (sent a)\<close> obtain zs where "sent a = hs @ zs"
      by (meson prefixE prefix_order.trans)
    with pipeline_tail [of hs zs y c h] y(1) h have "c \<and> payload hs = y" by simp
    with y(3) b cw hs(2) show ?thesis by simp
  qed
  ultimately show ?thesis using b by blast
qed

definition client_half :: "(worker \<times> opResult) list" where
  "client_half = [(Reader, ResRead ''GET'' None), (Reader, ResOk), (Reader, ResRead '' /'' (Some EOF)),
     (Reader, ResOk), (Reader, ResOk)]"

definition server_half :: "(worker \<times> opResult) list" where
  "server_half = [(Writer, ResRecv (Inr (mkFrame DATA ''GET''))), (Writer, ResWrite 1 False),
     (Writer, ResWrite 2 False), (Writer, ResRecv (Inr (mkFrame DATA '' /''))),
     (Writer, ResWrite 2 False), (Writer, ResRecv (Inr (mkFrame HALF_CLOSE []))), (Writer, ResOk)]"

theorem tunnel_end_to_end_witness:
  "\<exists>a b. SpliceConn client_half splice_init = Some a \<and> SpliceConn server_half splice_init = Some b \<and>
     closedWrite b = 1 \<and> bytesWritten b = bytesRead a \<and> bytesRead a = ''GET /''"
proof -
  obtain a where a: "SpliceConn client_half splice_init = Some a" "bytesRead a = ''GET /''"
      "sent a = [mkFrame DATA ''GET'', mkFrame DATA '' /'', mkFrame HALF_CLOSE []]"
    by (auto simp: client_half_def splice_init_def spliceConnToStream_def chunkSize_def afterRead_def)
  obtain b where b: "SpliceConn server_half splice_init = Some b" "closedWrite b = 1"
      "received b = [mkFrame DATA ''GET'', mkFrame DATA '' /'', mkFrame HALF_CLOSE []]"
    by (auto simp: server_half_def splice_init_def spliceStreamToConn_def onFrame_def)
  have "spliceStreamDirection False (map Inr (sent a) @ [Inl EOF]) \<lparr>out = [], sendFails = []\<rparr> =
      Some ([], \<lparr>out = sent a, sendFails = []\<rparr>)"
    by (simp add: a(3) send_def)
  from tunnel_end_to_end [OF a(1) b(1) this] a b show ?thesis by simp
qed

lemma SpliceConn_clean_return:
  assumes "SpliceConn es splice_init = Some s" "returned s = Some []"
  shows "pipeline (sent s) (bytesRead s) True \<and> (\<forall>f \<in> set (sent s). f_type f \<noteq> RESET) \<and>
         bytesWritten s = payload (received s) \<and> closedWrite s = 1 \<and>
         f_type (last (received s)) = HALF_CLOSE \<and> cl_closes (closer s) = [False]"
proof -
  note inv = SpliceConn_reachable [OF assms(1), unfolded splice_inv_def]
  from inv assms(2) have ended: "reader s = RDone" "writer s = WDone" "\<not> errDone s"
      "cl_closes (closer s) = [False]"
    by (auto simp: closer_ok_def split: if_splits)
  with inv show ?thesis by (auto simp: reset_ok_def)
qed

definition whole_splice :: "(worker \<times> opResult) list" where
  "whole_splice = client_half @ server_half @ [(Main, ResClose True True)]"

lemmas splice_eval =
  whole_splice_def client_half_def server_half_def splice_init_def spliceConnToStream_def
  spliceStreamToConn_def spliceReturn_def chunkSize_def afterRead_def onFrame_def closer_close_def

lemma SpliceConn_closes_once:
  assumes "SpliceConn es splice_init = Some s"
  shows "length (cl_closes (closer s)) \<le> 1 \<and>
         (\<forall>e. returned s = Some e \<longrightarrow>
            cl_closes (closer s) = [errDone s] \<and> reader s = RDone \<and> writer s = WDone \<and>
            (if errDone s then e = firstErr s \<and> e \<noteq> [] else set e \<subseteq> {ErrCloseLocal}))"
  using SpliceConn_reachable [OF assms]
  by (auto simp: splice_inv_def closer_ok_def split: option.splits if_splits)



text \<open>
  A relay hop that returns nil in both directions has forwarded each direction completely: the
  frames up to the end of its source, only data and one half-close at the end, no reset.
\<close>

theorem SpliceStream_clean:
  assumes "SpliceStream aFirst fromA fromB \<lparr>out = [], sendFails = fa\<rparr> \<lparr>out = [], sendFails = fb\<rparr> =
      Some ([], toA, toB)"
  shows "relayed_all False fromA \<lparr>out = [], sendFails = fb\<rparr> toB \<and>
         relayed_all False fromB \<lparr>out = [], sendFails = fa\<rparr> toA \<and>
         payload (out toB) = payload (takeWhile (\<lambda>f. f_type f \<noteq> HALF_CLOSE) (frames fromA)) \<and>
         payload (out toA) = payload (takeWhile (\<lambda>f. f_type f \<noteq> HALF_CLOSE) (frames fromB))"
proof -
  have dirs: "spliceStreamDirection False fromA \<lparr>out = [], sendFails = fb\<rparr> = Some ([], toB)"
      "spliceStreamDirection False fromB \<lparr>out = [], sendFails = fa\<rparr> = Some ([], toA)"
    using assms by (auto simp: SpliceStream_def split: option.splits prod.splits if_splits)
  have pay: "payload (out w') = payload (takeWhile (\<lambda>f. f_type f \<noteq> HALF_CLOSE) (frames recvs))"
    if "relayed_all False recvs w w'" "out w = []" for recvs w w'
  proof -
    from that obtain fs rest where fs: "recvs = map Inr fs @ Inl EOF # rest" "out w' = relayed fs"
        "fs \<noteq> []" "f_type (last fs) = HALF_CLOSE" "\<forall>f \<in> set (butlast fs). f_type f \<noteq> HALF_CLOSE"
      unfolding relayed_all_def clean_relay_def by fastforce
    define gs g where "gs = butlast fs" and "g = last fs"
    with fs have g: "recvs = map Inr (gs @ [g]) @ Inl EOF # rest"
        "out w' = relayed (gs @ [g])" "f_type g = HALF_CLOSE" "\<forall>f \<in> set gs. f_type f \<noteq> HALF_CLOSE"
      by simp_all
    have "frames (map Inr fs @ xs) = fs @ frames xs" for fs xs by (induction fs) auto
    with g have "takeWhile (\<lambda>f. f_type f \<noteq> HALF_CLOSE) (frames recvs) = gs" by simp
    with g show ?thesis by (simp add: relay1_def)
  qed
  show ?thesis using direction_clean [OF dirs(1)] direction_clean [OF dirs(2)] pay by simp
qed

theorem SpliceStream_clean_witness:
  "\<exists>toA toB. SpliceStream True [Inr (mkFrame OPEN []), Inr (mkFrame DATA ''hi''), Inr (mkFrame HALF_CLOSE []), Inl EOF]
      [Inr (mkFrame HALF_CLOSE []), Inl EOF] \<lparr>out = [], sendFails = []\<rparr> \<lparr>out = [], sendFails = []\<rparr> =
      Some ([], toA, toB) \<and> payload (out toB) = ''hi''"
proof -
  obtain toA toB where r: "SpliceStream True [Inr (mkFrame OPEN []), Inr (mkFrame DATA ''hi''),
      Inr (mkFrame HALF_CLOSE []), Inl EOF] [Inr (mkFrame HALF_CLOSE []), Inl EOF]
      \<lparr>out = [], sendFails = []\<rparr> \<lparr>out = [], sendFails = []\<rparr> = Some ([], toA, toB)"
    by (auto simp: SpliceStream_def send_def)
  from SpliceStream_clean [OF r] r show ?thesis by auto
qed

end
