(* ===== verification/Ports.thy ===== *)
theory Ports
  imports Prelude
begin

text \<open>
  The public port store of \<^verbatim>\<open>pkg/controller/ports.go\<close>: port ranges and Redis keys, the change
  watchers, the \<^verbatim>\<open>portStore\<close> interface with its contract (the locale \<open>port_store\<close>) and the
  in-memory implementation, which is proved to meet it. The Redis implementation is in
  \<open>RedisPorts\<close>. Every operation of \<^verbatim>\<open>memPortStore\<close> holds its mutex from start to end, so one
  operation is one function from the state before to the state after.
\<close>

section \<open>Mappings, ranges and keys\<close>

record portMapping =
  AgentID :: string
  Target :: string
  ContainerID :: string
  Suspended :: bool

datatype port_error =
    ErrParsePort num_error
  | ErrInvalidPortRange
  | ErrInvalidPortKey
  | ErrPortRangeExhausted
  | ErrPortNotFound
  | ErrRedis
  | ErrDecodeMapping

record portRange =
  range_from :: uint32
  range_to :: uint32

definition maximumPublicPort :: uint32 where
  "maximumPublicPort = 65535"

definition portScanBatchSize :: nat where
  "portScanBatchSize = 100"

definition portKeyPrefix :: string where
  "portKeyPrefix = ''hostlink:port:''"

definition parsePort :: "string \<Rightarrow> port_error + uint32" where
  "parsePort s = (case parseUint 16 s of Inl e \<Rightarrow> Inl (ErrParsePort e) | Inr p \<Rightarrow> Inr (of_nat p))"

definition validatePortRange :: "uint32 \<Rightarrow> uint32 \<Rightarrow> port_error option" where
  "validatePortRange from to =
     (if from = 0 \<or> to > maximumPublicPort \<or> from > to then Some ErrInvalidPortRange else None)"

definition parsePortRange :: "string \<Rightarrow> port_error + portRange" where
  "parsePortRange s =
     (let parts = splitOn (CHR ''-'') s in
      if length parts > 2 then Inl ErrInvalidPortRange
      else (case parsePort (parts ! 0) of
        Inl e \<Rightarrow> Inl e
      | Inr from \<Rightarrow>
          (case (if length parts = 2 then parsePort (parts ! 1) else Inr from) of
            Inl e \<Rightarrow> Inl e
          | Inr to \<Rightarrow>
              (case validatePortRange from to of
                Some e \<Rightarrow> Inl e
              | None \<Rightarrow> Inr \<lparr>range_from = from, range_to = to\<rparr>))))"

definition portKey :: "uint32 \<Rightarrow> string" where
  "portKey port = portKeyPrefix @ formatUint (unat port)"

definition portFromKey :: "string \<Rightarrow> port_error + uint32" where
  "portFromKey key =
     (if \<not> hasPrefix key portKeyPrefix then Inl ErrInvalidPortKey
      else (case parseUint 16 (trimPrefix key portKeyPrefix) of
        Inl e \<Rightarrow> Inl (ErrParsePort e)
      | Inr port \<Rightarrow> if port = 0 then Inl ErrInvalidPortKey else Inr (of_nat port)))"

section \<open>Change watchers\<close>

text \<open>
  A subscription is a channel of capacity one, so its state is whether a token is waiting in it.
  \<^verbatim>\<open>watch\<close> returns the channel and a function that removes it; here both are named by the
  subscription's id. \<^verbatim>\<open>None\<close> is the channel of a watch on closed watchers, which nothing ever feeds.
\<close>

record portWatchers =
  next_id :: "64 word"
  watchers_closed :: bool
  subs :: "(64 word, bool) gomap"

definition newPortWatchers :: portWatchers where
  "newPortWatchers = \<lparr>next_id = 0, watchers_closed = False, subs = []\<rparr>"

definition watchers_watch :: "portWatchers \<Rightarrow> (64 word) option \<times> portWatchers" where
  "watchers_watch w =
     (if watchers_closed w then (None, w)
      else (Some (next_id w),
            w\<lparr>next_id := next_id w + 1, subs := mput (next_id w) False (subs w)\<rparr>))"

definition watchers_remove :: "64 word \<Rightarrow> portWatchers \<Rightarrow> portWatchers" where
  "watchers_remove i w = w\<lparr>subs := mdel i (subs w)\<rparr>"

definition watchers_notify :: "portWatchers \<Rightarrow> portWatchers" where
  "watchers_notify w = w\<lparr>subs := map (\<lambda>(i, _). (i, True)) (subs w)\<rparr>"

definition watchers_close :: "portWatchers \<Rightarrow> portWatchers" where
  "watchers_close w = w\<lparr>watchers_closed := True, subs := []\<rparr>"

text \<open>The receive on the subscriber's side: it returns when a token waits, and takes it.\<close>

definition watcher_receive :: "64 word \<Rightarrow> portWatchers \<Rightarrow> portWatchers option" where
  "watcher_receive i w =
     (if mget (subs w) i = Some True then Some (w\<lparr>subs := mput i False (subs w)\<rparr>) else None)"

section \<open>The portStore interface\<close>

text \<open>
  The Go interface \<^verbatim>\<open>portStore\<close> as a record of its operations over the state of the
  implementation. An operation that fails returns \<open>Inl\<close>, still with a state: a failed Redis
  command may have had its effect.
\<close>

record 's portStore =
  ps_allocate :: "uint32 \<Rightarrow> uint32 \<Rightarrow> portMapping \<Rightarrow> 's \<Rightarrow> (port_error + uint32) \<times> 's"
  ps_release :: "uint32 \<Rightarrow> 's \<Rightarrow> (port_error + unit) \<times> 's"
  ps_lookup :: "uint32 \<Rightarrow> 's \<Rightarrow> (port_error + portMapping) \<times> 's"
  ps_update :: "uint32 \<Rightarrow> portMapping \<Rightarrow> 's \<Rightarrow> (port_error + unit) \<times> 's"
  ps_desired :: "'s \<Rightarrow> (port_error + (uint32, portMapping) gomap) \<times> 's"
  ps_releaseByAgent :: "string \<Rightarrow> 's \<Rightarrow> (port_error + uint32 list) \<times> 's"

section \<open>The in-memory store\<close>

record memPortStore =
  mappings :: "(uint32, portMapping) gomap"
  mwatchers :: portWatchers

definition newMemPortStore :: memPortStore where
  "newMemPortStore = \<lparr>mappings = [], mwatchers = newPortWatchers\<rparr>"

text \<open>The search loop of \<^verbatim>\<open>allocate\<close>: the first free port, or none when it has tried \<open>to\<close>.\<close>

function allocLoop :: "(uint32, portMapping) gomap \<Rightarrow> uint32 \<Rightarrow> uint32 \<Rightarrow> uint32 option" where
  "allocLoop m port to =
     (if mget m port = None then Some port
      else if port = to then None
      else allocLoop m (port + 1) to)"
  by pat_completeness auto
termination
proof (relation "measure (\<lambda>(m, port, to). unat (to - port))", simp, clarsimp)
  fix port to :: uint32
  assume "port \<noteq> to"
  then have "unat ((to - port) - 1) < unat (to - port)"
    by (intro measure_unat) simp
  then show "unat (to - (port + 1)) < unat (to - port)"
    by (simp add: diff_diff_eq)
qed

declare allocLoop.simps [simp del]

definition mem_notify :: "memPortStore \<Rightarrow> memPortStore" where
  "mem_notify s = s\<lparr>mwatchers := watchers_notify (mwatchers s)\<rparr>"

definition mem_allocate ::
  "uint32 \<Rightarrow> uint32 \<Rightarrow> portMapping \<Rightarrow> memPortStore \<Rightarrow> (port_error + uint32) \<times> memPortStore" where
  "mem_allocate from to mapping s =
     (case validatePortRange from to of
        Some e \<Rightarrow> (Inl e, s)
      | None \<Rightarrow>
          (case allocLoop (mappings s) from to of
             Some port \<Rightarrow> (Inr port, mem_notify (s\<lparr>mappings := mput port mapping (mappings s)\<rparr>))
           | None \<Rightarrow> (Inl ErrPortRangeExhausted, s)))"

definition mem_release :: "uint32 \<Rightarrow> memPortStore \<Rightarrow> (port_error + unit) \<times> memPortStore" where
  "mem_release port s =
     (let found = mget (mappings s) port \<noteq> None;
          s' = s\<lparr>mappings := mdel port (mappings s)\<rparr>
      in (Inr (), if found then mem_notify s' else s'))"

definition mem_lookup :: "uint32 \<Rightarrow> memPortStore \<Rightarrow> (port_error + portMapping) \<times> memPortStore" where
  "mem_lookup port s =
     (case mget (mappings s) port of
        None \<Rightarrow> (Inl ErrPortNotFound, s)
      | Some mapping \<Rightarrow> (Inr mapping, s))"

definition mem_update ::
  "uint32 \<Rightarrow> portMapping \<Rightarrow> memPortStore \<Rightarrow> (port_error + unit) \<times> memPortStore" where
  "mem_update port mapping s =
     (case mget (mappings s) port of
        None \<Rightarrow> (Inl ErrPortNotFound, s)
      | Some _ \<Rightarrow> (Inr (), s\<lparr>mappings := mput port mapping (mappings s)\<rparr>))"

definition mem_desired ::
  "memPortStore \<Rightarrow> (port_error + (uint32, portMapping) gomap) \<times> memPortStore" where
  "mem_desired s = (Inr (mappings s), s)"

definition mem_releaseByAgent ::
  "string \<Rightarrow> memPortStore \<Rightarrow> (port_error + uint32 list) \<times> memPortStore" where
  "mem_releaseByAgent agentID s =
     (let ports = map fst (filter (\<lambda>(_, mapping). AgentID mapping = agentID) (mappings s));
          s' = s\<lparr>mappings := filter (\<lambda>(_, mapping). AgentID mapping \<noteq> agentID) (mappings s)\<rparr>
      in (Inr ports, if ports \<noteq> [] then mem_notify s' else s'))"

definition mem_watch :: "memPortStore \<Rightarrow> (64 word) option \<times> memPortStore" where
  "mem_watch s = (let (i, w) = watchers_watch (mwatchers s) in (i, s\<lparr>mwatchers := w\<rparr>))"

definition mem_close :: "memPortStore \<Rightarrow> memPortStore" where
  "mem_close s = s\<lparr>mwatchers := watchers_close (mwatchers s)\<rparr>"

definition memPortStoreOps :: "memPortStore portStore" where
  "memPortStoreOps =
     \<lparr>ps_allocate = mem_allocate, ps_release = mem_release, ps_lookup = mem_lookup,
      ps_update = mem_update, ps_desired = mem_desired, ps_releaseByAgent = mem_releaseByAgent\<rparr>"

section \<open>The contract of the interface\<close>

text \<open>
  \<open>view s\<close> is the table of exposed ports the store's state stands for, and \<open>stored m\<close> is the mapping
  a later lookup returns for a stored \<open>m\<close> (\<open>m\<close> itself in memory, \<open>m\<close> encoded and decoded over Redis). Each law says what one
  operation returns and what it leaves in the table; the laws for errors say what a failed
  operation may have done, because over Redis a command can take effect and its reply be lost.
\<close>

locale port_store =
  fixes ops :: "'s portStore"
    and view :: "'s \<Rightarrow> uint32 \<rightharpoonup> portMapping"
    and inv :: "'s \<Rightarrow> bool"
    and stored :: "portMapping \<Rightarrow> portMapping"
  assumes inv_allocate: "inv s \<Longrightarrow> ps_allocate ops from to m s = (r, s') \<Longrightarrow> inv s'"
    and inv_release: "inv s \<Longrightarrow> ps_release ops p s = (r1, s') \<Longrightarrow> inv s'"
    and inv_lookup: "inv s \<Longrightarrow> ps_lookup ops p s = (r2, s') \<Longrightarrow> inv s'"
    and inv_update: "inv s \<Longrightarrow> ps_update ops p m s = (r1, s') \<Longrightarrow> inv s'"
    and inv_desired: "inv s \<Longrightarrow> ps_desired ops s = (r3, s') \<Longrightarrow> inv s'"
    and inv_releaseByAgent: "inv s \<Longrightarrow> ps_releaseByAgent ops a s = (r4, s') \<Longrightarrow> inv s'"
    and allocate_ok: "inv s \<Longrightarrow> ps_allocate ops from to m s = (Inr p, s') \<Longrightarrow>
          from \<le> p \<and> p \<le> to \<and> p \<noteq> 0 \<and> p \<le> maximumPublicPort \<and> view s p = None \<and>
          (\<forall>q. from \<le> q \<and> q < p \<longrightarrow> view s q \<noteq> None) \<and> view s' = (view s)(p \<mapsto> stored m)"
    and allocate_exhausted: "inv s \<Longrightarrow>
          ps_allocate ops from to m s = (Inl ErrPortRangeExhausted, s') \<Longrightarrow>
          (\<forall>q. from \<le> q \<and> q \<le> to \<longrightarrow> view s q \<noteq> None) \<and> view s' = view s"
    and allocate_err: "inv s \<Longrightarrow> ps_allocate ops from to m s = (Inl e, s') \<Longrightarrow>
          view s' = view s \<or>
          (\<exists>p. from \<le> p \<and> p \<le> to \<and> view s p = None \<and> view s' = (view s)(p \<mapsto> stored m))"
    and release_ok: "inv s \<Longrightarrow> ps_release ops p s = (Inr u, s') \<Longrightarrow> view s' = (view s)(p := None)"
    and release_err: "inv s \<Longrightarrow> ps_release ops p s = (Inl e, s') \<Longrightarrow>
          e \<noteq> ErrPortNotFound \<and> (view s' = view s \<or> view s' = (view s)(p := None))"
    and lookup_view: "inv s \<Longrightarrow> ps_lookup ops p s = (r2, s') \<Longrightarrow> view s' = view s"
    and lookup_ok: "inv s \<Longrightarrow> ps_lookup ops p s = (Inr m, s') \<Longrightarrow> view s p = Some m"
    and lookup_missing: "inv s \<Longrightarrow> ps_lookup ops p s = (Inl ErrPortNotFound, s') \<Longrightarrow> view s p = None"
    and update_ok: "inv s \<Longrightarrow> ps_update ops p m s = (Inr u, s') \<Longrightarrow>
          view s p \<noteq> None \<and> view s' = (view s)(p \<mapsto> stored m)"
    and update_missing: "inv s \<Longrightarrow> ps_update ops p m s = (Inl ErrPortNotFound, s') \<Longrightarrow>
          view s p = None \<and> view s' = view s"
    and update_err: "inv s \<Longrightarrow> ps_update ops p m s = (Inl e, s') \<Longrightarrow>
          view s' = view s \<or> (view s p \<noteq> None \<and> view s' = (view s)(p \<mapsto> stored m))"
    and desired_view: "inv s \<Longrightarrow> ps_desired ops s = (r3, s') \<Longrightarrow> view s' = view s"
    and desired_ok: "inv s \<Longrightarrow> ps_desired ops s = (Inr ms, s') \<Longrightarrow> mwf ms \<and> mget ms = view s"
    and releaseByAgent_ok: "inv s \<Longrightarrow> ps_releaseByAgent ops a s = (Inr ps, s') \<Longrightarrow>
          set ps = {p. \<exists>m. view s p = Some m \<and> AgentID m = a} \<and>
          view s' = (\<lambda>p. if p \<in> set ps then None else view s p)"
    and releaseByAgent_err: "inv s \<Longrightarrow> ps_releaseByAgent ops a s = (Inl e, s') \<Longrightarrow>
          \<exists>R. R \<subseteq> {p. \<exists>m. view s p = Some m \<and> AgentID m = a} \<and>
              view s' = (\<lambda>p. if p \<in> R then None else view s p)"

text \<open>A sequence of calls on a store, as the controller's handlers make them.\<close>

datatype portCall =
    CallAllocate uint32 uint32 portMapping
  | CallRelease uint32
  | CallLookup uint32
  | CallUpdate uint32 portMapping
  | CallDesired
  | CallReleaseByAgent string

fun store_call :: "'s portStore \<Rightarrow> portCall \<Rightarrow> 's \<Rightarrow> 's" where
  "store_call ops (CallAllocate from to m) s = snd (ps_allocate ops from to m s)"
| "store_call ops (CallRelease p) s = snd (ps_release ops p s)"
| "store_call ops (CallLookup p) s = snd (ps_lookup ops p s)"
| "store_call ops (CallUpdate p m) s = snd (ps_update ops p m s)"
| "store_call ops CallDesired s = snd (ps_desired ops s)"
| "store_call ops (CallReleaseByAgent a) s = snd (ps_releaseByAgent ops a s)"

fun store_run :: "'s portStore \<Rightarrow> portCall list \<Rightarrow> 's \<Rightarrow> 's" where
  "store_run ops [] s = s"
| "store_run ops (c # cs) s = store_run ops cs (store_call ops c s)"

text \<open>The calls whose allocations stay within \<open>lo\<close> to \<open>hi\<close>, as those of one controller do.\<close>

fun call_within :: "uint32 \<Rightarrow> uint32 \<Rightarrow> portCall \<Rightarrow> bool" where
  "call_within lo hi (CallAllocate from to m) \<longleftrightarrow> lo \<le> from \<and> to \<le> hi"
| "call_within lo hi _ \<longleftrightarrow> True"

context port_store
begin

lemma store_call_inv: "inv s \<Longrightarrow> inv (store_call ops c s)"
  by (cases c) (auto intro: inv_allocate inv_release inv_lookup inv_update inv_desired
      inv_releaseByAgent prod.collapse [symmetric])

lemma store_run_inv: "inv s \<Longrightarrow> inv (store_run ops cs s)"
  by (induction cs arbitrary: s) (auto intro: store_call_inv)

lemma allocate_dom:
  assumes "inv s" "ps_allocate ops from to m s = (r, s')"
  shows "dom (view s') \<subseteq> dom (view s) \<union> {from..to}"
  using assms allocate_ok [of s "from" to m] allocate_err [of s "from" to m]
  by (cases r) (fastforce split: if_splits)+

lemma release_dom:
  assumes "inv s" "ps_release ops p s = (r, s')"
  shows "dom (view s') \<subseteq> dom (view s)"
proof (cases r)
  case (Inl e)
  with release_err [OF assms(1), of p e s'] assms(2) show ?thesis by (auto split: if_splits)
next
  case (Inr u)
  with release_ok [OF assms(1), of p u s'] assms(2) show ?thesis by auto
qed

lemma update_dom:
  assumes "inv s" "ps_update ops p m s = (r, s')"
  shows "dom (view s') = dom (view s)"
proof (cases r)
  case (Inl e)
  with update_err [OF assms(1), of p m e s'] assms(2) show ?thesis by (auto split: if_splits)
next
  case (Inr u)
  with update_ok [OF assms(1), of p m u s'] assms(2) show ?thesis by auto
qed

lemma releaseByAgent_dom:
  assumes "inv s" "ps_releaseByAgent ops a s = (r, s')"
  shows "dom (view s') \<subseteq> dom (view s)"
proof (cases r)
  case (Inl e)
  with releaseByAgent_err [OF assms(1), of a e s'] assms(2) show ?thesis
    by (auto split: if_splits)
next
  case (Inr ps)
  with releaseByAgent_ok [OF assms(1), of a ps s'] assms(2) show ?thesis
    by (auto split: if_splits)
qed

lemma store_call_range:
  assumes "inv s" "call_within lo hi c" "dom (view s) \<subseteq> {lo..hi}"
  shows "dom (view (store_call ops c s)) \<subseteq> {lo..hi}"
proof (cases c)
  case (CallAllocate "from" to m)
  with assms(2) have "{from..to} \<subseteq> {lo..hi}" by auto
  with assms(3) allocate_dom [OF assms(1) prod.collapse [symmetric], of "from" to m]
  have "dom (view (snd (ps_allocate ops from to m s))) \<subseteq> {lo..hi}" by blast
  with CallAllocate show ?thesis by simp
next
  case (CallRelease p)
  with assms release_dom [OF assms(1) prod.collapse [symmetric], of p] show ?thesis by auto
next
  case (CallLookup p)
  with assms lookup_view [OF assms(1) prod.collapse [symmetric], of p] show ?thesis by simp
next
  case (CallUpdate p m)
  with assms update_dom [OF assms(1) prod.collapse [symmetric], of p m] show ?thesis by simp
next
  case CallDesired
  with assms desired_view [OF assms(1) prod.collapse [symmetric]] show ?thesis by simp
next
  case (CallReleaseByAgent a)
  with assms releaseByAgent_dom [OF assms(1) prod.collapse [symmetric], of a]
  show ?thesis by auto
qed

lemma store_run_range:
  "inv s \<Longrightarrow> list_all (call_within lo hi) cs \<Longrightarrow> dom (view s) \<subseteq> {lo..hi} \<Longrightarrow>
   dom (view (store_run ops cs s)) \<subseteq> {lo..hi}"
  by (induction cs arbitrary: s) (simp_all add: store_call_inv store_call_range)

lemma allocate_then_lookup:
  assumes "inv s" "ps_allocate ops from to m s = (Inr p, s')" "ps_lookup ops p s' = (Inr m', s'')"
  shows "m' = stored m"
  using allocate_ok [OF assms(1,2)] lookup_ok [OF inv_allocate [OF assms(1,2)] assms(3)] by simp

lemma allocate_twice_distinct:
  assumes "inv s" "ps_allocate ops from to m s = (Inr p, s')"
    and "ps_allocate ops from' to' m' s' = (Inr p', s'')"
  shows "p \<noteq> p'"
  using allocate_ok [OF assms(1,2)] allocate_ok [OF inv_allocate [OF assms(1,2)] assms(3)]
  by auto

end

section \<open>The in-memory store meets the contract\<close>

abbreviation mem_view :: "memPortStore \<Rightarrow> uint32 \<rightharpoonup> portMapping" where
  "mem_view s \<equiv> mget (mappings s)"

abbreviation mem_inv :: "memPortStore \<Rightarrow> bool" where
  "mem_inv s \<equiv> mwf (mappings s)"

lemmas mem_ops_defs =
  memPortStoreOps_def mem_allocate_def mem_release_def mem_lookup_def mem_update_def
  mem_desired_def mem_releaseByAgent_def mem_notify_def Let_def

lemma validatePortRange_None:
  "validatePortRange from to = None \<longleftrightarrow> from \<noteq> 0 \<and> from \<le> to \<and> to \<le> maximumPublicPort"
  by (auto simp: validatePortRange_def not_less)

lemma word_between_step:
  fixes port q to :: uint32
  assumes "port \<noteq> to" "port \<le> to"
  shows "port + 1 \<le> to" and "port \<le> q \<longleftrightarrow> q = port \<or> port + 1 \<le> q"
  using assms by (unat_arith, unat_arith)

lemma allocLoop_Some:
  "allocLoop m port to = Some p \<Longrightarrow> port \<le> to \<Longrightarrow>
   port \<le> p \<and> p \<le> to \<and> mget m p = None \<and> (\<forall>q. port \<le> q \<and> q < p \<longrightarrow> mget m q \<noteq> None)"
proof (induction m port to rule: allocLoop.induct)
  case (1 m port to)
  show ?case
  proof (cases "mget m port = None")
    case True
    with "1.prems" show ?thesis by (auto simp: allocLoop.simps [of m port to])
  next
    case False
    with "1.prems" have ne: "port \<noteq> to" and rec: "allocLoop m (port + 1) to = Some p"
      by (auto simp: allocLoop.simps [of m port to] split: if_splits)
    note step = word_between_step [OF ne "1.prems"(2)]
    from "1.IH" [OF False ne rec step(1)] False step(2) show ?thesis by auto
  qed
qed

lemma allocLoop_None:
  "allocLoop m port to = None \<Longrightarrow> port \<le> to \<Longrightarrow> port \<le> q \<Longrightarrow> q \<le> to \<Longrightarrow> mget m q \<noteq> None"
proof (induction m port to rule: allocLoop.induct)
  case (1 m port to)
  from "1.prems"(1) have taken: "mget m port \<noteq> None"
    by (auto simp: allocLoop.simps [of m port to] split: if_splits)
  show ?case
  proof (cases "port = to")
    case True
    with "1.prems" taken show ?thesis by (simp add: order_antisym)
  next
    case False
    with "1.prems"(1) taken have "allocLoop m (port + 1) to = None"
      by (auto simp: allocLoop.simps [of m port to])
    with "1.IH" [OF taken False] "1.prems"(3,4) taken word_between_step [OF False "1.prems"(2)]
    show ?thesis by auto
  qed
qed

lemma mem_allocate_cases:
  assumes "mem_allocate from to m s = (r, s')"
  obtains (bad) "r = Inl ErrInvalidPortRange" "s' = s" "validatePortRange from to \<noteq> None"
  | (ok) p where "r = Inr p" "validatePortRange from to = None"
      "allocLoop (mappings s) from to = Some p"
      "s' = mem_notify (s\<lparr>mappings := mput p m (mappings s)\<rparr>)"
  | (full) "r = Inl ErrPortRangeExhausted" "s' = s" "validatePortRange from to = None"
      "allocLoop (mappings s) from to = None"
  using assms by (auto simp: mem_allocate_def validatePortRange_def split: option.splits if_splits)

lemma mem_releaseByAgent_ports:
  assumes "mwf ms"
  shows "set (map fst (filter (\<lambda>(_, m). AgentID m = a) ms)) =
           {p. \<exists>m. mget ms p = Some m \<and> AgentID m = a}"
  using assms by (force simp: mwf_mget_iff [symmetric] image_iff)

lemma mem_releaseByAgent_view:
  assumes "mwf ms"
  shows "mget (filter (\<lambda>(_, m). AgentID m \<noteq> a) ms) p =
           (if \<exists>m. mget ms p = Some m \<and> AgentID m = a then None else mget ms p)"
  using assms by (auto simp: mget_filter split: option.splits)

interpretation mem: port_store memPortStoreOps mem_view mem_inv "\<lambda>m. m"
proof (unfold_locales, goal_cases)
  case (7 s "from" to m p s')
  then have "mem_allocate from to m s = (Inr p, s')" by (simp add: memPortStoreOps_def)
  then show ?case
  proof (cases rule: mem_allocate_cases)
    case (ok p')
    then show ?thesis
      using allocLoop_Some [OF ok(3)]
      by (auto simp: validatePortRange_None mem_notify_def gomap_simps)
  qed auto
next
  case (8 s "from" to m s')
  then have "mem_allocate from to m s = (Inl ErrPortRangeExhausted, s')"
    by (simp add: memPortStoreOps_def)
  then show ?case
  proof (cases rule: mem_allocate_cases)
    case full
    then show ?thesis by (auto simp: validatePortRange_None dest: allocLoop_None)
  qed auto
next
  case (20 s a ps s')
  then have "ps = map fst (filter (\<lambda>(_, m). AgentID m = a) (mappings s))"
    and "mem_view s' = mget (filter (\<lambda>(_, m). AgentID m \<noteq> a) (mappings s))"
    by (auto simp: mem_ops_defs split: if_splits)
  then show ?case
    using mem_releaseByAgent_ports [OF 20(1)] mem_releaseByAgent_view [OF 20(1)]
    by (auto simp: fun_eq_iff simp del: set_map)
qed (auto simp: mem_ops_defs gomap_simps split: option.splits if_splits intro: gomap_wf)

section \<open>Ranges, keys and watchers\<close>

lemma unat_of_nat_16: "n < 2 ^ 16 \<Longrightarrow> unat (of_nat n :: uint32) = n"
  by (simp add: unat_of_nat take_bit_nat_eq_self)

lemma portKey_inject: "portKey p = portKey q \<longleftrightarrow> p = q"
  by (auto simp: portKey_def word_unat_eq_iff dest: formatUint_inject)

lemma unat_le_maximum: "p \<le> maximumPublicPort \<longleftrightarrow> unat p < 2 ^ 16"
  by (simp add: maximumPublicPort_def word_le_nat_alt) linarith

lemma portFromKey_portKey:
  assumes "p \<noteq> 0" "p \<le> maximumPublicPort"
  shows "portFromKey (portKey p) = Inr p"
proof -
  from assms have "unat p < 2 ^ 16" by (simp add: unat_le_maximum del: power_numeral)
  then have "parseUint 16 (formatUint (unat p)) = Inr (unat p)" by (rule parseUint_formatUint)
  with assms show ?thesis by (simp add: portFromKey_def portKey_def unat_eq_zero)
qed

lemma portFromKey_range:
  assumes "portFromKey k = Inr p"
  shows "p \<noteq> 0 \<and> p \<le> maximumPublicPort"
proof -
  from assms obtain n where n: "parseUint 16 (trimPrefix k portKeyPrefix) = Inr n" "n \<noteq> 0"
      "p = of_nat n"
    by (auto simp: portFromKey_def split: if_splits sum.splits)
  from parseUint_bound [OF n(1)] have "unat p = n" unfolding n(3) by (rule unat_of_nat_16)
  with n(2) parseUint_bound [OF n(1)] show ?thesis
    by (auto simp: unat_le_maximum simp del: power_numeral)
qed

lemma parsePortRange_valid:
  "parsePortRange s = Inr r \<Longrightarrow> validatePortRange (range_from r) (range_to r) = None"
  by (auto simp: parsePortRange_def Let_def split: if_splits sum.splits option.splits)

lemma parsePort_format:
  assumes "p \<le> maximumPublicPort"
  shows "parsePort (formatUint (unat p)) = Inr p"
proof -
  from assms have "unat p < 2 ^ 16" by (simp add: unat_le_maximum del: power_numeral)
  then show ?thesis by (simp add: parsePort_def parseUint_formatUint del: power_numeral)
qed

lemma dash_not_in_format: "CHR ''-'' \<notin> set (formatUint n)"
  using formatUint_digits [of "CHR ''-''" n] by (auto simp: isDigit_def)

lemma parsePortRange_format:
  assumes "validatePortRange from to = None"
  shows "parsePortRange (formatUint (unat from) @ ''-'' @ formatUint (unat to)) =
           Inr \<lparr>range_from = from, range_to = to\<rparr>"
proof -
  have "splitOn (CHR ''-'') (formatUint (unat from) @ ''-'' @ formatUint (unat to)) =
      [formatUint (unat from), formatUint (unat to)]"
    using splitOn_append [OF dash_not_in_format] splitOn_no_sep [OF dash_not_in_format] by simp
  moreover have "from \<le> maximumPublicPort" "to \<le> maximumPublicPort"
    using assms by (auto simp: validatePortRange_None)
  ultimately show ?thesis
    using assms by (simp add: parsePortRange_def Let_def parsePort_format)
qed

lemma watchers_notify_get: "mget (subs (watchers_notify w)) i = map_option (\<lambda>_. True) (mget (subs w) i)"
proof -
  have "mget (map (\<lambda>(i, _). (i, True)) ms) i = map_option (\<lambda>_. True) (mget ms i)"
    for ms :: "(64 word, bool) gomap"
    by (induction ms) auto
  then show ?thesis by (simp add: watchers_notify_def)
qed

section \<open>Properties\<close>

text \<open>
  (C1) \<^verbatim>\<open>memPortStore\<close> implements the \<^verbatim>\<open>portStore\<close> contract: on every branch, errors included, each
  of its operations returns and leaves in the table of exposed ports what the contract says.
\<close>

theorem mem_store_implements_contract: "port_store memPortStoreOps mem_view mem_inv (\<lambda>m. m)"
  by (rule mem.port_store_axioms)

text \<open>
  \<^verbatim>\<open>allocate\<close> on a valid range: it claims the lowest free port of the range, stores exactly the
  caller's mapping there and wakes the watchers; it reports exhaustion, changing nothing, exactly
  when every port of the range is taken.
\<close>

theorem mem_allocate_lowest_free:
  assumes "validatePortRange from to = None"
  shows "if \<exists>q. from \<le> q \<and> q \<le> to \<and> mget (mappings s) q = None
         then \<exists>p. from \<le> p \<and> p \<le> to \<and> mget (mappings s) p = None \<and>
                (\<forall>q. from \<le> q \<and> q < p \<longrightarrow> mget (mappings s) q \<noteq> None) \<and>
                mem_allocate from to m s =
                  (Inr p, mem_notify (s\<lparr>mappings := mput p m (mappings s)\<rparr>))
         else mem_allocate from to m s = (Inl ErrPortRangeExhausted, s)"
proof -
  have le: "from \<le> to" using assms by (simp add: validatePortRange_None)
  show ?thesis
  proof (cases "allocLoop (mappings s) from to")
    case None
    then show ?thesis using assms allocLoop_None [OF None le] by (auto simp: mem_allocate_def)
  next
    case (Some p)
    then show ?thesis using assms allocLoop_Some [OF Some le] by (auto simp: mem_allocate_def)
  qed
qed

theorem mem_allocate_lowest_free_witness:
  "mem_allocate 1025 1026 (portMapping.make ''a'' ''10.0.0.1:80'' ''c'' False)
     (newMemPortStore\<lparr>mappings := [(1025, portMapping.make ''b'' ''10.0.0.2:80'' ''d'' False)]\<rparr>) =
   (Inr 1026, newMemPortStore\<lparr>mappings :=
      [(1025, portMapping.make ''b'' ''10.0.0.2:80'' ''d'' False),
       (1026, portMapping.make ''a'' ''10.0.0.1:80'' ''c'' False)]\<rparr>)"
proof -
  let ?s = "newMemPortStore\<lparr>mappings := [(1025, portMapping.make ''b'' ''10.0.0.2:80'' ''d'' False)]\<rparr>"
  have valid: "validatePortRange 1025 1026 = None"
    by (simp add: validatePortRange_def maximumPublicPort_def)
  have "(1025 :: uint32) \<le> q \<Longrightarrow> q \<le> 1026 \<Longrightarrow> q = 1025 \<or> q = 1026" for q :: uint32
    by unat_arith
  then show ?thesis
    using mem_allocate_lowest_free [OF valid, of ?s "portMapping.make ''a'' ''10.0.0.1:80'' ''c'' False"]
    by (auto simp: newMemPortStore_def mem_notify_def watchers_notify_def newPortWatchers_def
        split: if_splits)
qed

text \<open>
  Whatever sequence of store calls a controller makes, if its allocations ask for ports between
  \<open>lo\<close> and \<open>hi\<close> then every exposed port stays between \<open>lo\<close> and \<open>hi\<close>, and the table never holds
  two entries for one port.
\<close>

theorem mem_store_run_within_range:
  assumes "list_all (call_within lo hi) calls"
  shows "dom (mem_view (store_run memPortStoreOps calls newMemPortStore)) \<subseteq> {lo..hi} \<and>
         mem_inv (store_run memPortStoreOps calls newMemPortStore)"
proof -
  have "mem_inv newMemPortStore" "dom (mem_view newMemPortStore) \<subseteq> {lo..hi}"
    by (simp_all add: newMemPortStore_def)
  with assms show ?thesis
    by (auto intro: mem.store_run_range [THEN subsetD] mem.store_run_inv)
qed

theorem mem_store_run_within_range_witness:
  "dom (mem_view (store_run memPortStoreOps
      [CallAllocate 1025 1030 (portMapping.make ''a'' ''t'' ''c'' False), CallRelease 7]
      newMemPortStore)) \<subseteq> {1000..2000}"
  using mem_store_run_within_range [of 1000 2000
      "[CallAllocate 1025 1030 (portMapping.make ''a'' ''t'' ''c'' False), CallRelease 7]"]
  by simp

text \<open>
  The Redis key of a port can be read back: \<^verbatim>\<open>portFromKey\<close> of \<^verbatim>\<open>portKey\<close> is the port for every
  port from 1 to 65535, no two ports share a key, and \<^verbatim>\<open>portFromKey\<close> accepts no other port.
\<close>

theorem portKey_roundtrip:
  "(\<forall>p. p \<noteq> 0 \<and> p \<le> maximumPublicPort \<longrightarrow> portFromKey (portKey p) = Inr p) \<and>
   (\<forall>p q. portKey p = portKey q \<longrightarrow> p = q) \<and>
   (\<forall>k p. portFromKey k = Inr p \<longrightarrow> p \<noteq> 0 \<and> p \<le> maximumPublicPort)"
  using portFromKey_portKey portKey_inject portFromKey_range by blast

theorem portKey_roundtrip_witness:
  "portFromKey (portKey 1025) = Inr 1025 \<and> portKey 1025 = ''hostlink:port:1025''"
proof
  show "portFromKey (portKey 1025) = Inr 1025"
    using portKey_roundtrip by (simp add: maximumPublicPort_def)
  show "portKey 1025 = ''hostlink:port:1025''"
    by (simp add: portKey_def portKeyPrefix_def formatUint.simps)
qed

text \<open>
  \<^verbatim>\<open>parsePortRange\<close> returns only ranges of non-zero 16-bit ports whose ends are in order, and
  every such range is what its written form \<^verbatim>\<open>from-to\<close> parses to.
\<close>

theorem parsePortRange_roundtrip:
  "(parsePortRange s = Inr r \<longrightarrow>
      range_from r \<noteq> 0 \<and> range_from r \<le> range_to r \<and> range_to r \<le> maximumPublicPort) \<and>
   (from \<noteq> 0 \<and> from \<le> to \<and> to \<le> maximumPublicPort \<longrightarrow>
      parsePortRange (formatUint (unat from) @ ''-'' @ formatUint (unat to)) =
        Inr \<lparr>range_from = from, range_to = to\<rparr>)"
  using parsePortRange_valid [of s r] parsePortRange_format [of "from" to]
  by (auto simp: validatePortRange_None)

theorem parsePortRange_roundtrip_witness:
  "parsePortRange ''1025-2025'' = Inr \<lparr>range_from = 1025, range_to = 2025\<rparr>"
proof -
  have "formatUint 1025 = ''1025''" "formatUint 2025 = ''2025''"
    by (simp_all add: formatUint.simps)
  then show ?thesis
    using parsePortRange_roundtrip [THEN conjunct2, of 1025 2025]
    by (simp add: maximumPublicPort_def)
qed

text \<open>
  No change of the exposed ports is lost on a watcher: after an allocation or a release that
  changes the table, every subscription that is still registered has a token waiting, so its next
  receive returns, and takes exactly that one token.
\<close>

theorem mem_change_wakes_watchers:
  assumes "(\<exists>from to m p. mem_allocate from to m s = (Inr p, s')) \<or>
           (\<exists>p. snd (mem_release p s) = s' \<and> mget (mappings s) p \<noteq> None)"
    and "mget (subs (mwatchers s)) i = Some pending"
  shows "\<exists>w. watcher_receive i (mwatchers s') = Some w \<and> watcher_receive i w = None"
proof -
  from assms(1) have "mwatchers s' = watchers_notify (mwatchers s)"
    by (auto simp: mem_ops_defs split: option.splits)
  with assms(2) show ?thesis
    by (simp add: watcher_receive_def watchers_notify_get gomap_simps)
qed

theorem mem_change_wakes_watchers_witness:
  "\<exists>w. watcher_receive 0 (mwatchers (snd (mem_release 5
      (snd (mem_watch (newMemPortStore\<lparr>mappings :=
        [(5, portMapping.make ''a'' ''t'' ''c'' False)]\<rparr>)))))) = Some w \<and> watcher_receive 0 w = None"
  by (rule mem_change_wakes_watchers [OF disjI2, of "snd (mem_watch (newMemPortStore\<lparr>mappings :=
        [(5, portMapping.make ''a'' ''t'' ''c'' False)]\<rparr>))" _ _ False])
    (auto simp: mem_watch_def newMemPortStore_def newPortWatchers_def watchers_watch_def)

end
