(* ===== verification/Redis.thy ===== *)
theory Redis
  imports Prelude
begin

text \<open>
  The Redis client the controller calls (\<^verbatim>\<open>github.com/redis/go-redis/v9\<close>) is not part of the
  repository: it is a parameter of the model, a record of the commands the sources use over an
  abstract state. What the code relies on is stated once, in the locale \<open>redis_client\<close>: what a
  command returns and does to the key space when it succeeds, and that a command that fails either
  took its effect or did not. The theory also has a small Redis of its own, on which the locale is
  interpreted, and \<^verbatim>\<open>splitRedisScheme\<close> of \<^verbatim>\<open>pkg/controller/redis.go\<close>.
\<close>

section \<open>The commands\<close>

text \<open>
  \<open>Inl ()\<close> is an error reply, a connection failure or an expired context. A \<^verbatim>\<open>redis.Nil\<close> reply is
  \<open>Inr None\<close> of \<open>rGet\<close> and \<open>Inr False\<close> of \<open>rSetXX\<close>. \<open>rSet\<close> takes the time to live in seconds.
  \<open>rScan\<close> takes a cursor, the prefix of its pattern \<^verbatim>\<open>prefix*\<close> and the count hint. \<open>rEval\<close> runs a
  script on one key: Redis runs it atomically, so it is a function from the key's value to the
  script's reply and the key's new value.
\<close>

type_synonym keyspace = "string \<rightharpoonup> string"

record 'r redisClient =
  rGet :: "string \<Rightarrow> 'r \<Rightarrow> (unit + string option) \<times> 'r"
  rMGet :: "string list \<Rightarrow> 'r \<Rightarrow> (unit + string option list) \<times> 'r"
  rSet :: "string \<Rightarrow> string \<Rightarrow> nat \<Rightarrow> 'r \<Rightarrow> (unit + unit) \<times> 'r"
  rSetNX :: "string \<Rightarrow> string \<Rightarrow> 'r \<Rightarrow> (unit + bool) \<times> 'r"
  rSetXX :: "string \<Rightarrow> string \<Rightarrow> 'r \<Rightarrow> (unit + bool) \<times> 'r"
  rDel :: "string \<Rightarrow> 'r \<Rightarrow> (unit + nat) \<times> 'r"
  rScan :: "nat \<Rightarrow> string \<Rightarrow> nat \<Rightarrow> 'r \<Rightarrow> (unit + string list \<times> nat) \<times> 'r"
  rPublish :: "string \<Rightarrow> string \<Rightarrow> 'r \<Rightarrow> (unit + unit) \<times> 'r"
  rEval :: "string \<Rightarrow> (string option \<Rightarrow> nat \<times> string option) \<Rightarrow> 'r \<Rightarrow> (unit + nat) \<times> 'r"

text \<open>
  The cursor loop that \<^verbatim>\<open>keys\<close> (ports.go), \<^verbatim>\<open>livePods\<close> (bindings.go) and \<^verbatim>\<open>listAll\<close>
  (registry.go) share. Each runs under a context with a deadline; \<open>budget\<close> is the number of \<^verbatim>\<open>SCAN\<close>
  calls that fit before it, and the next call after that fails like any call on an expired context.
\<close>

fun scanLoop :: "'r redisClient \<Rightarrow> string \<Rightarrow> nat \<Rightarrow> nat \<Rightarrow> nat \<Rightarrow> string list \<Rightarrow> 'r \<Rightarrow>
    (unit + string list) \<times> 'r" where
  "scanLoop R pfx count 0 cursor acc r = (Inl (), r)"
| "scanLoop R pfx count (Suc budget) cursor acc r =
     (case rScan R cursor pfx count r of
        (Inl e, r') \<Rightarrow> (Inl e, r')
      | (Inr (batch, nxt), r') \<Rightarrow>
          if nxt = 0 then (Inr (acc @ batch), r')
          else scanLoop R pfx count budget nxt (acc @ batch) r')"

locale redis_client =
  fixes R :: "'r redisClient"
    and kv :: "'r \<Rightarrow> keyspace"
  assumes get_kv: "rGet R k r = (x1, r') \<Longrightarrow> kv r' = kv r"
    and get_ok: "rGet R k r = (Inr o1, r') \<Longrightarrow> o1 = kv r k"
    and mget_kv: "rMGet R ks r = (x2, r') \<Longrightarrow> kv r' = kv r"
    and mget_ok: "rMGet R ks r = (Inr os, r') \<Longrightarrow> os = map (kv r) ks"
    and set_ok: "rSet R k v ttl r = (Inr u, r') \<Longrightarrow> kv r' = (kv r)(k \<mapsto> v)"
    and set_err: "rSet R k v ttl r = (Inl e, r') \<Longrightarrow> kv r' = kv r \<or> kv r' = (kv r)(k \<mapsto> v)"
    and setnx_ok: "rSetNX R k v r = (Inr b, r') \<Longrightarrow>
          (b \<longleftrightarrow> kv r k = None) \<and> kv r' = (if b then (kv r)(k \<mapsto> v) else kv r)"
    and setnx_err: "rSetNX R k v r = (Inl e, r') \<Longrightarrow>
          kv r' = kv r \<or> (kv r k = None \<and> kv r' = (kv r)(k \<mapsto> v))"
    and setxx_ok: "rSetXX R k v r = (Inr b, r') \<Longrightarrow>
          (b \<longleftrightarrow> kv r k \<noteq> None) \<and> kv r' = (if b then (kv r)(k \<mapsto> v) else kv r)"
    and setxx_err: "rSetXX R k v r = (Inl e, r') \<Longrightarrow>
          kv r' = kv r \<or> (kv r k \<noteq> None \<and> kv r' = (kv r)(k \<mapsto> v))"
    and del_ok: "rDel R k r = (Inr n, r') \<Longrightarrow>
          n = (if kv r k = None then 0 else 1) \<and> kv r' = (kv r)(k := None)"
    and del_err: "rDel R k r = (Inl e, r') \<Longrightarrow> kv r' = kv r \<or> kv r' = (kv r)(k := None)"
    and publish_kv: "rPublish R ch msg r = (x3, r') \<Longrightarrow> kv r' = kv r"
    and eval_ok: "rEval R k f r = (Inr n, r') \<Longrightarrow>
          n = fst (f (kv r k)) \<and> kv r' = (kv r)(k := snd (f (kv r k)))"
    and eval_err: "rEval R k f r = (Inl e, r') \<Longrightarrow>
          kv r' = kv r \<or> kv r' = (kv r)(k := snd (f (kv r k)))"
    and scan_kv: "rScan R c pfx count r = (x4, r') \<Longrightarrow> kv r' = kv r"
    and scan_full: "scanLoop R pfx count budget 0 [] r = (Inr ks, r') \<Longrightarrow>
          set ks = {k. kv r k \<noteq> None \<and> hasPrefix k pfx}"
begin

lemma scanLoop_kv: "scanLoop R pfx count budget cursor acc r = (x, r') \<Longrightarrow> kv r' = kv r"
proof (induction budget arbitrary: cursor acc r)
  case 0
  then show ?case by simp
next
  case (Suc budget)
  then show ?case
    by (auto split: prod.splits sum.splits if_splits dest: scan_kv)
qed

end

section \<open>A small Redis\<close>

text \<open>
  A key space with a script of failures: the next command fails, before it takes effect, when the
  head of the script says so. \<^verbatim>\<open>SCAN\<close> returns one key per call, the cursor being the position.
\<close>

record miniRedis =
  mini_store :: "(string, string) gomap"
  failures :: "bool list"

definition mini_step :: "miniRedis \<Rightarrow> (miniRedis \<Rightarrow> 'a \<times> miniRedis) \<Rightarrow> (unit + 'a) \<times> miniRedis" where
  "mini_step r f =
     (let r' = r\<lparr>failures := tl (failures r)\<rparr> in
      if failures r \<noteq> [] \<and> hd (failures r) then (Inl (), r')
      else (case f r' of (x, r'') \<Rightarrow> (Inr x, r'')))"

definition mini_matching :: "miniRedis \<Rightarrow> string \<Rightarrow> string list" where
  "mini_matching r pfx = filter (\<lambda>k. hasPrefix k pfx) (map fst (mini_store r))"

definition miniRedisClient :: "miniRedis redisClient" where
  "miniRedisClient =
     \<lparr>rGet = (\<lambda>k r. mini_step r (\<lambda>r. (mget (mini_store r) k, r))),
      rMGet = (\<lambda>ks r. mini_step r (\<lambda>r. (map (mget (mini_store r)) ks, r))),
      rSet = (\<lambda>k v ttl r. mini_step r (\<lambda>r. ((), r\<lparr>mini_store := mput k v (mini_store r)\<rparr>))),
      rSetNX = (\<lambda>k v r. mini_step r (\<lambda>r. if mget (mini_store r) k = None
                  then (True, r\<lparr>mini_store := mput k v (mini_store r)\<rparr>) else (False, r))),
      rSetXX = (\<lambda>k v r. mini_step r (\<lambda>r. if mget (mini_store r) k \<noteq> None
                  then (True, r\<lparr>mini_store := mput k v (mini_store r)\<rparr>) else (False, r))),
      rDel = (\<lambda>k r. mini_step r (\<lambda>r. (if mget (mini_store r) k = None then 0 else 1,
                  r\<lparr>mini_store := mdel k (mini_store r)\<rparr>))),
      rScan = (\<lambda>c pfx count r. mini_step r (\<lambda>r. ((take 1 (drop c (mini_matching r pfx)),
                  if Suc c < length (mini_matching r pfx) then Suc c else 0), r))),
      rPublish = (\<lambda>ch msg r. mini_step r (\<lambda>r. ((), r))),
      rEval = (\<lambda>k f r. mini_step r (\<lambda>r. (fst (f (mget (mini_store r) k)),
                  r\<lparr>mini_store := (case snd (f (mget (mini_store r) k)) of
                       None \<Rightarrow> mdel k (mini_store r) | Some v \<Rightarrow> mput k v (mini_store r))\<rparr>)))\<rparr>"

lemma mini_scanLoop:
  "scanLoop miniRedisClient pfx count budget c (take c ks) r = (Inr out, r') \<Longrightarrow>
   ks = mini_matching r pfx \<Longrightarrow> c < length ks \<or> c = 0 \<Longrightarrow> out = ks"
proof (induction budget arbitrary: c r)
  case 0
  then show ?case by simp
next
  case (Suc budget)
  let ?r = "r\<lparr>failures := tl (failures r)\<rparr>"
  have same: "mini_matching ?r pfx = ks" using Suc.prems(2) by (simp add: mini_matching_def)
  have nofail: "\<not> (failures r \<noteq> [] \<and> hd (failures r))"
    using Suc.prems(1) by (auto simp: miniRedisClient_def mini_step_def Let_def)
  have next_acc: "take c ks @ take 1 (drop c ks) = take (Suc c) ks"
    by (metis Suc_eq_plus1 take_add)
  show ?case
  proof (cases "Suc c < length ks")
    case True
    with Suc.prems(1) same nofail next_acc
    have "scanLoop miniRedisClient pfx count budget (Suc c) (take (Suc c) ks) ?r = (Inr out, r')"
      by (simp add: miniRedisClient_def mini_step_def Let_def)
    with True same show ?thesis by (intro Suc.IH) auto
  next
    case False
    with Suc.prems(1) same nofail next_acc have "out = take (Suc c) ks"
      by (simp add: miniRedisClient_def mini_step_def Let_def)
    with False show ?thesis by simp
  qed
qed

interpretation miniR: redis_client miniRedisClient "\<lambda>r. mget (mini_store r)"
proof (unfold_locales, goal_cases)
  case (17 pfx count budget r ks r')
  with mini_scanLoop [of pfx count budget 0 "mini_matching r pfx" r ks r']
  have "ks = mini_matching r pfx" by auto
  then show ?case
    by (auto simp: mini_matching_def map_of_eq_None_iff)
qed (auto simp: miniRedisClient_def mini_step_def Let_def gomap_simps
      split: if_splits option.splits)

section \<open>The topology marker of the Redis URL\<close>

text \<open>\<^verbatim>\<open>strings.Index\<close> of a non-empty separator and \<^verbatim>\<open>strings.IndexByte\<close>; \<open>None\<close> is -1.\<close>

fun indexOf :: "string \<Rightarrow> string \<Rightarrow> nat option" where
  "indexOf [] sep = (if sep = [] then Some 0 else None)"
| "indexOf (c # cs) sep =
     (if hasPrefix (c # cs) sep then Some 0 else map_option Suc (indexOf cs sep))"

definition splitRedisScheme :: "string \<Rightarrow> (string \<times> string) option" where
  "splitRedisScheme url =
     (case indexOf url ''://'' of
        None \<Rightarrow> None
      | Some i \<Rightarrow>
          (let scheme = take i url in
           case indexOf scheme ''+'' of
             None \<Rightarrow> None
           | Some p \<Rightarrow> Some (drop (Suc p) scheme, take p scheme @ drop i url)))"

datatype redisTopology = Standalone string | Sentinel string | Cluster string | Unsupported string

text \<open>\<^verbatim>\<open>newRedisClient\<close> up to the go-redis constructors: the topology and the URL handed to each.\<close>

definition redisTopologyOf :: "string \<Rightarrow> redisTopology" where
  "redisTopologyOf url =
     (case splitRedisScheme url of
        Some (scheme, rest) \<Rightarrow>
          if scheme = ''sentinel'' then Sentinel rest
          else if scheme = ''cluster'' then Cluster rest
          else Unsupported scheme
      | None \<Rightarrow> Standalone url)"

lemma indexOf_append:
  assumes "sep \<noteq> []" "hd sep \<notin> set xs"
  shows "indexOf (xs @ sep @ ys) sep = Some (length xs)"
  using assms(2)
proof (induction xs)
  case Nil
  from assms(1) show ?case by (cases sep) (simp_all add: hasPrefix_def)
next
  case (Cons x xs)
  moreover have "\<not> hasPrefix (x # xs @ sep @ ys) sep"
    using assms(1) Cons.prems by (cases sep) (auto simp: hasPrefix_def)
  ultimately show ?case by simp
qed

lemma indexOf_None: "sep \<noteq> [] \<Longrightarrow> hd sep \<notin> set xs \<Longrightarrow> indexOf xs sep = None"
  by (induction xs) (auto simp: hasPrefix_def neq_Nil_conv)

section \<open>Properties\<close>

text \<open>
  A Redis URL whose scheme carries a topology marker is split into the marker and the same URL
  under the bare scheme, whatever follows the scheme; a URL whose scheme has no marker, or that has
  no scheme, is left to the standalone client as it is.
\<close>

theorem splitRedisScheme_marker:
  assumes "CHR '':'' \<notin> set base" "CHR ''+'' \<notin> set base" "CHR '':'' \<notin> set marker"
  shows "splitRedisScheme (base @ ''+'' @ marker @ ''://'' @ rest) =
           Some (marker, base @ ''://'' @ rest) \<and>
         redisTopologyOf (base @ ''://'' @ rest) = Standalone (base @ ''://'' @ rest) \<and>
         redisTopologyOf base = Standalone base"
proof (intro conjI)
  have "indexOf ((base @ ''+'' @ marker) @ ''://'' @ rest) ''://'' =
      Some (length (base @ ''+'' @ marker))"
    using assms by (intro indexOf_append) auto
  moreover have "indexOf (base @ ''+'' @ marker) ''+'' = Some (length base)"
    using assms by (intro indexOf_append) auto
  ultimately show "splitRedisScheme (base @ ''+'' @ marker @ ''://'' @ rest) =
      Some (marker, base @ ''://'' @ rest)"
    by (simp add: splitRedisScheme_def Let_def)
  have "indexOf (base @ ''://'' @ rest) ''://'' = Some (length base)"
    using assms by (intro indexOf_append) auto
  moreover have "indexOf base ''+'' = None" "indexOf base ''://'' = None"
    using assms by (auto intro: indexOf_None)
  ultimately show "redisTopologyOf (base @ ''://'' @ rest) = Standalone (base @ ''://'' @ rest)"
    and "redisTopologyOf base = Standalone base"
    by (simp_all add: redisTopologyOf_def splitRedisScheme_def)
qed

theorem splitRedisScheme_marker_witness:
  "splitRedisScheme ''redis+sentinel://host:26379'' = Some (''sentinel'', ''redis://host:26379'')"
  using splitRedisScheme_marker [of "''redis''" "''sentinel''" "''host:26379''"] by simp

end
