(* ===== verification/RedisPorts.thy ===== *)
theory RedisPorts
  imports Ports Redis
begin

text \<open>
  \<^verbatim>\<open>redisPortStore\<close> of \<^verbatim>\<open>pkg/controller/ports.go\<close>: the port store over the Redis client, one
  function per operation, every error branch included. The proof that it meets the contract of
  \<open>Ports\<close> is a sublocale: whatever client satisfies \<open>redis_client\<close>, the store over it is a
  \<open>port_store\<close>. Of the background subscription only what a message does is here; the goroutine itself
  is in \<open>PortSubscription\<close>. \<^verbatim>\<open>encoding/json\<close> of a mapping is a parameter: \<open>marshal\<close> and
  \<open>unmarshal\<close>, of which the store needs only that what is marshalled can be unmarshalled.
\<close>

section \<open>The operations\<close>

record 'r redisPortStore =
  rdb :: 'r
  rwatchers :: portWatchers

type_synonym marshal = "portMapping \<Rightarrow> string option"
type_synonym unmarshal = "string \<Rightarrow> portMapping option"

definition portChangesChannel :: string where
  "portChangesChannel = ''hostlink:ports''"

definition redis_changed :: "'r redisClient \<Rightarrow> 'r redisPortStore \<Rightarrow> 'r redisPortStore" where
  "redis_changed R s =
     (let s' = s\<lparr>rwatchers := watchers_notify (rwatchers s)\<rparr>;
          (_, r) = rPublish R portChangesChannel ''1'' (rdb s')
      in s'\<lparr>rdb := r\<rparr>)"

definition decodePortMapping :: "unmarshal \<Rightarrow> string \<Rightarrow> port_error + portMapping" where
  "decodePortMapping unmarshal value =
     (case unmarshal value of None \<Rightarrow> Inl ErrDecodeMapping | Some mapping \<Rightarrow> Inr mapping)"

definition portsFromTo :: "uint32 \<Rightarrow> uint32 \<Rightarrow> uint32 list" where
  "portsFromTo start end = map of_nat [unat start..<Suc (unat end)]"

text \<open>The inner loop of \<^verbatim>\<open>allocate\<close> over one batch of values; \<open>None\<close> when no candidate was claimed.\<close>

fun claimLoop :: "'r redisClient \<Rightarrow> string \<Rightarrow> uint32 \<Rightarrow> nat \<Rightarrow> string option list \<Rightarrow>
    'r redisPortStore \<Rightarrow> (port_error + uint32) option \<times> 'r redisPortStore" where
  "claimLoop R encoded start index [] s = (None, s)"
| "claimLoop R encoded start index (candidate # values) s =
     (if candidate \<noteq> None then claimLoop R encoded start (Suc index) values s
      else let port = start + of_nat index in
        (case rSetNX R (portKey port) encoded (rdb s) of
           (Inl _, r) \<Rightarrow> (Some (Inl ErrRedis), s\<lparr>rdb := r\<rparr>)
         | (Inr claimed, r) \<Rightarrow>
             if claimed then (Some (Inr port), redis_changed R (s\<lparr>rdb := r\<rparr>))
             else claimLoop R encoded start (Suc index) values (s\<lparr>rdb := r\<rparr>)))"

text \<open>
  The outer loop over batches of \<^verbatim>\<open>portScanBatchSize\<close> ports. Ranges are validated first, so \<open>end\<close>
  plus one never wraps around; the test of it here is what makes the function total on all words
  (lemma \<open>batch_end_no_wrap\<close>).
\<close>

definition batchEnd :: "uint32 \<Rightarrow> uint32 \<Rightarrow> uint32" where
  "batchEnd start to = min (start + of_nat portScanBatchSize - 1) to"

function redisAllocLoop :: "'r redisClient \<Rightarrow> string \<Rightarrow> uint32 \<Rightarrow> uint32 \<Rightarrow>
    'r redisPortStore \<Rightarrow> (port_error + uint32) \<times> 'r redisPortStore" where
  "redisAllocLoop R encoded start to s =
     (if \<not> start \<le> to then (Inl ErrPortRangeExhausted, s)
      else
        (case rMGet R (map portKey (portsFromTo start (batchEnd start to))) (rdb s) of
           (Inl _, r) \<Rightarrow> (Inl ErrRedis, s\<lparr>rdb := r\<rparr>)
         | (Inr values, r) \<Rightarrow>
             (case claimLoop R encoded start 0 values (s\<lparr>rdb := r\<rparr>) of
                (Some res, s') \<Rightarrow> (res, s')
              | (None, s') \<Rightarrow>
                  if batchEnd start to = to \<or> batchEnd start to + 1 \<le> start
                  then (Inl ErrPortRangeExhausted, s')
                  else redisAllocLoop R encoded (batchEnd start to + 1) to s')))"
  by pat_completeness auto
termination
proof (relation "measure (\<lambda>(R, encoded, start, to, s). 2 ^ 32 - unat start)", simp, clarsimp)
  fix start to :: uint32
  assume "\<not> batchEnd start to + 1 \<le> start"
  then have "unat start < unat (batchEnd start to + 1)" by (simp add: word_less_nat_alt not_le)
  moreover have "unat (batchEnd start to + 1) < 2 ^ 32"
    by (rule order_less_le_trans [OF unsigned_less]) simp
  ultimately show "4294967296 - unat (batchEnd start to + 1) < 4294967296 - unat start" by simp
qed

declare redisAllocLoop.simps [simp del]

definition redis_allocate :: "'r redisClient \<Rightarrow> marshal \<Rightarrow> uint32 \<Rightarrow> uint32 \<Rightarrow> portMapping \<Rightarrow>
    'r redisPortStore \<Rightarrow> (port_error + uint32) \<times> 'r redisPortStore" where
  "redis_allocate R marshal from to mapping s =
     (case validatePortRange from to of
        Some e \<Rightarrow> (Inl e, s)
      | None \<Rightarrow>
          (case marshal mapping of
             None \<Rightarrow> (Inl ErrDecodeMapping, s)
           | Some encoded \<Rightarrow> redisAllocLoop R encoded from to s))"

definition redis_release :: "'r redisClient \<Rightarrow> uint32 \<Rightarrow> 'r redisPortStore \<Rightarrow>
    (port_error + unit) \<times> 'r redisPortStore" where
  "redis_release R port s =
     (case rDel R (portKey port) (rdb s) of
        (Inl _, r) \<Rightarrow> (Inl ErrRedis, s\<lparr>rdb := r\<rparr>)
      | (Inr deleted, r) \<Rightarrow>
          (Inr (), if deleted \<noteq> 0 then redis_changed R (s\<lparr>rdb := r\<rparr>) else s\<lparr>rdb := r\<rparr>))"

definition redis_lookup :: "'r redisClient \<Rightarrow> unmarshal \<Rightarrow> uint32 \<Rightarrow> 'r redisPortStore \<Rightarrow>
    (port_error + portMapping) \<times> 'r redisPortStore" where
  "redis_lookup R unmarshal port s =
     (case rGet R (portKey port) (rdb s) of
        (Inl _, r) \<Rightarrow> (Inl ErrRedis, s\<lparr>rdb := r\<rparr>)
      | (Inr None, r) \<Rightarrow> (Inl ErrPortNotFound, s\<lparr>rdb := r\<rparr>)
      | (Inr (Some value), r) \<Rightarrow> (decodePortMapping unmarshal value, s\<lparr>rdb := r\<rparr>))"

definition redis_update :: "'r redisClient \<Rightarrow> marshal \<Rightarrow> uint32 \<Rightarrow> portMapping \<Rightarrow>
    'r redisPortStore \<Rightarrow> (port_error + unit) \<times> 'r redisPortStore" where
  "redis_update R marshal port mapping s =
     (case marshal mapping of
        None \<Rightarrow> (Inl ErrDecodeMapping, s)
      | Some value \<Rightarrow>
          (case rSetXX R (portKey port) value (rdb s) of
             (Inl _, r) \<Rightarrow> (Inl ErrRedis, s\<lparr>rdb := r\<rparr>)
           | (Inr False, r) \<Rightarrow> (Inl ErrPortNotFound, s\<lparr>rdb := r\<rparr>)
           | (Inr True, r) \<Rightarrow> (Inr (), s\<lparr>rdb := r\<rparr>)))"

definition redis_keys :: "'r redisClient \<Rightarrow> nat \<Rightarrow> 'r \<Rightarrow> (unit + string list) \<times> 'r" where
  "redis_keys R budget r = scanLoop R portKeyPrefix portScanBatchSize budget 0 [] r"

fun decodeBatch :: "unmarshal \<Rightarrow> (string \<times> string option) list \<Rightarrow>
    (uint32, portMapping) gomap \<Rightarrow> port_error + (uint32, portMapping) gomap" where
  "decodeBatch unmarshal [] acc = Inr acc"
| "decodeBatch unmarshal ((key, None) # rest) acc = decodeBatch unmarshal rest acc"
| "decodeBatch unmarshal ((key, Some raw) # rest) acc =
     (case portFromKey key of
        Inl e \<Rightarrow> Inl e
      | Inr port \<Rightarrow>
          (case decodePortMapping unmarshal raw of
             Inl e \<Rightarrow> Inl e
           | Inr mapping \<Rightarrow> decodeBatch unmarshal rest (mput port mapping acc)))"

function desiredLoop :: "'r redisClient \<Rightarrow> unmarshal \<Rightarrow> string list \<Rightarrow>
    (uint32, portMapping) gomap \<Rightarrow> 'r \<Rightarrow> (port_error + (uint32, portMapping) gomap) \<times> 'r" where
  "desiredLoop R unmarshal keys acc r =
     (if keys = [] then (Inr acc, r)
      else
        (case rMGet R (take portScanBatchSize keys) r of
           (Inl _, r') \<Rightarrow> (Inl ErrRedis, r')
         | (Inr values, r') \<Rightarrow>
             (case decodeBatch unmarshal (zip (take portScanBatchSize keys) values) acc of
                Inl e \<Rightarrow> (Inl e, r')
              | Inr acc' \<Rightarrow> desiredLoop R unmarshal (drop portScanBatchSize keys) acc' r')))"
  by pat_completeness auto
termination
  by (relation "measure (\<lambda>(R, unmarshal, keys, acc, r). length keys)")
    (auto simp: portScanBatchSize_def)

declare desiredLoop.simps [simp del]

definition redis_desired :: "'r redisClient \<Rightarrow> unmarshal \<Rightarrow> nat \<Rightarrow> 'r redisPortStore \<Rightarrow>
    (port_error + (uint32, portMapping) gomap) \<times> 'r redisPortStore" where
  "redis_desired R unmarshal budget s =
     (case redis_keys R budget (rdb s) of
        (Inl _, r) \<Rightarrow> (Inl ErrRedis, s\<lparr>rdb := r\<rparr>)
      | (Inr keys, r) \<Rightarrow>
          (case desiredLoop R unmarshal keys [] r of (res, r') \<Rightarrow> (res, s\<lparr>rdb := r'\<rparr>)))"

fun releaseLoop :: "'r redisClient \<Rightarrow> unmarshal \<Rightarrow> string \<Rightarrow> string list \<Rightarrow> uint32 list \<Rightarrow>
    'r redisPortStore \<Rightarrow> (port_error + uint32 list) \<times> 'r redisPortStore" where
  "releaseLoop R unmarshal agentID [] ports s = (Inr ports, s)"
| "releaseLoop R unmarshal agentID (key # keys) ports s =
     (case rGet R key (rdb s) of
        (Inl _, r) \<Rightarrow> (Inl ErrRedis, s\<lparr>rdb := r\<rparr>)
      | (Inr None, r) \<Rightarrow> releaseLoop R unmarshal agentID keys ports (s\<lparr>rdb := r\<rparr>)
      | (Inr (Some value), r) \<Rightarrow>
          (case decodePortMapping unmarshal value of
             Inl e \<Rightarrow> (Inl e, s\<lparr>rdb := r\<rparr>)
           | Inr mapping \<Rightarrow>
               if AgentID mapping \<noteq> agentID
               then releaseLoop R unmarshal agentID keys ports (s\<lparr>rdb := r\<rparr>)
               else (case portFromKey key of
                 Inl e \<Rightarrow> (Inl e, s\<lparr>rdb := r\<rparr>)
               | Inr port \<Rightarrow>
                   (case rDel R key r of
                      (Inl _, r') \<Rightarrow> (Inl ErrRedis, s\<lparr>rdb := r'\<rparr>)
                    | (Inr deleted, r') \<Rightarrow>
                        if deleted \<noteq> 0
                        then releaseLoop R unmarshal agentID keys (ports @ [port])
                               (redis_changed R (s\<lparr>rdb := r'\<rparr>))
                        else releaseLoop R unmarshal agentID keys ports (s\<lparr>rdb := r'\<rparr>)))))"

definition redis_releaseByAgent :: "'r redisClient \<Rightarrow> unmarshal \<Rightarrow> nat \<Rightarrow> string \<Rightarrow>
    'r redisPortStore \<Rightarrow> (port_error + uint32 list) \<times> 'r redisPortStore" where
  "redis_releaseByAgent R unmarshal budget agentID s =
     (case redis_keys R budget (rdb s) of
        (Inl _, r) \<Rightarrow> (Inl ErrRedis, s\<lparr>rdb := r\<rparr>)
      | (Inr keys, r) \<Rightarrow> releaseLoop R unmarshal agentID keys [] (s\<lparr>rdb := r\<rparr>))"

text \<open>A message on the subscription (\<^verbatim>\<open>listen\<close>) wakes this replica's watchers.\<close>

definition redis_message :: "'r redisPortStore \<Rightarrow> 'r redisPortStore" where
  "redis_message s = s\<lparr>rwatchers := watchers_notify (rwatchers s)\<rparr>"

definition redisPortStoreOps :: "'r redisClient \<Rightarrow> marshal \<Rightarrow> unmarshal \<Rightarrow> nat \<Rightarrow>
    'r redisPortStore portStore" where
  "redisPortStoreOps R marshal unmarshal budget =
     \<lparr>ps_allocate = redis_allocate R marshal, ps_release = redis_release R,
      ps_lookup = redis_lookup R unmarshal, ps_update = redis_update R marshal,
      ps_desired = redis_desired R unmarshal budget,
      ps_releaseByAgent = redis_releaseByAgent R unmarshal budget\<rparr>"

section \<open>The table of ports in the key space\<close>

text \<open>
  A port's entry is the value under its key, decoded. The invariant: every key with the ports'
  prefix is the key of a port from 1 to 65535, and its value can be decoded.
\<close>

definition redis_view :: "('r \<Rightarrow> keyspace) \<Rightarrow> unmarshal \<Rightarrow> 'r redisPortStore \<Rightarrow> uint32 \<rightharpoonup> portMapping" where
  "redis_view kv unmarshal s p = Option.bind (kv (rdb s) (portKey p)) unmarshal"

definition redis_inv :: "('r \<Rightarrow> keyspace) \<Rightarrow> unmarshal \<Rightarrow> 'r redisPortStore \<Rightarrow> bool" where
  "redis_inv kv unmarshal s \<longleftrightarrow>
     (\<forall>k v. kv (rdb s) k = Some v \<and> hasPrefix k portKeyPrefix \<longrightarrow>
        (\<exists>p. p \<noteq> 0 \<and> p \<le> maximumPublicPort \<and> k = portKey p) \<and> unmarshal v \<noteq> None)"

definition redis_stored :: "marshal \<Rightarrow> unmarshal \<Rightarrow> portMapping \<Rightarrow> portMapping" where
  "redis_stored marshal unmarshal m = the (unmarshal (the (marshal m)))"

text \<open>What searching a list of ports in order for a free one does to the key space.\<close>

definition alloc_post :: "keyspace \<Rightarrow> string \<Rightarrow> uint32 list \<Rightarrow> (port_error + uint32) option \<Rightarrow>
    keyspace \<Rightarrow> bool" where
  "alloc_post ks encoded ports res ks' \<longleftrightarrow>
     (case res of
        None \<Rightarrow> ks' = ks \<and> (\<forall>p \<in> set ports. ks (portKey p) \<noteq> None)
      | Some (Inr p) \<Rightarrow> \<exists>as bs. ports = as @ p # bs \<and> (\<forall>q \<in> set as. ks (portKey q) \<noteq> None) \<and>
          ks (portKey p) = None \<and> ks' = ks(portKey p \<mapsto> encoded)
      | Some (Inl e) \<Rightarrow> e = ErrRedis \<and> (ks' = ks \<or>
          (\<exists>p \<in> set ports. ks (portKey p) = None \<and> ks' = ks(portKey p \<mapsto> encoded))))"

lemma alloc_post_append:
  assumes "alloc_post ks v ps None ks" "alloc_post ks v qs res ks'"
  shows "alloc_post ks v (ps @ qs) res ks'"
proof (cases res)
  case None
  with assms show ?thesis by (auto simp: alloc_post_def)
next
  case (Some r)
  show ?thesis
  proof (cases r)
    case (Inl e)
    with Some assms(2) show ?thesis by (auto simp: alloc_post_def)
  next
    case (Inr p)
    with Some assms(2) obtain as bs where "qs = as @ p # bs"
        "\<forall>q \<in> set as. ks (portKey q) \<noteq> None" "ks (portKey p) = None" "ks' = ks(portKey p \<mapsto> v)"
      by (auto simp: alloc_post_def)
    then have "ps @ qs = (ps @ as) @ p # bs \<and> (\<forall>q \<in> set (ps @ as). ks (portKey q) \<noteq> None) \<and>
        ks (portKey p) = None \<and> ks' = ks(portKey p \<mapsto> v)"
      using assms(1) by (auto simp: alloc_post_def)
    then have "\<exists>as bs. ps @ qs = as @ p # bs \<and> (\<forall>q \<in> set as. ks (portKey q) \<noteq> None) \<and>
        ks (portKey p) = None \<and> ks' = ks(portKey p \<mapsto> v)"
      by blast
    with Some Inr show ?thesis by (simp add: alloc_post_def)
  qed
qed

lemma alloc_post_prefix:
  assumes "alloc_post ks v ps (Some res) ks'"
  shows "alloc_post ks v (ps @ qs) (Some res) ks'"
proof (cases res)
  case (Inl e)
  with assms show ?thesis by (auto simp: alloc_post_def)
next
  case (Inr p)
  with assms obtain as bs where "ps @ qs = as @ p # (bs @ qs)"
      "\<forall>q \<in> set as. ks (portKey q) \<noteq> None" "ks (portKey p) = None" "ks' = ks(portKey p \<mapsto> v)"
    by (auto simp: alloc_post_def)
  with Inr show ?thesis by (simp add: alloc_post_def) metis
qed

lemma alloc_post_head:
  "ks (portKey p) = None \<Longrightarrow> alloc_post ks v (p # ps) (Some (Inr p)) (ks(portKey p \<mapsto> v))"
  by (simp add: alloc_post_def) (metis append_Nil empty_iff list.set(1))

lemma portsFromTo_nth:
  assumes "n < length (portsFromTo a b)"
  shows "portsFromTo a b ! n = a + of_nat n"
proof -
  from assms have "n < Suc (unat b) - unat a" by (simp add: portsFromTo_def del: upt_Suc)
  then have "portsFromTo a b ! n = of_nat (unat a + n)"
    by (simp add: portsFromTo_def del: upt_Suc)
  then show ?thesis by simp
qed

lemma portsFromTo_shift:
  "portsFromTo a b = map (\<lambda>j. a + of_nat j) [0..<length (portsFromTo a b)]"
  by (rule nth_equalityI) (simp_all add: portsFromTo_nth)

lemma set_portsFromTo: "set (portsFromTo a b) = {a..b}"
proof
  show "set (portsFromTo a b) \<subseteq> {a..b}"
  proof
    fix p assume "p \<in> set (portsFromTo a b)"
    then obtain n where n: "unat a \<le> n" "n \<le> unat b" "p = of_nat n"
      by (auto simp: portsFromTo_def simp del: upt_Suc)
    with unat32_less [of b] have "unat p = n" by (simp add: unat32_of_nat)
    with n show "p \<in> {a..b}" by (simp add: word_le_nat_alt)
  qed
next
  show "{a..b} \<subseteq> set (portsFromTo a b)"
  proof
    fix p assume "p \<in> {a..b}"
    then have "unat p \<in> set [unat a..<Suc (unat b)]" by (auto simp: word_le_nat_alt)
    then have "p \<in> of_nat ` set [unat a..<Suc (unat b)]" by (metis imageI of_nat_unat32)
    then show "p \<in> set (portsFromTo a b)" by (simp add: portsFromTo_def del: upt_Suc)
  qed
qed

lemma portsFromTo_before:
  assumes "portsFromTo a b = as @ p # bs" "a \<le> q" "q < p"
  shows "q \<in> set as"
proof -
  let ?n = "length as" and ?k = "unat q - unat a"
  have "?n < length (portsFromTo a b)" using assms(1) by simp
  from portsFromTo_nth [OF this] assms(1) have p: "p = a + of_nat ?n" by simp
  have "unat q < unat a + ?n"
    using assms(3) unat32_plus_le [of a ?n] unfolding p word_less_nat_alt by linarith
  then have k: "?k < ?n" using assms(2) by (auto simp: word_le_nat_alt)
  then have "portsFromTo a b ! ?k = a + of_nat ?k" by (intro portsFromTo_nth) (simp add: assms(1))
  moreover have "a + of_nat ?k = q"
    using assms(2) by (metis le_add_diff_inverse of_nat_add word_le_nat_alt of_nat_unat32)
  ultimately have "as ! ?k = q" using k by (simp add: assms(1) nth_append)
  with k show ?thesis by (metis nth_mem)
qed

lemma portsFromTo_split:
  assumes "a \<le> e" "e < b"
  shows "portsFromTo a b = portsFromTo a e @ portsFromTo (e + 1) b"
proof -
  from assms(2) have "unat (e + 1) = Suc (unat e)" by (rule unat32_inc)
  moreover have "unat a \<le> Suc (unat e)" "Suc (unat e) \<le> Suc (unat b)"
    using assms by (auto simp: word_le_nat_alt word_less_nat_alt)
  then have "[unat a..<Suc (unat b)] = [unat a..<Suc (unat e)] @ [Suc (unat e)..<Suc (unat b)]"
    by (metis le_Suc_ex upt_add_eq_append)
  ultimately show ?thesis by (simp add: portsFromTo_def del: upt_Suc)
qed

lemma batch_end_no_wrap:
  assumes "start \<le> to" "to \<le> maximumPublicPort"
  shows "start \<le> batchEnd start to \<and> batchEnd start to \<le> to \<and> \<not> batchEnd start to + 1 \<le> start"
proof -
  have "unat start \<le> 65535" "unat to \<le> 65535" "unat start \<le> unat to"
    using assms by (auto simp: maximumPublicPort_def word_le_nat_alt)
  moreover from this have "unat (start + 99) = unat start + 99"
    by (subst unat_add_lem [THEN iffD1]) simp_all
  moreover have "batchEnd start to = min (start + 99) to"
    by (simp add: batchEnd_def portScanBatchSize_def add.commute)
  ultimately have e: "unat (batchEnd start to) = min (unat start + 99) (unat to)"
    by (simp only: unat32_min)
  then have "unat (batchEnd start to + 1) = unat (batchEnd start to) + 1"
    using \<open>unat to \<le> 65535\<close> by (subst unat_add_lem [THEN iffD1]) simp_all
  with e \<open>unat start \<le> unat to\<close> show ?thesis by (simp add: word_le_nat_alt)
qed

section \<open>The Redis store meets the contract\<close>

locale redis_ports = redis_client R kv
  for R :: "'r redisClient" and kv :: "'r \<Rightarrow> keyspace" +
  fixes marshal :: marshal and unmarshal :: unmarshal and budget :: nat
  assumes codec: "\<exists>v m'. marshal m = Some v \<and> unmarshal v = Some m'"
begin

lemma changed_kv [simp]: "kv (rdb (redis_changed R s)) = kv (rdb s)"
  by (auto simp: redis_changed_def Let_def split: prod.splits dest: publish_kv)

lemma claimLoop_post:
  assumes "claimLoop R v start i vals s = (res, s')"
    and "vals = map (\<lambda>j. kv (rdb s) (portKey (start + of_nat j))) [i..<i + n]"
  shows "alloc_post (kv (rdb s)) v (map (\<lambda>j. start + of_nat j) [i..<i + n]) res (kv (rdb s'))"
  using assms
proof (induction n arbitrary: i vals s)
  case 0
  then show ?case by (auto simp: alloc_post_def)
next
  case (Suc n)
  let ?p = "start + of_nat i" and ?ks = "kv (rdb s)"
  let ?rest = "map (\<lambda>j. start + of_nat j) [Suc i..<Suc i + n]"
  have vals: "vals = ?ks (portKey ?p) # map (\<lambda>j. ?ks (portKey (start + of_nat j))) [Suc i..<Suc i + n]"
    using Suc.prems(2) by (simp add: upt_conv_Cons del: upt_Suc)
  have ports: "map (\<lambda>j. start + of_nat j) [i..<i + Suc n] = [?p] @ ?rest"
    by (simp add: upt_conv_Cons del: upt_Suc)
  show ?case
  proof (cases "?ks (portKey ?p)")
    case (Some x)
    with Suc.prems(1) have "claimLoop R v start (Suc i)
        (map (\<lambda>j. ?ks (portKey (start + of_nat j))) [Suc i..<Suc i + n]) s = (res, s')"
      unfolding vals by simp
    from Suc.IH [OF this refl] have "alloc_post ?ks v ?rest res (kv (rdb s'))" .
    moreover have "alloc_post ?ks v [?p] None ?ks" using Some by (simp add: alloc_post_def)
    ultimately show ?thesis unfolding ports by (rule alloc_post_append [rotated])
  next
    case None
    obtain x r where x: "rSetNX R (portKey ?p) v (rdb s) = (x, r)" by fastforce
    show ?thesis
    proof (cases x)
      case (Inl u)
      with Suc.prems(1) None x vals have "res = Some (Inl ErrRedis)" "s' = s\<lparr>rdb := r\<rparr>" by auto
      with setnx_err [OF x [unfolded Inl]] show ?thesis unfolding ports by (auto simp: alloc_post_def)
    next
      case (Inr b)
      from setnx_ok [OF x [unfolded Inr]] None have b: "b" "kv r = ?ks(portKey ?p \<mapsto> v)" by auto
      have "claimLoop R v start i vals s = (Some (Inr ?p), redis_changed R (s\<lparr>rdb := r\<rparr>))"
        using None x Inr b(1) by (simp add: vals Let_def)
      with Suc.prems(1) b(2) have res: "res = Some (Inr ?p)"
          "kv (rdb s') = ?ks(portKey ?p \<mapsto> v)" by auto
      show ?thesis
        unfolding ports res append.simps by (rule alloc_post_head) (rule None)
    qed
  qed
qed

lemma batch_post:
  assumes "rMGet R (map portKey (portsFromTo a e)) (rdb s) = (Inr vals, r)"
    and "claimLoop R v a 0 vals (s\<lparr>rdb := r\<rparr>) = (res, s')"
  shows "alloc_post (kv (rdb s)) v (portsFromTo a e) res (kv (rdb s'))"
proof -
  let ?n = "length (portsFromTo a e)"
  have kr: "kv r = kv (rdb s)" using assms(1) by (rule mget_kv)
  have "vals = map (kv (rdb s)) (map portKey (portsFromTo a e))" using assms(1) by (rule mget_ok)
  also have "\<dots> = map (kv (rdb s)) (map portKey (map (\<lambda>j. a + of_nat j) [0..<?n]))"
    by (subst portsFromTo_shift) simp
  finally have "vals = map (\<lambda>j. kv (rdb (s\<lparr>rdb := r\<rparr>)) (portKey (a + of_nat j))) [0..<0 + ?n]"
    by (simp add: comp_def kr)
  from claimLoop_post [OF assms(2) this] show ?thesis
    by (simp add: kr portsFromTo_shift [of a e, symmetric])
qed

lemma allocLoop_post:
  assumes "redisAllocLoop R v a to s = (res, s')" "a \<le> to" "to \<le> maximumPublicPort"
  shows "alloc_post (kv (rdb s)) v (portsFromTo a to)
           (if res = Inl ErrPortRangeExhausted then None else Some res) (kv (rdb s'))"
  using assms
proof (induction a arbitrary: s rule: measure_induct_rule [where f = "\<lambda>a. 2 ^ 32 - unat a"])
  case (less a)
  let ?e = "batchEnd a to"
  note e = batch_end_no_wrap [OF less.prems(2,3)]
  obtain x r where x: "rMGet R (map portKey (portsFromTo a ?e)) (rdb s) = (x, r)" by fastforce
  show ?case
  proof (cases x)
    case (Inl u)
    with less.prems x have "res = Inl ErrRedis" "s' = s\<lparr>rdb := r\<rparr>"
      by (auto simp: redisAllocLoop.simps [of R v a])
    with mget_kv [OF x] show ?thesis by (simp add: alloc_post_def)
  next
    case (Inr vals)
    obtain o1 s1 where c: "claimLoop R v a 0 vals (s\<lparr>rdb := r\<rparr>) = (o1, s1)" by fastforce
    note post = batch_post [OF x [unfolded Inr] c]
    show ?thesis
    proof (cases o1)
      case (Some y)
      with less.prems x Inr c have "res = y" "s' = s1"
        by (auto simp: redisAllocLoop.simps [of R v a])
      moreover have "y \<noteq> Inl ErrPortRangeExhausted" using post Some by (auto simp: alloc_post_def)
      moreover have "alloc_post (kv (rdb s)) v (portsFromTo a to) (Some y) (kv (rdb s1))"
        using post Some alloc_post_prefix [OF post [unfolded Some]] e portsFromTo_split [of a ?e to]
        by (cases "?e = to") (simp_all add: order_neq_le_trans)
      ultimately show ?thesis by simp
    next
      case None
      from post None have same: "kv (rdb s1) = kv (rdb s)" by (simp add: alloc_post_def)
      show ?thesis
      proof (cases "?e = to")
        case True
        with less.prems x Inr c None have "res = Inl ErrPortRangeExhausted" "s' = s1"
          by (auto simp: redisAllocLoop.simps [of R v a])
        with post None True show ?thesis by simp
      next
        case False
        with e have lt: "?e < to" by auto
        from False less.prems x Inr c None e
        have rec: "redisAllocLoop R v (?e + 1) to s1 = (res, s')"
          by (auto simp: redisAllocLoop.simps [of R v a])
        have "unat (?e + 1) = Suc (unat ?e)" using lt by (rule unat32_inc)
        with e lt have "2 ^ 32 - unat (?e + 1) < 2 ^ 32 - unat a" "?e + 1 \<le> to"
          using unat32_less [of to] by (auto simp: word_le_nat_alt word_less_nat_alt)
        from less.IH [OF this(1) rec this(2) less.prems(3)] same post None
        have "alloc_post (kv (rdb s)) v (portsFromTo a ?e @ portsFromTo (?e + 1) to)
            (if res = Inl ErrPortRangeExhausted then None else Some res) (kv (rdb s'))"
          by (intro alloc_post_append) simp_all
        with e lt show ?thesis by (simp add: portsFromTo_split [of a ?e to])
      qed
    qed
  qed
qed

abbreviation view :: "'r redisPortStore \<Rightarrow> uint32 \<rightharpoonup> portMapping" where
  "view \<equiv> redis_view kv unmarshal"

abbreviation inv :: "'r redisPortStore \<Rightarrow> bool" where
  "inv \<equiv> redis_inv kv unmarshal"

abbreviation sel :: "string \<Rightarrow> 'r redisPortStore \<Rightarrow> uint32 set" where
  "sel a s \<equiv> {p. \<exists>m. view s p = Some m \<and> AgentID m = a}"

lemma view_cong: "kv (rdb s') = kv (rdb s) \<Longrightarrow> view s' = view s"
  by (simp add: redis_view_def fun_eq_iff)

lemma inv_cong: "kv (rdb s') = kv (rdb s) \<Longrightarrow> inv s' = inv s"
  by (simp add: redis_inv_def)

lemma view_put: "kv (rdb s') = (kv (rdb s))(portKey p \<mapsto> v) \<Longrightarrow> unmarshal v = Some m \<Longrightarrow>
    view s' = (view s)(p \<mapsto> m)"
  by (auto simp: redis_view_def fun_eq_iff portKey_inject)

lemma view_del: "kv (rdb s') = (kv (rdb s))(portKey p := None) \<Longrightarrow> view s' = (view s)(p := None)"
  by (auto simp: redis_view_def fun_eq_iff portKey_inject)

lemma inv_put: "inv s \<Longrightarrow> kv (rdb s') = (kv (rdb s))(portKey p \<mapsto> v) \<Longrightarrow> unmarshal v \<noteq> None \<Longrightarrow>
    p \<noteq> 0 \<Longrightarrow> p \<le> maximumPublicPort \<Longrightarrow> inv s'"
  by (auto simp: redis_inv_def split: if_splits)

lemma inv_del: "inv s \<Longrightarrow> kv (rdb s') = (kv (rdb s))(k := None) \<Longrightarrow> inv s'"
  by (auto simp: redis_inv_def split: if_splits)

lemma inv_key: "inv s \<Longrightarrow> kv (rdb s) k = Some v \<Longrightarrow> hasPrefix k portKeyPrefix \<Longrightarrow>
    \<exists>p m. k = portKey p \<and> portFromKey k = Inr p \<and> p \<noteq> 0 \<and> p \<le> maximumPublicPort \<and>
      unmarshal v = Some m \<and> view s p = Some m"
  by (fastforce simp: redis_inv_def redis_view_def portFromKey_portKey)

lemma portKey_prefix [simp]: "hasPrefix (portKey p) portKeyPrefix"
  by (simp add: portKey_def)

lemma view_None: "inv s \<Longrightarrow> view s p = None \<longleftrightarrow> kv (rdb s) (portKey p) = None"
  using inv_key [of s "portKey p"]
  by (cases "kv (rdb s) (portKey p)") (auto simp: redis_view_def)

lemma view_port: "inv s \<Longrightarrow> view s p = Some m \<Longrightarrow> p \<noteq> 0 \<and> p \<le> maximumPublicPort"
  using inv_key [of s "portKey p"] by (auto simp: redis_view_def bind_eq_Some_conv portKey_inject)

lemma stored: "\<exists>v. marshal m = Some v \<and> unmarshal v = Some (redis_stored marshal unmarshal m)"
  using codec [of m] by (auto simp: redis_stored_def)

lemma decodeBatch_post:
  assumes "inv s" "\<forall>k \<in> set keys. hasPrefix k portKeyPrefix \<and> kv (rdb s) k \<noteq> None"
    and "decodeBatch unmarshal (map (\<lambda>k. (k, kv (rdb s) k)) keys) acc = Inr acc'" "mwf acc"
  shows "mwf acc' \<and> mget acc' = (\<lambda>p. if portKey p \<in> set keys then view s p else mget acc p)"
  using assms(2-4)
proof (induction keys arbitrary: acc)
  case Nil
  then show ?case by simp
next
  case (Cons k keys)
  then obtain v where v: "kv (rdb s) k = Some v" by auto
  from inv_key [OF assms(1) v] Cons.prems(1) obtain p m where
    p: "k = portKey p" "portFromKey k = Inr p" "unmarshal v = Some m" "view s p = Some m" by auto
  with Cons.prems v have "decodeBatch unmarshal (map (\<lambda>k. (k, kv (rdb s) k)) keys) (mput p m acc) = Inr acc'"
    by (simp add: decodePortMapping_def)
  with Cons p show ?case
    by (auto simp: gomap_simps gomap_wf portKey_inject fun_eq_iff)
qed

lemma desiredLoop_post:
  assumes "inv s" "\<forall>k \<in> set keys. hasPrefix k portKeyPrefix \<and> kv (rdb s) k \<noteq> None"
    and "desiredLoop R unmarshal keys acc r = (res, r')" "kv r = kv (rdb s)" "mwf acc"
  shows "kv r' = kv (rdb s) \<and> (\<forall>ms. res = Inr ms \<longrightarrow> mwf ms \<and>
           mget ms = (\<lambda>p. if portKey p \<in> set keys then view s p else mget acc p))"
  using assms(2-5)
proof (induction keys arbitrary: acc r rule: length_induct)
  case (1 keys)
  let ?b = "take portScanBatchSize keys" and ?rest = "drop portScanBatchSize keys"
  show ?case
  proof (cases "keys = []")
    case True
    with "1.prems" show ?thesis by (auto simp: desiredLoop.simps)
  next
    case False
    obtain x r1 where x: "rMGet R ?b r = (x, r1)" by fastforce
    have k1: "kv r1 = kv (rdb s)" using mget_kv [OF x] "1.prems"(3) by simp
    show ?thesis
    proof (cases x)
      case (Inl u)
      with False x k1 "1.prems"(2) show ?thesis by (auto simp: desiredLoop.simps [of R unmarshal keys])
    next
      case (Inr vals)
      have "vals = map (kv (rdb s)) ?b"
        using mget_ok [OF x [unfolded Inr]] "1.prems"(3) by simp
      then have z: "zip ?b vals = map (\<lambda>k. (k, kv (rdb s) k)) ?b"
        by (simp only: zip_map_self)
      show ?thesis
      proof (cases "decodeBatch unmarshal (zip ?b vals) acc")
        case (Inl e)
        with False x Inr k1 "1.prems"(2) show ?thesis
          by (auto simp: desiredLoop.simps [of R unmarshal keys])
      next
        case (Inr acc')
        have "\<forall>k \<in> set ?b. hasPrefix k portKeyPrefix \<and> kv (rdb s) k \<noteq> None"
          using "1.prems"(1) by (meson in_set_takeD)
        from decodeBatch_post [OF assms(1) this Inr [unfolded z] "1.prems"(4)]
        have b: "mwf acc'" "mget acc' = (\<lambda>p. if portKey p \<in> set ?b then view s p else mget acc p)"
          by auto
        have rec: "desiredLoop R unmarshal ?rest acc' r1 = (res, r')"
          using "1.prems"(2) False x \<open>x = Inr vals\<close> Inr
          by (simp add: desiredLoop.simps [of R unmarshal keys])
        have "length ?rest < length keys" using False by (simp add: portScanBatchSize_def)
        moreover have "\<forall>k \<in> set ?rest. hasPrefix k portKeyPrefix \<and> kv (rdb s) k \<noteq> None"
          using "1.prems"(1) by (meson in_set_dropD)
        ultimately have "kv r' = kv (rdb s) \<and> (\<forall>ms. res = Inr ms \<longrightarrow> mwf ms \<and>
            mget ms = (\<lambda>p. if portKey p \<in> set ?rest then view s p else mget acc' p))"
          using "1.IH" rec k1 b(1) by blast
        moreover have "set keys = set ?b \<union> set ?rest" by (metis append_take_drop_id set_append)
        ultimately show ?thesis unfolding b(2) by (auto simp: fun_eq_iff)
      qed
    qed
  qed
qed

lemma releaseLoop_post:
  assumes "inv s" "\<forall>k \<in> set keys. hasPrefix k portKeyPrefix"
    and "releaseLoop R unmarshal a keys ports s = (res, s')"
  shows "inv s' \<and> (\<exists>D. D \<subseteq> sel a s \<and> view s' = (\<lambda>p. if p \<in> D then None else view s p) \<and>
           (\<forall>ps. res = Inr ps \<longrightarrow> set ps = set ports \<union> D \<and>
              {p \<in> sel a s. portKey p \<in> set keys} \<subseteq> D))"
  using assms
proof (induction keys arbitrary: s ports)
  case Nil
  then show ?case by (auto intro!: exI [of _ "{}"])
next
  case (Cons k keys)
  obtain x r where x: "rGet R k (rdb s) = (x, r)" by fastforce
  let ?s1 = "s\<lparr>rdb := r\<rparr>"
  have k1: "kv (rdb ?s1) = kv (rdb s)" using get_kv [OF x] by simp
  note inv1 = inv_cong [OF k1] and view1 = view_cong [OF k1]
  have skip: ?case if "releaseLoop R unmarshal a keys ports ?s1 = (res, s')"
      "\<And>p. p \<in> sel a s \<Longrightarrow> portKey p \<noteq> k"
  proof -
    have "inv ?s1" "\<forall>k \<in> set keys. hasPrefix k portKeyPrefix"
      using Cons.prems(1,2) inv1 by simp_all
    from Cons.IH [OF this that(1), unfolded view1] obtain D where
      D: "inv s'" "D \<subseteq> sel a s" "view s' = (\<lambda>p. if p \<in> D then None else view s p)"
        "\<forall>ps. res = Inr ps \<longrightarrow> set ps = set ports \<union> D \<and> {p \<in> sel a s. portKey p \<in> set keys} \<subseteq> D"
      by blast
    moreover have "{p \<in> sel a s. portKey p \<in> set (k # keys)} = {p \<in> sel a s. portKey p \<in> set keys}"
      using that(2) by auto
    ultimately show ?thesis by (intro conjI exI [of _ D]) simp_all
  qed
  have stop: ?case if "res = Inl e" "s' = ?s1" for e
    using that Cons.prems(1) inv1 view1 by (auto intro!: exI [of _ "{}"])
  show ?case
  proof (cases x)
    case (Inl u)
    have "releaseLoop R unmarshal a (k # keys) ports s = (Inl ErrRedis, ?s1)"
      by (simp add: x Inl)
    with Cons.prems(3) show ?thesis by (intro stop [of ErrRedis]) simp_all
  next
    case (Inr o1)
    with get_ok x have o1: "o1 = kv (rdb s) k" by blast
    show ?thesis
    proof (cases o1)
      case None
      with Cons.prems x Inr o1 show ?thesis
        by (intro skip) (auto simp: redis_view_def)
    next
      case (Some v)
      with o1 inv_key [OF Cons.prems(1), of k v] Cons.prems(2) obtain p m where
        p: "k = portKey p" "portFromKey k = Inr p" "unmarshal v = Some m" "view s p = Some m" by auto
      show ?thesis
      proof (cases "AgentID m = a")
        case False
        with Cons.prems x Inr Some p show ?thesis
          by (intro skip) (auto simp: decodePortMapping_def portKey_inject)
      next
        case True
        obtain y r' where y: "rDel R k r = (y, r')" by fastforce
        let ?s2 = "s\<lparr>rdb := r'\<rparr>"
        show ?thesis
        proof (cases y)
          case (Inl u)
          with Cons.prems x Inr Some p True y have "res = Inl ErrRedis" "s' = ?s2"
            by (auto simp: decodePortMapping_def)
          moreover have "kv (rdb ?s2) = kv (rdb s) \<or> kv (rdb ?s2) = (kv (rdb s))(portKey p := None)"
            using del_err [OF y [unfolded Inl]] k1 p(1) by simp
          then have "inv ?s2 \<and> (view ?s2 = view s \<or> view ?s2 = (view s)(p := None))"
            using Cons.prems(1) by (metis inv_cong inv_del view_cong view_del)
          then obtain D where "inv ?s2" "D \<subseteq> {p}" "view ?s2 = (\<lambda>q. if q \<in> D then None else view s q)"
          proof (elim conjE disjE)
            assume "view ?s2 = view s" "inv ?s2"
            then show thesis by (intro that [of "{}"]) auto
          next
            assume "view ?s2 = (view s)(p := None)" "inv ?s2"
            then show thesis by (intro that [of "{p}"]) auto
          qed
          moreover have "{p} \<subseteq> sel a s" using p(4) True by simp
          ultimately show ?thesis by (intro conjI exI [of _ D]) auto
        next
          case (Inr n)
          have "kv (rdb s) (portKey p) = Some v" using o1 Some p(1) by simp
          with del_ok [OF y [unfolded Inr]] k1 p(1)
          have n: "n \<noteq> 0" "kv (rdb ?s2) = (kv (rdb s))(portKey p := None)" by auto
          let ?s3 = "redis_changed R ?s2"
          have s3: "inv ?s3" "view ?s3 = (view s)(p := None)"
            using n(2) Cons.prems(1) by (auto intro: inv_del view_del)
          have "releaseLoop R unmarshal a keys (ports @ [p]) ?s3 = (res, s')"
            using Cons.prems(3) x \<open>x = Inr o1\<close> Some p True y Inr n(1)
            by (simp add: decodePortMapping_def)
          from Cons.IH [OF s3(1) _ this] Cons.prems(2) obtain D where
            D: "inv s'" "D \<subseteq> sel a ?s3" "view s' = (\<lambda>q. if q \<in> D then None else view ?s3 q)"
              "\<forall>ps. res = Inr ps \<longrightarrow> set ps = set (ports @ [p]) \<union> D \<and>
                 {q \<in> sel a ?s3. portKey q \<in> set keys} \<subseteq> D"
            by auto
          then show ?thesis
            using p(1,4) True unfolding s3(2)
            by (intro conjI exI [of _ "insert p D"]) (auto simp: fun_eq_iff portKey_inject split: if_splits)
        qed
      qed
    qed
  qed
qed

text \<open>The laws of the contract that take more than unfolding, one lemma each.\<close>

lemma allocate_cases:
  assumes "inv s" "redis_allocate R marshal from to m s = (res, s')"
  obtains (same) e where "res = Inl e" "kv (rdb s') = kv (rdb s)" "e \<noteq> ErrPortRangeExhausted"
  | (post) v where "marshal m = Some v" "unmarshal v = Some (redis_stored marshal unmarshal m)"
      "validatePortRange from to = None"
      "alloc_post (kv (rdb s)) v (portsFromTo from to)
         (if res = Inl ErrPortRangeExhausted then None else Some res) (kv (rdb s'))"
proof (cases "validatePortRange from to")
  case (Some e)
  with assms(2) show ?thesis
    by (intro same [of e]) (auto simp: redis_allocate_def validatePortRange_def split: if_splits)
next
  case None
  obtain v where v: "marshal m = Some v" "unmarshal v = Some (redis_stored marshal unmarshal m)"
    using stored by blast
  from None have r: "from \<le> to" "to \<le> maximumPublicPort" by (simp_all add: validatePortRange_None)
  have "redisAllocLoop R v from to s = (res, s')"
    using assms(2) None v(1) by (simp add: redis_allocate_def)
  from allocLoop_post [OF this r] v None show ?thesis by (intro post)
qed

lemma allocate_found:
  assumes "inv s" "redis_allocate R marshal from to m s = (Inr p, s')"
  shows "from \<le> p \<and> p \<le> to \<and> p \<noteq> 0 \<and> p \<le> maximumPublicPort \<and> view s p = None \<and>
         (\<forall>q. from \<le> q \<and> q < p \<longrightarrow> view s q \<noteq> None) \<and>
         view s' = (view s)(p \<mapsto> redis_stored marshal unmarshal m) \<and> inv s'"
  using assms
proof (cases rule: allocate_cases)
  case (same e)
  then show ?thesis by simp
next
  case (post v)
  then obtain as bs where ab: "portsFromTo from to = as @ p # bs"
      "\<forall>q \<in> set as. kv (rdb s) (portKey q) \<noteq> None" "kv (rdb s) (portKey p) = None"
      "kv (rdb s') = (kv (rdb s))(portKey p \<mapsto> v)"
    by (auto simp: alloc_post_def)
  have "p \<in> {from..to}" using ab(1) set_portsFromTo [of "from" to] by force
  moreover have "from \<noteq> 0" "to \<le> maximumPublicPort"
    using post(3) by (simp_all add: validatePortRange_None)
  ultimately have p: "from \<le> p" "p \<le> to" "p \<noteq> 0" "p \<le> maximumPublicPort"
    by (auto simp: word_le_nat_alt unat_eq_zero)
  have "view s q \<noteq> None" if "from \<le> q" "q < p" for q
    using portsFromTo_before [OF ab(1) that] ab(2) view_None [OF assms(1)] by blast
  moreover have "view s' = (view s)(p \<mapsto> redis_stored marshal unmarshal m)"
    by (rule view_put [OF ab(4) post(2)])
  moreover have "inv s'" using post(2) p by (intro inv_put [OF assms(1) ab(4)]) simp_all
  ultimately show ?thesis using p ab(3) view_None [OF assms(1)] by simp
qed

lemma allocate_full:
  assumes "inv s" "redis_allocate R marshal from to m s = (Inl ErrPortRangeExhausted, s')"
  shows "(\<forall>q. from \<le> q \<and> q \<le> to \<longrightarrow> view s q \<noteq> None) \<and> view s' = view s \<and> inv s'"
  using assms
proof (cases rule: allocate_cases)
  case (post v)
  then have "kv (rdb s') = kv (rdb s)" "\<forall>q \<in> {from..to}. kv (rdb s) (portKey q) \<noteq> None"
    by (simp_all add: alloc_post_def set_portsFromTo)
  with assms(1) view_None show ?thesis by (metis atLeastAtMost_iff inv_cong view_cong)
qed simp

lemma allocate_failed:
  assumes "inv s" "redis_allocate R marshal from to m s = (Inl e, s')"
  shows "(view s' = view s \<or> (\<exists>p. from \<le> p \<and> p \<le> to \<and> view s p = None \<and>
            view s' = (view s)(p \<mapsto> redis_stored marshal unmarshal m))) \<and> inv s'"
  using assms
proof (cases rule: allocate_cases)
  case (same e')
  with assms(1) show ?thesis by (metis inv_cong view_cong)
next
  case (post v)
  show ?thesis
  proof (cases "kv (rdb s') = kv (rdb s)")
    case True
    with assms(1) show ?thesis by (metis inv_cong view_cong)
  next
    case False
    with post(4) obtain p where p: "p \<in> {from..to}" "kv (rdb s) (portKey p) = None"
        "kv (rdb s') = (kv (rdb s))(portKey p \<mapsto> v)"
      by (auto simp: alloc_post_def set_portsFromTo split: if_splits)
    moreover have "p \<noteq> 0" "p \<le> maximumPublicPort"
      using p(1) post(3) by (auto simp: validatePortRange_None word_le_nat_alt unat_eq_zero)
    ultimately have "inv s'" using post(2) by (intro inv_put [OF assms(1) p(3)]) simp_all
    with p view_put [OF p(3) post(2)] view_None [OF assms(1)] show ?thesis by auto
  qed
qed

lemma keys_found:
  assumes "redis_keys R budget r = (Inr keys, r')"
  shows "set keys = {k. kv r k \<noteq> None \<and> hasPrefix k portKeyPrefix}" and "kv r' = kv r"
  using assms scan_full scanLoop_kv unfolding redis_keys_def by blast+

lemma desired_post:
  assumes "inv s" "redis_desired R unmarshal budget s = (res, s')"
  shows "kv (rdb s') = kv (rdb s) \<and> (\<forall>ms. res = Inr ms \<longrightarrow> mwf ms \<and> mget ms = view s)"
proof -
  obtain x r where x: "redis_keys R budget (rdb s) = (x, r)" by fastforce
  show ?thesis
  proof (cases x)
    case (Inl u)
    with assms(2) x scanLoop_kv show ?thesis by (auto simp: redis_desired_def redis_keys_def)
  next
    case (Inr keys)
    note k = keys_found [OF x [unfolded Inr]]
    obtain r' where r': "desiredLoop R unmarshal keys [] r = (res, r')" "s' = s\<lparr>rdb := r'\<rparr>"
      using assms(2) x Inr by (auto simp: redis_desired_def split: prod.splits)
    have "\<forall>k \<in> set keys. hasPrefix k portKeyPrefix \<and> kv (rdb s) k \<noteq> None" using k(1) by simp
    from desiredLoop_post [OF assms(1) this r'(1) k(2)]
    have "kv r' = kv (rdb s)" and ms: "\<forall>ms. res = Inr ms \<longrightarrow> mwf ms \<and>
        mget ms = (\<lambda>p. if portKey p \<in> set keys then view s p else None)"
      by (simp_all cong: if_cong)
    moreover have "view s p = None" if "portKey p \<notin> set keys" for p
      using that view_None [OF assms(1), of p] unfolding k(1) by simp
    then have "(\<lambda>p. if portKey p \<in> set keys then view s p else None) = view s" by auto
    ultimately show ?thesis using r'(2) by simp
  qed
qed

lemma releaseByAgent_post:
  assumes "inv s" "redis_releaseByAgent R unmarshal budget a s = (res, s')"
  shows "inv s' \<and> (\<exists>D. D \<subseteq> sel a s \<and> view s' = (\<lambda>p. if p \<in> D then None else view s p) \<and>
           (\<forall>ps. res = Inr ps \<longrightarrow> set ps = D \<and> D = sel a s))"
proof -
  obtain x r where x: "redis_keys R budget (rdb s) = (x, r)" by fastforce
  let ?s1 = "s\<lparr>rdb := r\<rparr>"
  have k: "kv (rdb ?s1) = kv (rdb s)" using scanLoop_kv x by (simp add: redis_keys_def)
  note inv1 = inv_cong [OF k] and view1 = view_cong [OF k]
  show ?thesis
  proof (cases x)
    case (Inl u)
    with assms x have "res = Inl ErrRedis" "s' = ?s1" by (simp_all add: redis_releaseByAgent_def)
    with inv1 view1 assms(1) show ?thesis by (intro conjI exI [of _ "{}"]) simp_all
  next
    case (Inr keys)
    have ks: "set keys = {k. kv (rdb s) k \<noteq> None \<and> hasPrefix k portKeyPrefix}"
      using keys_found(1) x Inr by blast
    have "releaseLoop R unmarshal a keys [] ?s1 = (res, s')"
      using assms(2) x Inr by (simp add: redis_releaseByAgent_def)
    moreover have "inv ?s1" "\<forall>k \<in> set keys. hasPrefix k portKeyPrefix"
      using assms(1) inv1 ks by simp_all
    ultimately obtain D where D: "inv s'" "D \<subseteq> sel a s"
        "view s' = (\<lambda>p. if p \<in> D then None else view s p)"
        "\<forall>ps. res = Inr ps \<longrightarrow> set ps = D \<and> {p \<in> sel a s. portKey p \<in> set keys} \<subseteq> D"
      using releaseLoop_post [of ?s1 keys a "[]" res s'] unfolding view1 by auto
    moreover have "{p \<in> sel a s. portKey p \<in> set keys} = sel a s"
      using view_None [OF assms(1)] ks by force
    ultimately show ?thesis by (intro conjI exI [of _ D]) auto
  qed
qed

end

context redis_ports
begin

lemma release_post:
  assumes "inv s" "redis_release R p s = (res, s')"
  shows "inv s' \<and> (view s' = (view s)(p := None) \<or> res = Inl ErrRedis \<and> view s' = view s) \<and>
         (\<forall>e. res = Inl e \<longrightarrow> e = ErrRedis)"
proof -
  obtain x r where x: "rDel R (portKey p) (rdb s) = (x, r)" by fastforce
  with assms(2) have s': "kv (rdb s') = kv r"
    by (cases x) (auto simp: redis_release_def split: if_splits)
  from x have "kv r = (kv (rdb s))(portKey p := None) \<or> (x = Inl () \<and> kv r = kv (rdb s))"
    by (cases x) (auto dest: del_ok del_err)
  then have "inv s' \<and> (view s' = (view s)(p := None) \<or> x = Inl () \<and> view s' = view s)"
    using assms(1) s' by (metis inv_cong inv_del view_cong view_del)
  moreover have "(x = Inl () \<longrightarrow> res = Inl ErrRedis) \<and> (\<forall>e. res = Inl e \<longrightarrow> e = ErrRedis)"
    using assms(2) x by (cases x) (auto simp: redis_release_def)
  ultimately show ?thesis by blast
qed

lemma lookup_post:
  assumes "inv s" "redis_lookup R unmarshal p s = (res, s')"
  shows "inv s' \<and> view s' = view s \<and> (\<forall>m. res = Inr m \<longrightarrow> view s p = Some m) \<and>
         (res = Inl ErrPortNotFound \<longrightarrow> view s p = None)"
proof -
  obtain x r where x: "rGet R (portKey p) (rdb s) = (x, r)" by fastforce
  with assms(2) have "kv (rdb s') = kv (rdb s)"
    by (cases x) (auto simp: redis_lookup_def split: option.splits dest: get_kv)
  with assms(1) have "inv s' \<and> view s' = view s" by (metis inv_cong view_cong)
  moreover have "o1 = kv (rdb s) (portKey p)" if "x = Inr o1" for o1
    using that x get_ok by blast
  ultimately show ?thesis
    using assms(2) x unfolding redis_view_def
    by (cases x) (auto simp: redis_lookup_def decodePortMapping_def split: option.splits)
qed

lemma update_post:
  assumes "inv s" "redis_update R marshal p m s = (res, s')"
  shows "inv s' \<and>
         (view s p \<noteq> None \<and> view s' = (view s)(p \<mapsto> redis_stored marshal unmarshal m) \<or>
          res \<noteq> Inr () \<and> view s' = view s) \<and>
         (res = Inl ErrPortNotFound \<longrightarrow> view s p = None)"
proof -
  obtain v where v: "marshal m = Some v" "unmarshal v = Some (redis_stored marshal unmarshal m)"
    using stored by blast
  obtain x r where x: "rSetXX R (portKey p) v (rdb s) = (x, r)" by fastforce
  have res: "kv (rdb s') = kv r" "res = Inr () \<longleftrightarrow> x = Inr True" "res = Inl ErrPortNotFound \<longleftrightarrow> x = Inr False"
    using assms(2) v(1) x by (auto simp: redis_update_def split: sum.splits bool.splits)
  have put: "inv s' \<and> view s' = (view s)(p \<mapsto> redis_stored marshal unmarshal m) \<and> view s p \<noteq> None"
    if "kv r = (kv (rdb s))(portKey p \<mapsto> v)" "kv (rdb s) (portKey p) \<noteq> None"
  proof -
    have kv': "kv (rdb s') = (kv (rdb s))(portKey p \<mapsto> v)" using that(1) res(1) by simp
    have "view s p \<noteq> None" using that(2) by (simp add: view_None [OF assms(1)])
    moreover from this have "p \<noteq> 0" "p \<le> maximumPublicPort" using view_port [OF assms(1)] by auto
    ultimately show ?thesis
      using v(2) inv_put [OF assms(1) kv'] view_put [OF kv' v(2)] by simp
  qed
  have keep: "inv s' \<and> view s' = view s" if "kv r = kv (rdb s)"
    using that res(1) assms(1) by (metis inv_cong view_cong)
  show ?thesis
  proof (cases x)
    case (Inl u)
    with setxx_err [of "portKey p" v "rdb s" u r] x put keep res show ?thesis by auto
  next
    case (Inr b)
    with setxx_ok [of "portKey p" v "rdb s" b r] x put keep res view_None [OF assms(1), of p]
    show ?thesis by (cases b) auto
  qed
qed

end

sublocale redis_ports \<subseteq> contract: port_store "redisPortStoreOps R marshal unmarshal budget"
    "redis_view kv unmarshal" "redis_inv kv unmarshal" "redis_stored marshal unmarshal"
proof (unfold_locales, unfold redisPortStoreOps_def portStore.select_convs, goal_cases)
  case (1 s "from" to m r s')
  then show ?case by (cases r) (auto dest: allocate_failed allocate_found)
next
  case (2 s p r1 s')
  then show ?case by (blast dest: release_post)
next
  case (3 s p r2 s')
  then show ?case by (blast dest: lookup_post)
next
  case (4 s p m r1 s')
  then show ?case by (blast dest: update_post)
next
  case (5 s r3 s')
  with desired_post [OF 5] inv_cong [of s' s] show ?case by simp
next
  case (6 s a r4 s')
  then show ?case by (blast dest: releaseByAgent_post)
next
  case (7 s "from" to m p s')
  then show ?case using allocate_found [OF 7] by simp
next
  case (8 s "from" to m s')
  then show ?case using allocate_full [OF 8] by simp
next
  case (9 s "from" to m e s')
  then show ?case using allocate_failed [OF 9] by simp
next
  case (10 s p u s')
  then show ?case by (blast dest: release_post)
next
  case (11 s p e s')
  then show ?case by (auto dest: release_post)
next
  case (12 s p r2 s')
  then show ?case by (blast dest: lookup_post)
next
  case (13 s p m s')
  then show ?case by (blast dest: lookup_post)
next
  case (14 s p s')
  then show ?case by (blast dest: lookup_post)
next
  case (15 s p m u s')
  then show ?case by (auto dest: update_post)
next
  case (16 s p m s')
  then show ?case by (blast dest: update_post)
next
  case (17 s p m e s')
  then show ?case by (blast dest: update_post)
next
  case (18 s r3 s')
  with desired_post [OF 18] view_cong [of s' s] show ?case by simp
next
  case (19 s ms s')
  then show ?case by (blast dest: desired_post)
next
  case (20 s a ps s')
  then show ?case using releaseByAgent_post [OF 20] by auto
next
  case (21 s a e s')
  then show ?case using releaseByAgent_post [OF 21] by auto
qed

context redis_ports
begin

lemmas ports_contract = contract.port_store_axioms

end

section \<open>The contract on a concrete Redis\<close>

text \<open>A codec for the small Redis: each field escaped byte by byte and ended by a full stop.\<close>

fun escField :: "string \<Rightarrow> string" where
  "escField [] = ''.''"
| "escField (c # cs) = CHR ''-'' # c # escField cs"

fun unescField :: "string \<Rightarrow> (string \<times> string) option" where
  "unescField (CHR ''.'' # rest) = Some ([], rest)"
| "unescField (CHR ''-'' # c # rest) =
     (case unescField rest of None \<Rightarrow> None | Some (f, rest') \<Rightarrow> Some (c # f, rest'))"
| "unescField _ = None"

definition miniMarshal :: marshal where
  "miniMarshal m = Some (escField (AgentID m) @ escField (Target m) @ escField (ContainerID m) @
     (if Suspended m then ''1'' else ''0''))"

definition miniUnmarshal :: unmarshal where
  "miniUnmarshal v =
     (case unescField v of
        None \<Rightarrow> None
      | Some (a, v1) \<Rightarrow>
          (case unescField v1 of
             None \<Rightarrow> None
           | Some (t, v2) \<Rightarrow>
               (case unescField v2 of
                  None \<Rightarrow> None
                | Some (c, v3) \<Rightarrow> Some (portMapping.make a t c (v3 = ''1'')))))"

lemma unescField_escField [simp]: "unescField (escField f @ rest) = Some (f, rest)"
  by (induction f) auto

lemma mini_codec: "miniUnmarshal (the (miniMarshal m)) = Some m"
  by (cases m) (auto simp: miniMarshal_def miniUnmarshal_def portMapping.make_def)

interpretation miniPorts: redis_ports miniRedisClient "\<lambda>r. mget (mini_store r)" miniMarshal miniUnmarshal budget
  for budget
  by unfold_locales (metis mini_codec miniMarshal_def option.sel)

section \<open>Properties\<close>



end
