(* ===== verification/Bindings.thy ===== *)
theory Bindings
  imports Ports Redis
begin

text \<open>
  The activation barrier of \<^verbatim>\<open>pkg/controller/bindings.go\<close>: each controller pod reports the ports it
  has bound as expiring keys, and \<^verbatim>\<open>states\<close> folds the reports into a state per port. The Redis
  client is the parameter \<open>R\<close> of \<open>Redis\<close>; the tracker of a single replica has none.
\<close>

section \<open>The tracker\<close>

datatype portState = Pending | Active | SuspendedState

definition boundKeyPrefix :: string where
  "boundKeyPrefix = ''hostlink:bound:''"

definition controllerKeyPrefix :: string where
  "controllerKeyPrefix = ''hostlink:controller:''"

text \<open>Times to live in seconds.\<close>

definition boundTTL :: nat where
  "boundTTL = 30"

definition controllerTTL :: nat where
  "controllerTTL = 45"

definition boundKey :: "uint32 \<Rightarrow> string \<Rightarrow> string" where
  "boundKey port podAddr = boundKeyPrefix @ formatUint (unat port) @ '':'' @ podAddr"

text \<open>
  \<^verbatim>\<open>reportBound\<close>: the liveness key and a key per bound port, in one pipeline. The commands of a
  pipeline fail or succeed one by one, and the failures are only logged.
\<close>

definition reportBound :: "'r redisClient \<Rightarrow> string \<Rightarrow> uint32 list \<Rightarrow> 'r \<Rightarrow> 'r" where
  "reportBound R selfAddr ports r =
     fold (\<lambda>port r. snd (rSet R (boundKey port selfAddr) ''1'' boundTTL r)) ports
       (snd (rSet R (controllerKeyPrefix @ selfAddr) ''1'' controllerTTL r))"

definition livePods :: "'r redisClient \<Rightarrow> nat \<Rightarrow> 'r \<Rightarrow> (unit + string list) \<times> 'r" where
  "livePods R budget r =
     (case scanLoop R controllerKeyPrefix portScanBatchSize budget 0 [] r of
        (Inl e, r') \<Rightarrow> (Inl e, r')
      | (Inr keys, r') \<Rightarrow> (Inr (map (\<lambda>key. trimPrefix key controllerKeyPrefix) keys), r'))"

function boundSetLoop :: "'r redisClient \<Rightarrow> string list \<Rightarrow> (string, bool) gomap \<Rightarrow> 'r \<Rightarrow>
    (unit + (string, bool) gomap) \<times> 'r" where
  "boundSetLoop R keys bound r =
     (if keys = [] then (Inr bound, r)
      else (case rMGet R (take portScanBatchSize keys) r of
        (Inl e, r') \<Rightarrow> (Inl e, r')
      | (Inr values, r') \<Rightarrow>
          boundSetLoop R (drop portScanBatchSize keys)
            (fold (\<lambda>(key, value). mput key (value \<noteq> None)) (zip (take portScanBatchSize keys) values) bound) r'))"
  by pat_completeness auto
termination
  by (relation "measure (\<lambda>(R, keys, bound, r). length keys)") (auto simp: portScanBatchSize_def)

declare boundSetLoop.simps [simp del]

definition boundSet :: "'r redisClient \<Rightarrow> uint32 list \<Rightarrow> string list \<Rightarrow> 'r \<Rightarrow>
    (unit + (string, bool) gomap) \<times> 'r" where
  "boundSet R ports pods r = boundSetLoop R (concat (map (\<lambda>port. map (boundKey port) pods) ports)) [] r"

definition resolveLocalStates :: "uint32 list \<Rightarrow> uint32 list \<Rightarrow> (uint32, portState) gomap \<Rightarrow>
    (uint32, portState) gomap" where
  "resolveLocalStates local undecided result =
     fold (\<lambda>port result. if port \<in> set local then mput port Active result else result) undecided result"

definition resolveRedisStates :: "'r redisClient \<Rightarrow> nat \<Rightarrow> uint32 list \<Rightarrow> (uint32, portState) gomap \<Rightarrow>
    'r \<Rightarrow> (unit + (uint32, portState) gomap) \<times> 'r" where
  "resolveRedisStates R budget undecided result r =
     (case livePods R budget r of
        (Inl e, r1) \<Rightarrow> (Inl e, r1)
      | (Inr pods, r1) \<Rightarrow>
          if pods = [] then (Inr result, r1)
          else (case boundSet R undecided pods r1 of
            (Inl e, r2) \<Rightarrow> (Inl e, r2)
          | (Inr bound, r2) \<Rightarrow>
              (Inr (fold (\<lambda>port result.
                  if list_all (\<lambda>pod. mget bound (boundKey port pod) = Some True) pods
                  then mput port Active result else result) undecided result), r2)))"

text \<open>The tracker: \<open>None\<close> is the nil tracker, \<open>Some None\<close> one without Redis.\<close>

fun classify :: "(uint32, portMapping) gomap \<Rightarrow> (uint32, portState) gomap \<times> uint32 list" where
  "classify [] = ([], [])"
| "classify ((port, mapping) # rest) =
     (case classify rest of (result, undecided) \<Rightarrow>
        if Suspended mapping then ((port, SuspendedState) # result, undecided)
        else ((port, Pending) # result, port # undecided))"

definition states :: "'r redisClient option option \<Rightarrow> nat \<Rightarrow> uint32 list \<Rightarrow> (uint32, portMapping) gomap \<Rightarrow>
    'r \<Rightarrow> (unit + (uint32, portState) gomap) \<times> 'r" where
  "states tracker budget local ms r =
     (case classify ms of (result, undecided) \<Rightarrow>
        if tracker = None \<or> undecided = [] then (Inr result, r)
        else (case the tracker of
          None \<Rightarrow> (Inr (resolveLocalStates local undecided result), r)
        | Some R \<Rightarrow> resolveRedisStates R budget undecided result r))"

section \<open>Lemmas\<close>

lemma colon_not_in_format: "CHR '':'' \<notin> set (formatUint n)"
  using formatUint_digits [of "CHR '':''" n] by (auto simp: isDigit_def)

lemma append_sep_inject:
  "c \<notin> set xs \<Longrightarrow> c \<notin> set xs' \<Longrightarrow> xs @ c # ys = xs' @ c # ys' \<longleftrightarrow> xs = xs' \<and> ys = ys'"
proof (induction xs arbitrary: xs')
  case Nil
  then show ?case by (cases xs') auto
next
  case (Cons x xs)
  then show ?case by (cases xs') auto
qed

lemma boundKey_inject: "boundKey p a = boundKey q b \<longleftrightarrow> p = q \<and> a = b"
  by (auto simp: boundKey_def append_sep_inject colon_not_in_format word_unat_eq_iff
      dest: formatUint_inject)

lemma classify_result:
  assumes "classify ms = (result, undecided)" "mwf ms"
  shows "mget result = (\<lambda>p. map_option (\<lambda>m. if Suspended m then SuspendedState else Pending) (mget ms p)) \<and>
         set undecided = {p. \<exists>m. mget ms p = Some m \<and> \<not> Suspended m}"
  using assms
proof (induction ms arbitrary: result undecided)
  case Nil
  then show ?case by auto
next
  case (Cons e ms)
  obtain port m where e: "e = (port, m)" by (cases e)
  obtain res und where c: "classify ms = (res, und)" by fastforce
  with Cons e have "mget res = (\<lambda>p. map_option (\<lambda>m. if Suspended m then SuspendedState else Pending) (mget ms p))"
      "set und = {p. \<exists>m. mget ms p = Some m \<and> \<not> Suspended m}" "mget ms port = None" by auto
  with Cons.prems(1) c e show ?case by (auto split: if_splits)
qed

lemma fold_mput_Active:
  "mget (fold (\<lambda>port result. if P port then mput port Active result else result) ports result) p =
     (if p \<in> set ports \<and> P p then Some Active else mget result p)"
  by (induction ports arbitrary: result) (auto simp: gomap_simps)

lemma fold_mput_zip:
  "mget (fold (\<lambda>(key, value). mput key (value \<noteq> None)) (map (\<lambda>k. (k, f k)) keys) bound) k =
     (if k \<in> set keys then Some (f k \<noteq> None) else mget bound k)"
  by (induction keys arbitrary: bound) (auto simp: gomap_simps)

context redis_client
begin

lemma boundSetLoop_post:
  "boundSetLoop R keys bound r = (x, r') \<Longrightarrow> kv r' = kv r \<and>
     (\<forall>b. x = Inr b \<longrightarrow> (\<forall>k. mget b k = (if k \<in> set keys then Some (kv r k \<noteq> None) else mget bound k)))"
proof (induction keys arbitrary: bound r rule: length_induct)
  case (1 keys)
  let ?b = "take portScanBatchSize keys" and ?rest = "drop portScanBatchSize keys"
  show ?case
  proof (cases "keys = []")
    case True
    with "1.prems" show ?thesis by (auto simp: boundSetLoop.simps)
  next
    case False
    obtain y r1 where y: "rMGet R ?b r = (y, r1)" by fastforce
    note k1 = mget_kv [OF y]
    show ?thesis
    proof (cases y)
      case (Inl e)
      with False y "1.prems" k1 show ?thesis by (auto simp: boundSetLoop.simps [of R keys])
    next
      case (Inr vals)
      let ?bound = "fold (\<lambda>(key, value). mput key (value \<noteq> None)) (zip ?b vals) bound"
      have z: "zip ?b vals = map (\<lambda>k. (k, kv r k)) ?b"
        using mget_ok [OF y [unfolded Inr]] by (simp only: zip_map_self)
      have rec: "boundSetLoop R ?rest ?bound r1 = (x, r')"
        using "1.prems" False y Inr by (simp add: boundSetLoop.simps [of R keys])
      have "length ?rest < length keys" using False by (simp add: portScanBatchSize_def)
      with "1.IH" rec have "kv r' = kv r1 \<and> (\<forall>b. x = Inr b \<longrightarrow>
          (\<forall>k. mget b k = (if k \<in> set ?rest then Some (kv r1 k \<noteq> None) else mget ?bound k)))" by blast
      moreover have "set keys = set ?b \<union> set ?rest" by (metis append_take_drop_id set_append)
      ultimately show ?thesis unfolding z k1 fold_mput_zip by auto
    qed
  qed
qed

lemma livePods_post:
  assumes "livePods R budget r = (x, r')"
  shows "kv r' = kv r \<and> (\<forall>pods. x = Inr pods \<longrightarrow> set pods = {a. kv r (controllerKeyPrefix @ a) \<noteq> None})"
proof -
  obtain y r1 where y: "scanLoop R controllerKeyPrefix portScanBatchSize budget 0 [] r = (y, r1)" by fastforce
  note k1 = scanLoop_kv [OF y]
  show ?thesis
  proof (cases y)
    case (Inl e)
    with assms y k1 show ?thesis by (auto simp: livePods_def)
  next
    case (Inr keys)
    have "set keys = {k. kv r k \<noteq> None \<and> hasPrefix k controllerKeyPrefix}"
      using scan_full [OF y [unfolded Inr]] .
    then have "set (map (\<lambda>key. trimPrefix key controllerKeyPrefix) keys) = {a. kv r (controllerKeyPrefix @ a) \<noteq> None}"
    proof -
      assume "set keys = {k. kv r k \<noteq> None \<and> hasPrefix k controllerKeyPrefix}"
      also have "\<dots> = (\<lambda>a. controllerKeyPrefix @ a) ` {a. kv r (controllerKeyPrefix @ a) \<noteq> None}"
        by (auto simp: hasPrefix_iff)
      finally show ?thesis by (simp add: image_image)
    qed
    with assms y Inr k1 show ?thesis by (auto simp: livePods_def)
  qed
qed

lemma resolveRedis_post:
  assumes "resolveRedisStates R budget undecided result r = (x, r')"
  shows "kv r' = kv r \<and> (\<forall>st. x = Inr st \<longrightarrow> mget st = (\<lambda>p.
      if p \<in> set undecided \<and> (\<exists>a. kv r (controllerKeyPrefix @ a) \<noteq> None) \<and>
         (\<forall>a. kv r (controllerKeyPrefix @ a) \<noteq> None \<longrightarrow> kv r (boundKey p a) \<noteq> None)
      then Some Active else mget result p))"
proof -
  obtain y r1 where y: "livePods R budget r = (y, r1)" by fastforce
  note l = livePods_post [OF y]
  show ?thesis
  proof (cases y)
    case (Inl e)
    with assms y l show ?thesis by (auto simp: resolveRedisStates_def)
  next
    case pods: (Inr pods)
    with l have set_pods: "set pods = {a. kv r (controllerKeyPrefix @ a) \<noteq> None}" by simp
    show ?thesis
    proof (cases "pods = []")
      case True
      with assms y pods l set_pods show ?thesis by (auto simp: resolveRedisStates_def)
    next
      case False
      obtain z r2 where z: "boundSet R undecided pods r1 = (z, r2)" by fastforce
      note b = boundSetLoop_post [OF z [unfolded boundSet_def]]
      show ?thesis
      proof (cases z)
        case (Inl e)
        with assms y pods False z l b show ?thesis by (auto simp: resolveRedisStates_def)
      next
        case (Inr bound)
        let ?ok = "\<lambda>port. list_all (\<lambda>pod. mget bound (boundKey port pod) = Some True) pods"
        let ?live = "\<lambda>a. kv r (controllerKeyPrefix @ a) \<noteq> None"
        from b Inr l have bound: "mget bound k = (if k \<in> (\<Union>p\<in>set undecided. boundKey p ` set pods)
            then Some (kv r k \<noteq> None) else None)" for k by simp
        have ok: "?ok p \<longleftrightarrow> (\<forall>a. ?live a \<longrightarrow> kv r (boundKey p a) \<noteq> None)" if "p \<in> set undecided" for p
        proof -
          have "mget bound (boundKey p a) = Some (kv r (boundKey p a) \<noteq> None)" if "a \<in> set pods" for a
            using that \<open>p \<in> set undecided\<close> by (auto simp: bound)
          then show ?thesis using set_pods by (auto simp: list_all_iff)
        qed
        obtain a where "a \<in> set pods" using False by (cases pods) auto
        then have ex: "\<exists>a. ?live a" using set_pods by blast
        have x: "x = Inr (fold (\<lambda>port result. if ?ok port then mput port Active result else result) undecided result)"
            "r' = r2"
          using assms y pods False z Inr by (simp_all add: resolveRedisStates_def)
        have "mget (fold (\<lambda>port result. if ?ok port then mput port Active result else result) undecided result) p =
            (if p \<in> set undecided \<and> (\<exists>a. ?live a) \<and> (\<forall>a. ?live a \<longrightarrow> kv r (boundKey p a) \<noteq> None)
             then Some Active else mget result p)" for p
          unfolding fold_mput_Active using ok [of p] ex by metis
        with x b l show ?thesis by (simp add: fun_eq_iff)
      qed
    qed
  qed
qed

end
context redis_client
begin

lemma set_only:
  "kv (snd (rSet R k v ttl r)) = kv r \<or> kv (snd (rSet R k v ttl r)) = (kv r)(k \<mapsto> v)"
  by (cases "rSet R k v ttl r"; cases "fst (rSet R k v ttl r)") (auto dest: set_ok set_err)

lemma report_fold:
  "k \<notin> key ` set ports \<Longrightarrow> kv (fold (\<lambda>port r. snd (rSet R (key port) v ttl r)) ports r) k = kv r k"
proof (induction ports arbitrary: r)
  case Nil
  show ?case by simp
next
  case (Cons p ports)
  then have "k \<notin> key ` set ports" "k \<noteq> key p" by auto
  with Cons.IH [of "snd (rSet R (key p) v ttl r)"] set_only [of "key p" v ttl r] show ?case by auto
qed

end

lemma states_by_barrier:
  assumes "redis_client R kv" "mwf ms" "states (Some (Some R)) budget local ms r = (Inr st, r')"
  shows "kv r' = kv r \<and>
         mget st = (\<lambda>p. map_option (\<lambda>m.
           if Suspended m then SuspendedState
           else if (\<exists>a. kv r (controllerKeyPrefix @ a) \<noteq> None) \<and>
                   (\<forall>a. kv r (controllerKeyPrefix @ a) \<noteq> None \<longrightarrow> kv r (boundKey p a) \<noteq> None)
           then Active else Pending) (mget ms p))"
proof -
  obtain result undecided where c: "classify ms = (result, undecided)" by fastforce
  note cl = classify_result [OF c assms(2)]
  show ?thesis
  proof (cases "undecided = []")
    case True
    with assms(3) c have "st = result" "r' = r" by (simp_all add: states_def)
    moreover have "Suspended m" if "mget ms p = Some m" for p m using cl True that by auto
    then have "map_option (\<lambda>m. if Suspended m then SuspendedState else x) (mget ms p) =
        map_option (\<lambda>m. if Suspended m then SuspendedState else y) (mget ms p)" for p x y
      by (cases "mget ms p") auto
    ultimately show ?thesis using cl by (simp add: fun_eq_iff)
  next
    case False
    with assms(3) c have "resolveRedisStates R budget undecided result r = (Inr st, r')"
      by (simp add: states_def)
    note post = redis_client.resolveRedis_post [OF assms(1) this]
    have "mget st p = map_option (\<lambda>m. if Suspended m then SuspendedState
        else if (\<exists>a. kv r (controllerKeyPrefix @ a) \<noteq> None) \<and>
                (\<forall>a. kv r (controllerKeyPrefix @ a) \<noteq> None \<longrightarrow> kv r (boundKey p a) \<noteq> None)
        then Active else Pending) (mget ms p)" for p
      using post cl by (cases "mget ms p") auto
    with post show ?thesis by (simp add: fun_eq_iff)
  qed
qed

lemma states_by_local:
  assumes "mwf ms"
  shows "\<exists>st. states (Some None) budget local ms r = (Inr st, r) \<and>
           mget st = (\<lambda>p. map_option (\<lambda>m. if Suspended m then SuspendedState
             else if p \<in> set local then Active else Pending) (mget ms p))"
proof -
  obtain result undecided where c: "classify ms = (result, undecided)" by fastforce
  note cl = classify_result [OF c assms]
  have "mget (resolveLocalStates local undecided result) =
      (\<lambda>p. map_option (\<lambda>m. if Suspended m then SuspendedState else if p \<in> set local then Active else Pending) (mget ms p))"
  proof
    fix p
    show "mget (resolveLocalStates local undecided result) p =
        map_option (\<lambda>m. if Suspended m then SuspendedState else if p \<in> set local then Active else Pending) (mget ms p)"
      using cl by (cases "mget ms p") (auto simp: resolveLocalStates_def fold_mput_Active)
  qed
  moreover have "resolveLocalStates local [] result = result" by (simp add: resolveLocalStates_def)
  ultimately show ?thesis using c by (cases "undecided = []") (auto simp: states_def)
qed

section \<open>Properties\<close>

text \<open>
  (C11) The activation barrier over Redis: when \<^verbatim>\<open>states\<close> answers, a suspended mapping is suspended, and
  any other port is active exactly when there is a live controller and every live controller has
  reported the port bound; else it is pending. No port without a mapping gets a state, and asking
  changes nothing.
\<close>

theorem states_barrier:
  assumes "redis_client R kv" "mwf ms" "states (Some (Some R)) budget local ms r = (Inr st, r')"
  shows "kv r' = kv r \<and>
         mget st = (\<lambda>p. map_option (\<lambda>m.
           if Suspended m then SuspendedState
           else if (\<exists>a. kv r (controllerKeyPrefix @ a) \<noteq> None) \<and>
                   (\<forall>a. kv r (controllerKeyPrefix @ a) \<noteq> None \<longrightarrow> kv r (boundKey p a) \<noteq> None)
           then Active else Pending) (mget ms p))"
  using states_by_barrier [OF assms] .

definition barrier_demo :: miniRedis where
  "barrier_demo = \<lparr>mini_store = [(''hostlink:controller:pod-a'', ''1''), (''hostlink:controller:pod-b'', ''1''),
     (''hostlink:bound:1025:pod-a'', ''1''), (''hostlink:bound:1025:pod-b'', ''1''),
     (''hostlink:bound:1026:pod-a'', ''1'')], failures = []\<rparr>"

theorem states_barrier_witness:
  "\<exists>st r'. states (Some (Some miniRedisClient)) 10 []
       [(1025, portMapping.make ''a'' ''t'' ''c'' False), (1026, portMapping.make ''a'' ''t'' ''c'' False)]
       barrier_demo = (Inr st, r') \<and> mget st 1026 = Some Pending"
proof -
  let ?ms = "[(1025 :: uint32, portMapping.make ''a'' ''t'' ''c'' False), (1026, portMapping.make ''a'' ''t'' ''c'' False)]"
  have "\<not> isl (fst (states (Some (Some miniRedisClient)) 10 [] ?ms barrier_demo))"
    by code_simp
  then obtain st r' where st: "states (Some (Some miniRedisClient)) 10 [] ?ms barrier_demo = (Inr st, r')"
    by (cases "states (Some (Some miniRedisClient)) 10 [] ?ms barrier_demo";
        cases "fst (states (Some (Some miniRedisClient)) 10 [] ?ms barrier_demo)") auto
  have wf: "mwf ?ms" by simp
  note s = states_barrier [OF miniR.redis_client_axioms wf st]
  have live: "mget (mini_store barrier_demo) (controllerKeyPrefix @ ''pod-b'') \<noteq> None"
    by (simp add: barrier_demo_def controllerKeyPrefix_def)
  have "boundKey 1026 ''pod-b'' = ''hostlink:bound:1026:pod-b''"
    by (simp add: boundKey_def boundKeyPrefix_def formatUint.simps)
  then have "mget (mini_store barrier_demo) (boundKey 1026 ''pod-b'') = None" by (simp add: barrier_demo_def)
  with s live have "mget st 1026 = Some Pending" by (auto simp: portMapping.make_def)
  with st show ?thesis by blast
qed

text \<open>
  Without Redis the local listeners decide: a mapping's port is active exactly when this controller
  has bound it, and a suspended one is suspended whatever is bound.
\<close>

theorem states_local:
  assumes "mwf ms"
  shows "\<exists>st. states (Some None) budget local ms r = (Inr st, r) \<and>
           mget st = (\<lambda>p. map_option (\<lambda>m. if Suspended m then SuspendedState
             else if p \<in> set local then Active else Pending) (mget ms p))"
  using states_by_local [OF assms] .

theorem states_local_witness:
  "\<exists>st. states (Some None) 1 [1025] [(1025, portMapping.make ''a'' ''t'' ''c'' False),
      (1026, portMapping.make ''a'' ''t'' ''c'' True)] () = (Inr st, ()) \<and>
     mget st 1025 = Some Active \<and> mget st 1026 = Some SuspendedState"
proof -
  have "mwf [(1025 :: uint32, portMapping.make ''a'' ''t'' ''c'' False), (1026, portMapping.make ''a'' ''t'' ''c'' True)]"
    by simp
  from states_local [OF this, of 1 "[1025]" "()"] show ?thesis by (auto simp: portMapping.make_def)
qed

text \<open>
  A pod reports only for itself: whatever of the pipeline fails, \<^verbatim>\<open>reportBound\<close> leaves the liveness
  and the reports of every other pod as they were, and reports no port that it was not given.
\<close>

theorem reportBound_own_keys:
  assumes "redis_client R kv" "a \<noteq> selfAddr \<or> p \<notin> set ports"
  shows "kv (reportBound R selfAddr ports r) (boundKey p a) = kv r (boundKey p a) \<and>
         (a \<noteq> selfAddr \<longrightarrow> kv (reportBound R selfAddr ports r) (controllerKeyPrefix @ a) =
            kv r (controllerKeyPrefix @ a))"
proof -
  let ?r1 = "snd (rSet R (controllerKeyPrefix @ selfAddr) ''1'' controllerTTL r)"
  have f: "kv (reportBound R selfAddr ports r) k = kv ?r1 k" if "k \<notin> (\<lambda>p. boundKey p selfAddr) ` set ports" for k
    unfolding reportBound_def using redis_client.report_fold [OF assms(1) that] .
  have g: "kv ?r1 k = kv r k" if "k \<noteq> controllerKeyPrefix @ selfAddr" for k
    using redis_client.set_only [OF assms(1), of "controllerKeyPrefix @ selfAddr" "''1''" controllerTTL r] that by auto
  have dis: "boundKey q b \<noteq> controllerKeyPrefix @ c" for q b c
    by (simp add: boundKey_def boundKeyPrefix_def controllerKeyPrefix_def)
  have "boundKey p a \<notin> (\<lambda>p. boundKey p selfAddr) ` set ports"
    using assms(2) by (auto simp: boundKey_inject)
  from f [OF this] g [OF dis] have "kv (reportBound R selfAddr ports r) (boundKey p a) = kv r (boundKey p a)" by simp
  moreover have "kv (reportBound R selfAddr ports r) (controllerKeyPrefix @ a) = kv r (controllerKeyPrefix @ a)"
    if "a \<noteq> selfAddr"
  proof -
    have "controllerKeyPrefix @ a \<notin> (\<lambda>p. boundKey p selfAddr) ` set ports" using dis by (metis (no_types, lifting) imageE)
    from f [OF this] g [of "controllerKeyPrefix @ a"] that show ?thesis by simp
  qed
  ultimately show ?thesis by blast
qed

theorem reportBound_own_keys_witness:
  "mget (mini_store (reportBound miniRedisClient ''pod-b'' [1026] barrier_demo)) (boundKey 1026 ''pod-c'') = None"
proof -
  have "boundKey 1026 ''pod-c'' = ''hostlink:bound:1026:pod-c''"
    by (simp add: boundKey_def boundKeyPrefix_def formatUint.simps)
  then have "mget (mini_store barrier_demo) (boundKey 1026 ''pod-c'') = None" by (simp add: barrier_demo_def)
  with reportBound_own_keys [OF miniR.redis_client_axioms, of "''pod-c''" "''pod-b''" 1026 "[1026]" barrier_demo]
  show ?thesis by simp
qed

end
