(* ===== verification/GoNet.thy ===== *)
theory GoNet
  imports Prelude
begin

text \<open>
  \<^verbatim>\<open>SplitHostPort\<close> and \<^verbatim>\<open>JoinHostPort\<close> of Go's package \<^verbatim>\<open>net\<close>, which the controller applies to the
  targets of forwards, and the round trip between them.
\<close>

datatype addr_error = MissingPort | TooManyColons | MissingBracket | UnexpectedBracket

text \<open>The positions of the first and the last occurrence of a byte.\<close>

fun indexByte :: "string \<Rightarrow> char \<Rightarrow> nat option" where
  "indexByte [] c = None"
| "indexByte (x # xs) c = (if x = c then Some 0 else map_option Suc (indexByte xs c))"

definition lastIndexByte :: "string \<Rightarrow> char \<Rightarrow> nat option" where
  "lastIndexByte s c = map_option (\<lambda>i. length s - Suc i) (indexByte (rev s) c)"

definition SplitHostPort :: "string \<Rightarrow> addr_error + string \<times> string" where
  "SplitHostPort hostport =
     (case lastIndexByte hostport (CHR '':'') of
        None \<Rightarrow> Inl MissingPort
      | Some i \<Rightarrow>
          (let finish = (\<lambda>host j k.
             if CHR ''['' \<in> set (drop j hostport) then Inl UnexpectedBracket
             else if CHR '']'' \<in> set (drop k hostport) then Inl UnexpectedBracket
             else Inr (host, drop (Suc i) hostport))
           in
           if hd hostport = CHR ''['' then
             (case indexByte hostport (CHR '']'') of
                None \<Rightarrow> Inl MissingBracket
              | Some e \<Rightarrow>
                  if Suc e = length hostport then Inl MissingPort
                  else if Suc e = i then finish (take (e - 1) (drop 1 hostport)) 1 (Suc e)
                  else if hostport ! Suc e = CHR '':'' then Inl TooManyColons
                  else Inl MissingPort)
           else if CHR '':'' \<in> set (take i hostport) then Inl TooManyColons
           else finish (take i hostport) 0 0))"

definition JoinHostPort :: "string \<Rightarrow> string \<Rightarrow> string" where
  "JoinHostPort host port =
     (if CHR '':'' \<in> set host then ''['' @ host @ '']:'' @ port else host @ '':'' @ port)"

lemma indexByte_append: "c \<notin> set xs \<Longrightarrow> indexByte (xs @ c # ys) c = Some (length xs)"
  by (induction xs) auto

lemma indexByte_None: "indexByte xs c = None \<longleftrightarrow> c \<notin> set xs"
  by (induction xs) auto

lemma indexByte_Some: "indexByte xs c = Some i \<Longrightarrow> i < length xs \<and> xs ! i = c \<and> c \<notin> set (take i xs)"
  by (induction xs arbitrary: i) (auto split: if_splits)

lemma lastIndexByte_append:
  assumes "c \<notin> set ys"
  shows "lastIndexByte (xs @ c # ys) c = Some (length xs)"
proof -
  have "indexByte (rev ys @ c # rev xs) c = Some (length (rev ys))"
    using assms by (intro indexByte_append) simp
  then show ?thesis by (simp add: lastIndexByte_def)
qed

definition plain_host :: "string \<Rightarrow> bool" where
  "plain_host h \<longleftrightarrow> CHR ''['' \<notin> set h \<and> CHR '']'' \<notin> set h"

definition plain_port :: "string \<Rightarrow> bool" where
  "plain_port p \<longleftrightarrow> CHR ''['' \<notin> set p \<and> CHR '']'' \<notin> set p \<and> CHR '':'' \<notin> set p"

lemma SplitHostPort_JoinHostPort:
  assumes "plain_host h" "plain_port p"
  shows "SplitHostPort (JoinHostPort h p) = Inr (h, p)"
proof (cases "CHR '':'' \<in> set h")
  case True
  let ?s = "''['' @ h @ '']:'' @ p"
  have "lastIndexByte ((''['' @ h @ '']'') @ CHR '':'' # p) (CHR '':'') = Some (length (''['' @ h @ '']''))"
    using assms(2) by (intro lastIndexByte_append) (simp add: plain_port_def)
  then have i: "lastIndexByte ?s (CHR '':'') = Some (length h + 2)" by simp
  have "indexByte ((CHR ''['' # h) @ CHR '']'' # '':'' @ p) (CHR '']'') = Some (length (CHR ''['' # h))"
    using assms(1) by (intro indexByte_append) (simp add: plain_host_def)
  then have e: "indexByte ?s (CHR '']'') = Some (Suc (length h))" by simp
  show ?thesis
    using True assms i e
    by (auto simp: JoinHostPort_def SplitHostPort_def Let_def plain_host_def plain_port_def)
next
  case False
  have i: "lastIndexByte (h @ CHR '':'' # p) (CHR '':'') = Some (length h)"
    using assms(2) by (intro lastIndexByte_append) (simp add: plain_port_def)
  have "hd (h @ CHR '':'' # p) \<noteq> CHR ''[''"
    using assms(1) by (cases h) (auto simp: plain_host_def)
  then show ?thesis
    using False assms i
    by (auto simp: JoinHostPort_def SplitHostPort_def Let_def plain_host_def plain_port_def)
qed

text \<open>What a successful split says of its parts: no bracket in either and no colon in the port.\<close>

lemma drop_Suc_lastIndexByte: "lastIndexByte s c = Some i \<Longrightarrow> c \<notin> set (drop (Suc i) s) \<and> i < length s"
proof -
  assume a: "lastIndexByte s c = Some i"
  then obtain j where j: "indexByte (rev s) c = Some j" "i = length s - Suc j" by (auto simp: lastIndexByte_def)
  from indexByte_Some [OF j(1)] have k: "j < length s" "c \<notin> set (take j (rev s))" by simp_all
  then have "c \<notin> set (drop (length s - j) s)" by (simp add: take_rev)
  moreover have "Suc i = length s - j" using j(2) k(1) by simp
  ultimately show ?thesis using k(1) j(2) by simp
qed

lemma take_drop_subset: "set (take (e - Suc 0) (drop (Suc 0) s)) \<subseteq> set (take e s)"
  by (cases s; cases e) auto

lemma SplitHostPort_parts:
  assumes "SplitHostPort s = Inr (h, p)"
  shows "plain_host h \<and> plain_port p"
proof -
  from assms obtain i where i: "lastIndexByte s (CHR '':'') = Some i"
    by (auto simp: SplitHostPort_def split: option.splits)
  note d = drop_Suc_lastIndexByte [OF i]
  show ?thesis
  proof (cases "hd s = CHR ''[''")
    case True
    then obtain e where e: "indexByte s (CHR '']'') = Some e" "Suc e = i"
        "h = take (e - 1) (drop 1 s)" "p = drop (Suc i) s" "CHR ''['' \<notin> set (drop 1 s)"
        "CHR '']'' \<notin> set (drop (Suc e) s)"
      using assms i by (auto simp: SplitHostPort_def Let_def split: option.splits if_splits)
    have "CHR '']'' \<notin> set h"
      using indexByte_Some [OF e(1)] take_drop_subset [of e s] unfolding e(3) by auto
    moreover have "CHR ''['' \<notin> set h" using e(3,5) by (meson in_set_takeD)
    moreover have "CHR ''['' \<notin> set p" "CHR '']'' \<notin> set p"
      using e(2,4,5,6) set_drop_subset_set_drop [of 1 "Suc i" s] set_drop_subset_set_drop [of "Suc e" "Suc i" s] by auto
    ultimately show ?thesis using d e(4) by (simp add: plain_host_def plain_port_def)
  next
    case False
    then have "h = take i s" "p = drop (Suc i) s" "CHR ''['' \<notin> set s" "CHR '']'' \<notin> set s"
      using assms i by (auto simp: SplitHostPort_def Let_def split: option.splits if_splits)
    with d show ?thesis by (auto simp: plain_host_def plain_port_def dest: in_set_takeD in_set_dropD)
  qed
qed

end
