(* ===== verification/Forwards.thy ===== *)
theory Forwards
  imports RedisPorts Bindings GoNet
begin

text \<open>
  The REST handlers for port forwards, \<^verbatim>\<open>pkg/controller/forwards.go\<close>. A handler is a function of
  the port store behind the \<^verbatim>\<open>portStore\<close> interface (the record \<open>portStore\<close> of \<open>Ports\<close>, absent when
  forwarding is disabled), of the decoded request and of the store's state; it returns the status
  code, the body and the new state. The lemmas are proved once for every store that meets the
  contract, in the context of \<open>port_store\<close>.
\<close>

section \<open>Requests and responses\<close>

record createForwardRequest =
  cf_target :: string
  cf_container_id :: string
  cf_port :: uint32

record forwardResponse =
  fr_port :: uint32
  fr_state :: "portState option"
  fr_mapping :: portMapping

datatype fwdBody = NoBody | ErrorBody string | OneForward forwardResponse | ForwardList "forwardResponse list"

type_synonym httpResponse = "nat \<times> fwdBody"

record fwdConfig =
  cfg_from :: uint32
  cfg_to :: uint32

definition validForwardTarget :: "string \<Rightarrow> bool" where
  "validForwardTarget target =
     (case SplitHostPort target of
        Inl _ \<Rightarrow> False
      | Inr (host, portText) \<Rightarrow>
          if host = [] \<or> portText = [] then False
          else (case parseUint 16 portText of Inl _ \<Rightarrow> False | Inr port \<Rightarrow> port \<noteq> 0))"

text \<open>\<open>body\<close> is what \<^verbatim>\<open>ShouldBindJSON\<close> decoded, \<open>None\<close> when it failed.\<close>

definition bindCreateForwardRequest :: "fwdConfig \<Rightarrow> createForwardRequest option \<Rightarrow>
    httpResponse + createForwardRequest" where
  "bindCreateForwardRequest cfg body =
     (case body of
        None \<Rightarrow> Inl (400, ErrorBody ''invalid JSON body'')
      | Some request \<Rightarrow>
          if \<not> validForwardTarget (cf_target request) then Inl (400, ErrorBody ''invalid target'')
          else if cf_port request \<noteq> 0 \<and> (cf_port request < cfg_from cfg \<or> cf_port request > cfg_to cfg)
          then Inl (400, ErrorBody (''port must be within '' @ formatUint (unat (cfg_from cfg)) @ ''-'' @
                                    formatUint (unat (cfg_to cfg))))
          else Inr request)"

definition allocationRange :: "fwdConfig \<Rightarrow> uint32 \<Rightarrow> uint32 \<times> uint32" where
  "allocationRange cfg requested =
     (if requested \<noteq> 0 then (requested, requested) else (cfg_from cfg, cfg_to cfg))"

definition writeAllocateForwardError :: "port_error \<Rightarrow> uint32 \<Rightarrow> httpResponse" where
  "writeAllocateForwardError err requested =
     (if err = ErrPortRangeExhausted \<and> requested \<noteq> 0 then (409, ErrorBody ''requested port already in use'')
      else if err = ErrPortRangeExhausted then (409, ErrorBody ''no free port in range'')
      else (502, ErrorBody ''allocate forward port failed''))"

definition createForward :: "'s portStore option \<Rightarrow> fwdConfig \<Rightarrow> string \<Rightarrow> createForwardRequest option \<Rightarrow>
    's \<Rightarrow> httpResponse \<times> 's" where
  "createForward store cfg agentID body s =
     (case store of
        None \<Rightarrow> ((503, ErrorBody ''port forwarding is disabled''), s)
      | Some ops \<Rightarrow>
          (case bindCreateForwardRequest cfg body of
             Inl resp \<Rightarrow> (resp, s)
           | Inr request \<Rightarrow>
               (let mapping = \<lparr>AgentID = agentID, Target = cf_target request,
                               ContainerID = cf_container_id request, Suspended = False\<rparr>;
                    (rangeFrom, rangeTo) = allocationRange cfg (cf_port request)
                in (case ps_allocate ops rangeFrom rangeTo mapping s of
                      (Inl err, s') \<Rightarrow> (writeAllocateForwardError err (cf_port request), s')
                    | (Inr port, s') \<Rightarrow>
                        ((201, OneForward \<lparr>fr_port = port, fr_state = Some Pending, fr_mapping = mapping\<rparr>), s')))))"

text \<open>
  A port missing from the map of states reads as the zero value of its type, the empty string: \<open>None\<close>.
\<close>

definition forwardResponses :: "(uint32, portMapping) gomap \<Rightarrow> (uint32, portState) gomap \<Rightarrow> string \<Rightarrow>
    forwardResponse list" where
  "forwardResponses ms sts agentID =
     sort_key fr_port
       (map (\<lambda>(port, mapping). \<lparr>fr_port = port,
               fr_state = mget sts port, fr_mapping = mapping\<rparr>)
         (filter (\<lambda>(_, mapping). agentID = [] \<or> AgentID mapping = agentID) ms))"

definition fetchForwards :: "'s portStore option \<Rightarrow> 'r redisClient option option \<Rightarrow> nat \<Rightarrow> uint32 list \<Rightarrow>
    's \<Rightarrow> 'r \<Rightarrow> (httpResponse + (uint32, portMapping) gomap \<times> (uint32, portState) gomap) \<times> 's \<times> 'r" where
  "fetchForwards store tracker budget local s r =
     (case store of
        None \<Rightarrow> (Inl (503, ErrorBody ''port forwarding is disabled''), s, r)
      | Some ops \<Rightarrow>
          (case ps_desired ops s of
             (Inl _, s') \<Rightarrow> (Inl (502, ErrorBody ''list forwards failed''), s', r)
           | (Inr ms, s') \<Rightarrow>
               (case states tracker budget local ms r of
                  (Inl _, r') \<Rightarrow> (Inl (502, ErrorBody ''list forwards failed''), s', r')
                | (Inr sts, r') \<Rightarrow> (Inr (ms, sts), s', r'))))"

definition listAgentForwards :: "'s portStore option \<Rightarrow> 'r redisClient option option \<Rightarrow> nat \<Rightarrow> uint32 list \<Rightarrow>
    string \<Rightarrow> 's \<Rightarrow> 'r \<Rightarrow> httpResponse \<times> 's \<times> 'r" where
  "listAgentForwards store tracker budget local agentID s r =
     (case fetchForwards store tracker budget local s r of
        (Inl resp, s', r') \<Rightarrow> (resp, s', r')
      | (Inr (ms, sts), s', r') \<Rightarrow> ((200, ForwardList (forwardResponses ms sts agentID)), s', r'))"

definition listAllForwards :: "'s portStore option \<Rightarrow> 'r redisClient option option \<Rightarrow> nat \<Rightarrow> uint32 list \<Rightarrow>
    's \<Rightarrow> 'r \<Rightarrow> httpResponse \<times> 's \<times> 'r" where
  "listAllForwards store tracker budget local s r = listAgentForwards store tracker budget local [] s r"

definition deleteForward :: "'s portStore option \<Rightarrow> string \<Rightarrow> 's \<Rightarrow> httpResponse \<times> 's" where
  "deleteForward store portText s =
     (case store of
        None \<Rightarrow> ((503, ErrorBody ''port forwarding is disabled''), s)
      | Some ops \<Rightarrow>
          (case parseUint 32 portText of
             Inl _ \<Rightarrow> ((400, ErrorBody ''invalid port''), s)
           | Inr port \<Rightarrow>
               if port = 0 \<or> port > 65535 then ((400, ErrorBody ''invalid port''), s)
               else (case ps_release ops (of_nat port) s of
                 (Inl err, s') \<Rightarrow>
                   ((if err = ErrPortNotFound then (404, ErrorBody ''forward not found'')
                     else (502, ErrorBody ''release forward port failed'')), s')
               | (Inr _, s') \<Rightarrow> ((204, NoBody), s'))))"

section \<open>The handlers over any store that meets the contract\<close>

definition create_post :: "(uint32 \<rightharpoonup> portMapping) \<Rightarrow> (uint32 \<rightharpoonup> portMapping) \<Rightarrow>
    (portMapping \<Rightarrow> portMapping) \<Rightarrow> fwdConfig \<Rightarrow> string \<Rightarrow> createForwardRequest option \<Rightarrow> httpResponse \<Rightarrow> bool" where
  "create_post v v' stored cfg agentID body resp \<longleftrightarrow>
     (fst resp \<in> {400, 503} \<and> v' = v) \<or>
     (\<exists>request. body = Some request \<and> validForwardTarget (cf_target request) \<and>
        (cf_port request \<noteq> 0 \<longrightarrow> cfg_from cfg \<le> cf_port request \<and> cf_port request \<le> cfg_to cfg) \<and>
        (let mapping = \<lparr>AgentID = agentID, Target = cf_target request,
                        ContainerID = cf_container_id request, Suspended = False\<rparr>;
             wanted = (if cf_port request \<noteq> 0 then {cf_port request} else {cfg_from cfg..cfg_to cfg})
         in (\<exists>p \<in> wanted. resp = (201, OneForward \<lparr>fr_port = p, fr_state = Some Pending, fr_mapping = mapping\<rparr>) \<and>
               p \<noteq> 0 \<and> v p = None \<and> (\<forall>q \<in> wanted. q < p \<longrightarrow> v q \<noteq> None) \<and> v' = v(p \<mapsto> stored mapping)) \<or>
            fst resp = 409 \<and> (\<forall>q \<in> wanted. v q \<noteq> None) \<and> v' = v \<or>
            fst resp = 502 \<and> (v' = v \<or> (\<exists>p \<in> wanted. v p = None \<and> v' = v(p \<mapsto> stored mapping)))))"

context port_store
begin

lemma createForward_post:
  assumes "inv s" "createForward (Some ops) cfg agentID body s = (resp, s')"
  shows "inv s' \<and> create_post (view s) (view s') stored cfg agentID body resp"
proof (cases "bindCreateForwardRequest cfg body")
  case (Inl r)
  with assms have "s' = s" "resp = r" by (simp_all add: createForward_def)
  moreover have "fst r = 400" using Inl by (auto simp: bindCreateForwardRequest_def split: option.splits if_splits)
  ultimately show ?thesis using assms(1) by (simp add: create_post_def)
next
  case (Inr request)
  then have b: "body = Some request" "validForwardTarget (cf_target request)"
      "cf_port request \<noteq> 0 \<longrightarrow> cfg_from cfg \<le> cf_port request \<and> cf_port request \<le> cfg_to cfg"
    by (auto simp: bindCreateForwardRequest_def split: option.splits if_splits)
  let ?m = "\<lparr>AgentID = agentID, Target = cf_target request,
      ContainerID = cf_container_id request, Suspended = False\<rparr>"
  let ?wanted = "if cf_port request \<noteq> 0 then {cf_port request} else {cfg_from cfg..cfg_to cfg}"
  obtain f t where ft: "allocationRange cfg (cf_port request) = (f, t)" by fastforce
  have w: "{f..t} = ?wanted" using ft by (auto simp: allocationRange_def split: if_splits)
  obtain x s1 where a: "ps_allocate ops f t ?m s = (x, s1)" by fastforce
  have s': "s' = s1" "resp = (case x of Inl err \<Rightarrow> writeAllocateForwardError err (cf_port request)
      | Inr port \<Rightarrow> (201, OneForward \<lparr>fr_port = port, fr_state = Some Pending, fr_mapping = ?m\<rparr>))"
    using assms(2) Inr ft a by (auto simp: createForward_def Let_def split: sum.splits)
  have inv': "inv s'" using inv_allocate [OF assms(1) a] s'(1) by simp
  have "(\<exists>p \<in> ?wanted. resp = (201, OneForward \<lparr>fr_port = p, fr_state = Some Pending, fr_mapping = ?m\<rparr>) \<and>
            p \<noteq> 0 \<and> view s p = None \<and> (\<forall>q \<in> ?wanted. q < p \<longrightarrow> view s q \<noteq> None) \<and> view s' = (view s)(p \<mapsto> stored ?m)) \<or>
         fst resp = 409 \<and> (\<forall>q \<in> ?wanted. view s q \<noteq> None) \<and> view s' = view s \<or>
         fst resp = 502 \<and> (view s' = view s \<or> (\<exists>p \<in> ?wanted. view s p = None \<and> view s' = (view s)(p \<mapsto> stored ?m)))"
  proof (cases x)
    case (Inr p)
    from allocate_ok [OF assms(1) a [unfolded Inr]] show ?thesis
      unfolding w [symmetric] using s' Inr by (intro disjI1 bexI [of _ p]) auto
  next
    case (Inl e)
    show ?thesis
    proof (cases "e = ErrPortRangeExhausted")
      case True
      from allocate_exhausted [OF assms(1) a [unfolded Inl True]] show ?thesis
        unfolding w [symmetric] using s' Inl True by (auto simp: writeAllocateForwardError_def)
    next
      case False
      from allocate_err [OF assms(1) a [unfolded Inl]] show ?thesis
        unfolding w [symmetric] using s' Inl False by (auto simp: writeAllocateForwardError_def)
    qed
  qed
  with b inv' show ?thesis unfolding create_post_def Let_def by blast
qed

lemma deleteForward_post:
  assumes "inv s" "deleteForward (Some ops) portText s = (resp, s')"
  shows "inv s' \<and> fst resp \<noteq> 404 \<and>
     (if \<exists>port. parseUint 32 portText = Inr port \<and> 0 < port \<and> port \<le> 65535
      then (let p = of_nat (projr (parseUint 32 portText)) in
            fst resp = 204 \<and> view s' = (view s)(p := None) \<or>
            fst resp = 502 \<and> (view s' = view s \<or> view s' = (view s)(p := None)))
      else fst resp = 400 \<and> s' = s)"
proof (cases "\<exists>port. parseUint 32 portText = Inr port \<and> 0 < port \<and> port \<le> 65535")
  case False
  with assms show ?thesis by (auto simp: deleteForward_def split: sum.splits if_splits)
next
  case True
  then obtain port where port: "parseUint 32 portText = Inr port" "0 < port" "port \<le> 65535" by blast
  obtain x s1 where r: "ps_release ops (of_nat port) s = (x, s1)" by fastforce
  have s': "s' = s1" "resp = (case x of Inl err \<Rightarrow> if err = ErrPortNotFound then (404, ErrorBody ''forward not found'')
        else (502, ErrorBody ''release forward port failed'') | Inr _ \<Rightarrow> (204, NoBody))"
    using assms(2) port r by (auto simp: deleteForward_def split: sum.splits)
  have "inv s'" using inv_release [OF assms(1) r] s'(1) by simp
  moreover have "fst resp = 204 \<and> view s' = (view s)(of_nat port := None) \<or>
      fst resp = 502 \<and> (view s' = view s \<or> view s' = (view s)(of_nat port := None))"
  proof (cases x)
    case (Inl e)
    from release_err [OF assms(1) r [unfolded Inl]] s' Inl show ?thesis by auto
  next
    case (Inr u)
    from release_ok [OF assms(1) r [unfolded Inr]] s' Inr show ?thesis by auto
  qed
  ultimately show ?thesis using True port by auto
qed

lemma fetchForwards_post:
  assumes "inv s" "fetchForwards (Some ops) tracker budget local s r = (x, s', r')"
  shows "inv s' \<and> view s' = view s \<and>
    (\<forall>ms sts. x = Inr (ms, sts) \<longrightarrow> mwf ms \<and> mget ms = view s \<and> states tracker budget local ms r = (Inr sts, r')) \<and>
    (\<forall>resp. x = Inl resp \<longrightarrow> fst resp = 502)"
proof -
  obtain y s1 where d: "ps_desired ops s = (y, s1)" by fastforce
  note k = inv_desired [OF assms(1) d] desired_view [OF assms(1) d]
  show ?thesis
  proof (cases y)
    case (Inl e)
    with assms(2) d k show ?thesis by (auto simp: fetchForwards_def)
  next
    case (Inr ms)
    with desired_ok [OF assms(1)] d have "mwf ms" "mget ms = view s" by blast+
    with assms(2) d k Inr show ?thesis
      by (auto simp: fetchForwards_def split: prod.splits sum.splits)
  qed
qed

end

section \<open>Listing\<close>

lemma forwardResponses_set:
  assumes "mwf ms" "mget sts = (\<lambda>p. map_option (f p) (mget ms p))"
  shows "set (forwardResponses ms sts a) =
      {\<lparr>fr_port = p, fr_state = Some (f p m), fr_mapping = m\<rparr> | p m. mget ms p = Some m \<and> (a = [] \<or> AgentID m = a)}"
proof -
  let ?resp = "\<lambda>(port, mapping). \<lparr>fr_port = port,
      fr_state = mget sts port, fr_mapping = mapping\<rparr>"
  let ?es = "{(p, m). mget ms p = Some m \<and> (a = [] \<or> AgentID m = a)}"
  have "set (forwardResponses ms sts a) = ?resp ` ?es"
    using mwf_mget_iff [OF assms(1)] by (auto simp: forwardResponses_def)
  also have "\<dots> = (\<lambda>(p, m). \<lparr>fr_port = p, fr_state = Some (f p m), fr_mapping = m\<rparr>) ` ?es"
    by (rule image_cong) (auto simp: assms(2))
  also have "\<dots> = {\<lparr>fr_port = p, fr_state = Some (f p m), fr_mapping = m\<rparr> | p m.
      mget ms p = Some m \<and> (a = [] \<or> AgentID m = a)}"
    by auto
  finally show ?thesis .
qed

lemma forwardResponses_sorted:
  assumes "mwf ms"
  shows "sorted (map fr_port (forwardResponses ms sts a)) \<and> distinct (map fr_port (forwardResponses ms sts a))"
proof -
  let ?resp = "\<lambda>(port, mapping). \<lparr>fr_port = port,
      fr_state = mget sts port, fr_mapping = mapping\<rparr>"
  let ?fs = "filter (\<lambda>(_, mapping). a = [] \<or> AgentID mapping = a) ms"
  have "map fr_port (map ?resp ?fs) = map fst ?fs" by (simp add: case_prod_beta)
  moreover have "distinct (map fst ?fs)" using assms by (simp add: mwf_def distinct_map_filter)
  ultimately have "distinct (map fr_port (map ?resp ?fs))" by (simp only:)
  then have "distinct (map fr_port (sort_key fr_port (map ?resp ?fs)))"
    by (metis (mono_tags) distinct_map distinct_sort set_sort)
  then show ?thesis by (simp add: forwardResponses_def)
qed

section \<open>Properties\<close>

text \<open>
  (C12) Creating a forward, over the in-memory store and over Redis alike (any store that meets the
  contract): a created forward gets a free port, the requested one or the lowest free one of the
  configured range, stored with exactly this agent, target and container and not suspended, and is
  reported as pending; a conflict is reported only when no port qualifies; a rejected request
  changes nothing; and after a failed store call at most this one mapping was added.
\<close>

theorem createForward_correct:
  assumes "port_store ops view I stored" "I s"
    and "createForward (Some ops) cfg agentID body s = (resp, s')"
  shows "I s' \<and> create_post (view s) (view s') stored cfg agentID body resp"
  using port_store.createForward_post [OF assms] .

definition demo_create :: createForwardRequest where
  "demo_create = \<lparr>cf_target = ''172.30.1.5:8080'', cf_container_id = ''web'', cf_port = 0\<rparr>"

theorem createForward_correct_witness:
  "\<exists>resp s'. createForward (Some memPortStoreOps) \<lparr>cfg_from = 1025, cfg_to = 2025\<rparr> ''agent-1''
      (Some demo_create) newMemPortStore = (resp, s') \<and>
     create_post (mem_view newMemPortStore) (mem_view s') (\<lambda>m. m) \<lparr>cfg_from = 1025, cfg_to = 2025\<rparr>
       ''agent-1'' (Some demo_create) resp \<and> fst resp = 201"
proof -
  obtain resp s' where r: "createForward (Some memPortStoreOps) \<lparr>cfg_from = 1025, cfg_to = 2025\<rparr> ''agent-1''
      (Some demo_create) newMemPortStore = (resp, s')" by fastforce
  have "mem_inv newMemPortStore" by (simp add: newMemPortStore_def)
  from createForward_correct [OF mem.port_store_axioms this r]
  have post: "create_post (mem_view newMemPortStore) (mem_view s') (\<lambda>m. m) \<lparr>cfg_from = 1025, cfg_to = 2025\<rparr>
      ''agent-1'' (Some demo_create) resp" by blast
  have split: "SplitHostPort ''172.30.1.5:8080'' = Inr (''172.30.1.5'', ''8080'')" by code_simp
  have "bindCreateForwardRequest \<lparr>cfg_from = 1025, cfg_to = 2025\<rparr> (Some demo_create) = Inr demo_create"
    by (simp add: bindCreateForwardRequest_def validForwardTarget_def split demo_create_def parseUint_def
        isDigit_def digitVal_def)
  then have "fst (fst (createForward (Some memPortStoreOps) \<lparr>cfg_from = 1025, cfg_to = 2025\<rparr> ''agent-1''
      (Some demo_create) newMemPortStore)) = 201"
    by (simp add: createForward_def allocationRange_def demo_create_def memPortStoreOps_def mem_allocate_def
        validatePortRange_def maximumPublicPort_def newMemPortStore_def allocLoop.simps [of _ 1025] Let_def)
  with r post show ?thesis by simp
qed

text \<open>
  Deleting a forward: for a port from 1 to 65535 a 204 means that the port is free afterwards and
  every other port as before, and any other text is refused with 400 and changes nothing. No store
  ever reports a missing port from a release, so the 404 of the handler is never sent: deleting a
  port that has no forward answers 204.
\<close>

theorem deleteForward_correct:
  assumes "port_store ops view I stored" "I s" "deleteForward (Some ops) portText s = (resp, s')"
  shows "I s' \<and> fst resp \<noteq> 404 \<and>
     (if \<exists>port. parseUint 32 portText = Inr port \<and> 0 < port \<and> port \<le> 65535
      then (let p = of_nat (projr (parseUint 32 portText)) in
            fst resp = 204 \<and> view s' = (view s)(p := None) \<or>
            fst resp = 502 \<and> (view s' = view s \<or> view s' = (view s)(p := None)))
      else fst resp = 400 \<and> s' = s)"
  using port_store.deleteForward_post [OF assms] .

theorem deleteForward_correct_witness:
  "\<exists>resp s'. deleteForward (Some memPortStoreOps) ''1025''
      (newMemPortStore\<lparr>mappings := [(1025, portMapping.make ''a'' ''t'' ''c'' False)]\<rparr>) = (resp, s') \<and>
     fst resp \<noteq> 404 \<and> mem_inv s'"
proof -
  let ?s = "newMemPortStore\<lparr>mappings := [(1025, portMapping.make ''a'' ''t'' ''c'' False)]\<rparr>"
  obtain resp s' where r: "deleteForward (Some memPortStoreOps) ''1025'' ?s = (resp, s')" by fastforce
  have "mem_inv ?s" by simp
  from deleteForward_correct [OF mem.port_store_axioms this r] r show ?thesis by blast
qed

text \<open>
  Listing an agent's forwards: when the listing answers 200 it has, in ascending order of port and
  each port once, exactly the agent's mappings in the store (all of them for the empty agent id),
  each with the state that the activation barrier gives its port, and the store is unchanged.
\<close>

theorem listAgentForwards_correct:
  assumes "port_store ops view I stored" "I s" "redis_client R kv"
    and "listAgentForwards (Some ops) (Some (Some R)) budget local agentID s r = ((200, ForwardList fs), s', r')"
  shows "view s' = view s \<and> sorted (map fr_port fs) \<and> distinct (map fr_port fs) \<and>
         set fs = {\<lparr>fr_port = p, fr_state = Some
             (if Suspended m then SuspendedState
              else if (\<exists>a. kv r (controllerKeyPrefix @ a) \<noteq> None) \<and>
                   (\<forall>a. kv r (controllerKeyPrefix @ a) \<noteq> None \<longrightarrow> kv r (boundKey p a) \<noteq> None)
              then Active else Pending), fr_mapping = m\<rparr> | p m.
             view s p = Some m \<and> (agentID = [] \<or> AgentID m = agentID)}"
proof -
  obtain x s1 r1 where f: "fetchForwards (Some ops) (Some (Some R)) budget local s r = (x, s1, r1)" by (metis prod_cases3)
  note p = port_store.fetchForwards_post [OF assms(1,2) f]
  obtain ms sts where x: "x = Inr (ms, sts)" "fs = forwardResponses ms sts agentID" "s' = s1" "r' = r1"
    using assms(4) f p by (cases x) (auto simp: listAgentForwards_def)
  with p have ms: "mwf ms" "mget ms = view s" "states (Some (Some R)) budget local ms r = (Inr sts, r1)" "view s' = view s"
    by auto
  obtain result undecided where c: "classify ms = (result, undecided)" by fastforce
  let ?f = "\<lambda>p m. if Suspended m then SuspendedState
      else if (\<exists>a. kv r (controllerKeyPrefix @ a) \<noteq> None) \<and>
           (\<forall>a. kv r (controllerKeyPrefix @ a) \<noteq> None \<longrightarrow> kv r (boundKey p a) \<noteq> None) then Active else Pending"
  have "mget sts = (\<lambda>p. map_option (?f p) (mget ms p))"
    using states_by_barrier [OF assms(3) ms(1,3)] by simp
  from forwardResponses_set [OF ms(1) this, of agentID] forwardResponses_sorted [OF ms(1)] x ms(2,4)
  show ?thesis by simp
qed


theorem listAgentForwards_correct_witness:
  "\<exists>fs s' r'. listAgentForwards (Some memPortStoreOps) (Some (Some miniRedisClient)) 10 [] ''a''
      (newMemPortStore\<lparr>mappings := [(1026, portMapping.make ''a'' ''t'' ''c'' False)]\<rparr>) barrier_demo =
        ((200, ForwardList fs), s', r') \<and>
     sorted (map fr_port fs) \<and> fr_port ` set fs = {1026}"
proof -
  let ?s = "newMemPortStore\<lparr>mappings := [(1026, portMapping.make ''a'' ''t'' ''c'' False)]\<rparr>"
  let ?l = "listAgentForwards (Some memPortStoreOps) (Some (Some miniRedisClient)) 10 [] ''a'' ?s barrier_demo"
  have "\<exists>fs s' r'. ?l = ((200, ForwardList fs), s', r')"
  proof -
    have "fst (fst ?l) = 200 \<and> (case snd (fst ?l) of ForwardList _ \<Rightarrow> True | _ \<Rightarrow> False)" by code_simp
    then show ?thesis by (cases ?l) (auto split: fwdBody.splits)
  qed
  then obtain fs s' r' where l: "?l = ((200, ForwardList fs), s', r')" by blast
  have "mem_inv ?s" by simp
  from listAgentForwards_correct [OF mem.port_store_axioms this miniR.redis_client_axioms l]
  have "sorted (map fr_port fs)" "set fs = {\<lparr>fr_port = p, fr_state = Some
       (if Suspended m then SuspendedState
        else if (\<exists>a. mget (mini_store barrier_demo) (controllerKeyPrefix @ a) \<noteq> None) \<and>
             (\<forall>a. mget (mini_store barrier_demo) (controllerKeyPrefix @ a) \<noteq> None \<longrightarrow>
                  mget (mini_store barrier_demo) (boundKey p a) \<noteq> None)
        then Active else Pending), fr_mapping = m\<rparr> | p m. mem_view ?s p = Some m \<and> (''a'' = [] \<or> AgentID m = ''a'')}"
    by blast+
  moreover have "mem_view ?s = [1026 \<mapsto> portMapping.make ''a'' ''t'' ''c'' False]" by auto
  ultimately have "fr_port ` set fs = {1026}"
    by (auto simp: portMapping.make_def image_iff split: if_splits)
  with l \<open>sorted _\<close> show ?thesis by blast
qed

end
