(* ===== verification/Sessions.thy ===== *)
theory Sessions
  imports Messages "HOL-Library.Multiset"
begin

text \<open>
  The table that pairs a waiting public connection with the Forward stream its agent opens,
  \<^verbatim>\<open>pkg/controller/sessions.go\<close>, and the two RPC handlers that use it: \<^verbatim>\<open>Forward\<close> of the agent link
  (\<^verbatim>\<open>pkg/controller/service.go\<close>) and of the peer link (\<^verbatim>\<open>pkg/controller/peer_forward.go\<close>). The table is
  one state; each operation that holds its mutex is one step, and the steps of any number of
  handlers interleave.
\<close>

section \<open>The session table\<close>

text \<open>
  A session is named by the number of its stream. The channel of a waiter has room for one
  session; its state is the list of what is in it. \<open>st_expected\<close> records, for the statements only,
  which id each waiter was made for.
\<close>

record forwardSession =
  fs_stream :: nat
  fs_first :: frame

record sessionTable =
  waiters :: "(string, nat) gomap"
  st_chans :: "(nat, forwardSession list) gomap"
  st_next :: nat
  st_expected :: "(nat, string) gomap"

definition newSessionTable :: sessionTable where
  "newSessionTable = \<lparr>waiters = [], st_chans = [], st_next = 0, st_expected = []\<rparr>"

definition expect :: "string \<Rightarrow> sessionTable \<Rightarrow> nat \<times> sessionTable" where
  "expect sessionID t =
     (let waiter = st_next t in
      (waiter, t\<lparr>waiters := mput sessionID waiter (waiters t), st_chans := mput waiter [] (st_chans t),
                 st_next := Suc waiter, st_expected := mput waiter sessionID (st_expected t)\<rparr>))"

definition cancelWaiter :: "string \<Rightarrow> nat \<Rightarrow> sessionTable \<Rightarrow> sessionTable" where
  "cancelWaiter sessionID waiter t =
     (if mget (waiters t) sessionID = Some waiter then t\<lparr>waiters := mdel sessionID (waiters t)\<rparr> else t)"

definition deliverSession :: "string \<Rightarrow> forwardSession \<Rightarrow> sessionTable \<Rightarrow> bool \<times> sessionTable" where
  "deliverSession sessionID session t =
     (case mget (waiters t) sessionID of
        None \<Rightarrow> (False, t)
      | Some waiter \<Rightarrow>
          (let t' = t\<lparr>waiters := mdel sessionID (waiters t)\<rparr> in
           if mget (st_chans t) waiter = Some []
           then (True, t'\<lparr>st_chans := mput waiter [session] (st_chans t)\<rparr>)
           else (False, t')))"

text \<open>The receive of a handler on its waiter's channel.\<close>

definition receiveSession :: "nat \<Rightarrow> sessionTable \<Rightarrow> (forwardSession \<times> sessionTable) option" where
  "receiveSession waiter t =
     (case mget (st_chans t) waiter of
        Some (session # rest) \<Rightarrow> Some (session, t\<lparr>st_chans := mput waiter rest (st_chans t)\<rparr>)
      | _ \<Rightarrow> None)"

text \<open>\<^verbatim>\<open>newSessionID\<close>: sixteen random bytes (\<open>None\<close> when the source of randomness fails) in hexadecimal.\<close>

definition hexDigit :: "nat \<Rightarrow> char" where
  "hexDigit d = (if d < 10 then char_of (48 + d) else char_of (87 + d))"

definition hexEncode :: "bytes \<Rightarrow> string" where
  "hexEncode bs = concat (map (\<lambda>b. [hexDigit (of_char b div 16), hexDigit (of_char b mod 16)]) bs)"

definition newSessionID :: "bytes option \<Rightarrow> string option" where
  "newSessionID random = map_option hexEncode random"

section \<open>The Forward RPC of the agent link\<close>

datatype grpcCode = InvalidArgument | FailedPrecondition | Internal | DeadlineExceeded | OtherCode nat

datatype rpcErr = Status grpcCode | CtxErr | SendErr

text \<open>
  What the first \<^verbatim>\<open>select\<close> chooses: the first frame or the error of its receive, the timer, or the
  end of the stream's context.
\<close>

datatype firstEvent = FirstFrame frame | FirstError | FirstTimeout | FirstCancelled

definition Forward_first :: "firstEvent \<Rightarrow> rpcErr + frame" where
  "Forward_first ev =
     (case ev of
        FirstError \<Rightarrow> Inl (Status InvalidArgument)
      | FirstTimeout \<Rightarrow> Inl (Status InvalidArgument)
      | FirstCancelled \<Rightarrow> Inl CtxErr
      | FirstFrame first \<Rightarrow>
          if f_session_id first = [] then Inl (Status InvalidArgument)
          else if f_type first = OPEN \<or> f_type first = RESET then Inr first
          else Inl (Status InvalidArgument))"

text \<open>
  The handler up to its wait: \<open>Inl\<close> is what it returns, \<open>Inr\<close> the session it now waits on. The
  second part is the wait itself, which ends with nil when the consumer closes \<^verbatim>\<open>done\<close>.
\<close>

definition Forward_open :: "nat \<Rightarrow> firstEvent \<Rightarrow> sessionTable \<Rightarrow> (rpcErr + forwardSession) \<times> sessionTable" where
  "Forward_open stream ev t =
     (case Forward_first ev of
        Inl err \<Rightarrow> (Inl err, t)
      | Inr first \<Rightarrow>
          (let session = \<lparr>fs_stream = stream, fs_first = first\<rparr> in
           case deliverSession (f_session_id first) session t of
             (False, t') \<Rightarrow> (Inl (Status InvalidArgument), t')
           | (True, t') \<Rightarrow> (Inr session, t')))"

datatype waitEvent = DoneClosed | StreamCancelled

fun Forward_wait :: "waitEvent \<Rightarrow> rpcErr option" where
  "Forward_wait DoneClosed = None"
| "Forward_wait StreamCancelled = Some CtxErr"

section \<open>The Forward RPC of the peer link\<close>

definition receiveAndValidateOpenFrame :: "firstEvent \<Rightarrow> rpcErr + frame" where
  "receiveAndValidateOpenFrame ev =
     (case ev of
        FirstError \<Rightarrow> Inl (Status InvalidArgument)
      | FirstTimeout \<Rightarrow> Inl (Status InvalidArgument)
      | FirstCancelled \<Rightarrow> Inl CtxErr
      | FirstFrame first \<Rightarrow>
          if f_type first \<noteq> OPEN then Inl (Status InvalidArgument)
          else if f_session_id first = [] then Inl (Status InvalidArgument)
          else (case f_open first of
            None \<Rightarrow> Inl (Status InvalidArgument)
          | Some op \<Rightarrow>
              if pfo_agent_id op = [] \<or> pfo_target op = [] then Inl (Status InvalidArgument) else Inr first))"

text \<open>
  The peer handler as a sequence of actions. Its inputs are the agent lookup, the result of the
  command's send, the pairing \<^verbatim>\<open>select\<close>, and the results of its sends on the peer stream. The error of
  \<^verbatim>\<open>agentConn.send\<close> wraps the stream's error and is never \<^verbatim>\<open>errAgentDisconnected\<close>, so the branch that
  asks for it is not one of a failed send.
\<close>

datatype pairEvent = PairSession forwardSession | PairTimer | PairCancelled

datatype peerAct =
    PExpect string
  | PCancelWaiter string
  | PSendCommand openForward
  | PSendFrame frame_type
  | PSplice nat
  | PCloseDone nat

definition peerForward :: "firstEvent \<Rightarrow> bool \<Rightarrow> bool \<Rightarrow> pairEvent \<Rightarrow> bool \<Rightarrow> rpcErr option \<times> peerAct list" where
  "peerForward ev held sendOk pair frameOk =
     (case receiveAndValidateOpenFrame ev of
        Inl err \<Rightarrow> (Some err, [])
      | Inr first \<Rightarrow>
          (let sessionID = f_session_id first; op = the (f_open first) in
           if \<not> held then (Some (Status FailedPrecondition), [])
           else (let cmd = PSendCommand \<lparr>of_session_id = sessionID, of_target = pfo_target op\<rparr>;
                     opening = [PExpect sessionID, cmd]; closing = [PCancelWaiter sessionID]
                 in if \<not> sendOk then (Some (Status Internal), opening @ closing)
                    else (case pair of
                      PairTimer \<Rightarrow> (Some (Status DeadlineExceeded), opening @ closing)
                    | PairCancelled \<Rightarrow> (Some CtxErr, opening @ closing)
                    | PairSession session \<Rightarrow>
                        if f_type (fs_first session) = RESET
                        then (if frameOk then None else Some SendErr,
                              opening @ [PSendFrame RESET, PCloseDone (fs_stream session)] @ closing)
                        else if \<not> frameOk
                        then (Some SendErr, opening @ [PSendFrame READY, PCloseDone (fs_stream session)] @ closing)
                        else (None, opening @ [PSendFrame READY, PSplice (fs_stream session),
                                PCloseDone (fs_stream session)] @ closing)))))"

section \<open>Runs of the table\<close>

datatype sessionOp =
    OpExpect string
  | OpCancel string nat
  | OpDeliver string forwardSession
  | OpReceive nat

text \<open>
  A handler cancels only the waiter it was given, with its own id. The log records the deliveries
  that were accepted and the sessions that were received, in order.
\<close>

record sessionRun =
  sr_table :: sessionTable
  sr_accepted :: "(string \<times> forwardSession) list"
  sr_received :: "(nat \<times> forwardSession) list"
  sr_refused :: "(string \<times> bool) list"

inductive session_step :: "sessionOp \<Rightarrow> sessionRun \<Rightarrow> sessionRun \<Rightarrow> bool" where
  Expect: "expect sid (sr_table s) = (w, t) \<Longrightarrow> session_step (OpExpect sid) s (s\<lparr>sr_table := t\<rparr>)"
| Cancel: "mget (st_expected (sr_table s)) w = Some sid \<Longrightarrow>
    session_step (OpCancel sid w) s (s\<lparr>sr_table := cancelWaiter sid w (sr_table s)\<rparr>)"
| Accept: "deliverSession sid session (sr_table s) = (True, t) \<Longrightarrow>
    session_step (OpDeliver sid session) s
      (s\<lparr>sr_table := t, sr_accepted := sr_accepted s @ [(sid, session)]\<rparr>)"
| Refuse: "deliverSession sid session (sr_table s) = (False, t) \<Longrightarrow>
    session_step (OpDeliver sid session) s
      (s\<lparr>sr_table := t, sr_refused := sr_refused s @ [(sid, mget (waiters (sr_table s)) sid \<noteq> None)]\<rparr>)"
| Receive: "receiveSession w (sr_table s) = Some (session, t) \<Longrightarrow>
    session_step (OpReceive w) s (s\<lparr>sr_table := t, sr_received := sr_received s @ [(w, session)]\<rparr>)"

definition session_init :: sessionRun where
  "session_init = \<lparr>sr_table = newSessionTable, sr_accepted = [], sr_received = [], sr_refused = []\<rparr>"

inductive session_reach :: "sessionRun \<Rightarrow> bool" where
  init: "session_reach session_init"
| step: "session_reach s \<Longrightarrow> session_step opn s s' \<Longrightarrow> session_reach s'"

code_pred session_step .


section \<open>Invariant of the table\<close>

lemmas session_defs = expect_def cancelWaiter_def deliverSession_def receiveSession_def Let_def

definition waiting_ok :: "sessionRun \<Rightarrow> bool" where
  "waiting_ok s \<longleftrightarrow>
     (let t = sr_table s in mwf (st_chans t) \<and>
      (\<forall>w. mget (st_chans t) w \<noteq> None \<longleftrightarrow> w < st_next t) \<and>
      (\<forall>sid w. mget (waiters t) sid = Some w \<longrightarrow>
         mget (st_expected t) w = Some sid \<and> mget (st_chans t) w = Some [] \<and> w \<notin> fst ` set (sr_received s)))"

definition handed_ok :: "sessionRun \<Rightarrow> bool" where
  "handed_ok s \<longleftrightarrow>
     (let t = sr_table s in
      (\<forall>w xs. mget (st_chans t) w = Some xs \<longrightarrow> xs = [] \<or>
         (\<exists>x sid. xs = [x] \<and> w \<notin> fst ` set (sr_received s) \<and> mget (st_expected t) w = Some sid \<and> (sid, x) \<in> set (sr_accepted s))) \<and>
      (\<forall>w x. (w, x) \<in> set (sr_received s) \<longrightarrow> w < st_next t \<and>
         (\<exists>sid. mget (st_expected t) w = Some sid \<and> (sid, x) \<in> set (sr_accepted s))) \<and>
      distinct (map fst (sr_received s)))"

definition inChans :: "sessionTable \<Rightarrow> forwardSession multiset" where
  "inChans t = mset (concat (map snd (st_chans t)))"

definition session_inv :: "sessionRun \<Rightarrow> bool" where
  "session_inv s \<longleftrightarrow> waiting_ok s \<and> handed_ok s \<and>
     mset (map snd (sr_accepted s)) = mset (map snd (sr_received s)) + inChans (sr_table s) \<and>
     (\<forall>(sid, found) \<in> set (sr_refused s). \<not> found)"

lemma mset_concat_mput:
  "mwf m \<Longrightarrow> mset (concat (map snd (mput k xs m))) + mset (case mget m k of Some ys \<Rightarrow> ys | None \<Rightarrow> []) =
     mset (concat (map snd m)) + mset xs"
proof (induction m)
  case (Cons e m)
  then show ?case by (cases e) auto
qed simp

lemma waiting_okD:
  assumes "waiting_ok s" "mget (waiters (sr_table s)) sid = Some w"
  shows "mget (st_expected (sr_table s)) w = Some sid" "mget (st_chans (sr_table s)) w = Some []"
    "w \<notin> fst ` set (sr_received s)" "w < st_next (sr_table s)"
  using assms unfolding waiting_ok_def Let_def by auto

lemma waiting_ok_chans:
  assumes "waiting_ok s"
  shows "mwf (st_chans (sr_table s))" "mget (st_chans (sr_table s)) w \<noteq> None \<longleftrightarrow> w < st_next (sr_table s)"
  using assms unfolding waiting_ok_def Let_def by auto

lemma handed_okD:
  assumes "handed_ok s" "(w, x) \<in> set (sr_received s)"
  shows "w < st_next (sr_table s)"
    "\<exists>sid. mget (st_expected (sr_table s)) w = Some sid \<and> (sid, x) \<in> set (sr_accepted s)"
  using assms unfolding handed_ok_def Let_def by blast+

lemma handed_ok_chans:
  assumes "handed_ok s" "mget (st_chans (sr_table s)) w = Some xs"
  shows "xs = [] \<or> (\<exists>x sid. xs = [x] \<and> w \<notin> fst ` set (sr_received s) \<and>
    mget (st_expected (sr_table s)) w = Some sid \<and> (sid, x) \<in> set (sr_accepted s))"
  using assms unfolding handed_ok_def Let_def by blast

text \<open>What each operation does, given the invariant.\<close>

lemma expect_fields:
  assumes "expect sid u = (w, t)"
  shows "w = st_next u" "waiters t = mput sid w (waiters u)" "st_chans t = mput w [] (st_chans u)"
    "st_next t = Suc w" "st_expected t = mput w sid (st_expected u)"
  using assms by (auto simp: session_defs)

lemma deliver_accepted:
  assumes "deliverSession sid session u = (True, t)"
  obtains w where "mget (waiters u) sid = Some w" "mget (st_chans u) w = Some []"
    "t = u\<lparr>waiters := mdel sid (waiters u), st_chans := mput w [session] (st_chans u)\<rparr>"
  using assms by (auto simp: session_defs split: option.splits if_splits)

lemma deliver_refused:
  assumes "deliverSession sid session (sr_table s) = (False, t)" "waiting_ok s"
  shows "mget (waiters (sr_table s)) sid = None \<and> t = sr_table s"
  using assms(1) waiting_okD(2) [OF assms(2), of sid] by (auto simp: session_defs split: option.splits if_splits)

lemma receive_fields:
  assumes "receiveSession w u = Some (session, t)"
  obtains rest where "mget (st_chans u) w = Some (session # rest)" "t = u\<lparr>st_chans := mput w rest (st_chans u)\<rparr>"
  using assms by (auto simp: session_defs split: option.splits list.splits)

lemma waiting_step:
  assumes "session_step opn s s'" "waiting_ok s" "handed_ok s"
  shows "waiting_ok s'"
  using assms(1)
proof cases
  case (Expect sid w t)
  note t = expect_fields [OF Expect(3)]
  have recv: "w \<notin> fst ` set (sr_received s)" using handed_okD(1) [OF assms(3)] t(1) by force
  have c1: "mget (st_chans t) v \<noteq> None \<longleftrightarrow> v < st_next t" for v
    using waiting_ok_chans(2) [OF assms(2), of v] t by (auto simp: gomap_simps less_Suc_eq)
  have c2: "mget (st_expected t) v = Some k \<and> mget (st_chans t) v = Some [] \<and> v \<notin> fst ` set (sr_received s)"
    if "mget (waiters t) k = Some v" for k v
    using that recv waiting_okD [OF assms(2), of k v] t by (cases "k = sid") (auto simp: gomap_simps)
  show ?thesis
    using Expect(2) c1 c2 waiting_ok_chans(1) [OF assms(2)] t(3) by (simp add: waiting_ok_def Let_def gomap_wf)
next
  case (Cancel w sid)
  with assms(2) show ?thesis
    by (auto simp: waiting_ok_def session_defs gomap_simps gomap_wf split: if_splits)
next
  case (Accept sid session t)
  from deliver_accepted [OF Accept(3)] obtain w where w: "mget (waiters (sr_table s)) sid = Some w"
    "mget (st_chans (sr_table s)) w = Some []"
    and t: "t = (sr_table s)\<lparr>waiters := mdel sid (waiters (sr_table s)), st_chans := mput w [session] (st_chans (sr_table s))\<rparr>" .
  have c1: "mget (st_chans t) v \<noteq> None \<longleftrightarrow> v < st_next t" for v
    using waiting_ok_chans(2) [OF assms(2), of v] w(2) t by (auto simp: gomap_simps)
  have c2: "mget (st_expected t) v = Some k \<and> mget (st_chans t) v = Some [] \<and> v \<notin> fst ` set (sr_received s)"
    if k: "mget (waiters t) k = Some v" for k v
  proof -
    have k': "k \<noteq> sid" "mget (waiters (sr_table s)) k = Some v" using k t by (auto simp: gomap_simps split: if_splits)
    moreover have "v \<noteq> w" using waiting_okD(1) [OF assms(2) k'(2)] waiting_okD(1) [OF assms(2) w(1)] k'(1) by auto
    ultimately show ?thesis using waiting_okD [OF assms(2) k'(2)] t by (simp add: gomap_simps)
  qed
  show ?thesis
    using Accept(2) c1 c2 waiting_ok_chans(1) [OF assms(2)] t by (simp add: waiting_ok_def Let_def gomap_wf)
next
  case (Refuse sid session t)
  with deliver_refused [OF Refuse(3) assms(2)] assms(2) show ?thesis by (simp add: waiting_ok_def)
next
  case (Receive w session t)
  from receive_fields [OF Receive(3)] obtain rest where r: "mget (st_chans (sr_table s)) w = Some (session # rest)"
    and t: "t = (sr_table s)\<lparr>st_chans := mput w rest (st_chans (sr_table s))\<rparr>" .
  have c1: "mget (st_chans t) v \<noteq> None \<longleftrightarrow> v < st_next t" for v
    using waiting_ok_chans(2) [OF assms(2), of v] r t by (auto simp: gomap_simps)
  have c2: "mget (st_expected t) v = Some k \<and> mget (st_chans t) v = Some [] \<and> v \<notin> fst ` set (sr_received s @ [(w, session)])"
    if k: "mget (waiters t) k = Some v" for k v
    using waiting_okD [OF assms(2), of k v] k r t by (auto simp: gomap_simps)
  show ?thesis
    using Receive(2) c1 c2 waiting_ok_chans(1) [OF assms(2)] t by (simp add: waiting_ok_def Let_def gomap_wf)
qed

lemma handed_step:
  assumes "session_step opn s s'" "waiting_ok s" "handed_ok s"
  shows "handed_ok s'"
  using assms(1)
proof cases
  case (Expect sid w t)
  note t = expect_fields [OF Expect(3)]
  have c1: "xs = [] \<or> (\<exists>x k. xs = [x] \<and> v \<notin> fst ` set (sr_received s) \<and> mget (st_expected t) v = Some k \<and> (k, x) \<in> set (sr_accepted s))"
    if "mget (st_chans t) v = Some xs" for v xs
    using that assms(3) t waiting_ok_chans(2) [OF assms(2), of v]
    by (cases "v = w") (auto simp: handed_ok_def Let_def gomap_simps)
  have c2: "v < st_next t \<and> (\<exists>k. mget (st_expected t) v = Some k \<and> (k, x) \<in> set (sr_accepted s))"
    if "(v, x) \<in> set (sr_received s)" for v x
    using handed_okD [OF assms(3) that] t by (auto simp: gomap_simps)
  show ?thesis
    using Expect(2) c1 c2 assms(3) by (simp add: handed_ok_def Let_def)
next
  case (Cancel w sid)
  with assms(3) show ?thesis by (simp add: handed_ok_def cancelWaiter_def Let_def)
next
  case (Accept sid session t)
  from deliver_accepted [OF Accept(3)] obtain w where w: "mget (waiters (sr_table s)) sid = Some w"
    "mget (st_chans (sr_table s)) w = Some []"
    and t: "t = (sr_table s)\<lparr>waiters := mdel sid (waiters (sr_table s)), st_chans := mput w [session] (st_chans (sr_table s))\<rparr>" .
  note w' = waiting_okD [OF assms(2) w(1)]
  have c1: "xs = [] \<or> (\<exists>x k. xs = [x] \<and> v \<notin> fst ` set (sr_received s) \<and> mget (st_expected t) v = Some k \<and>
      (k, x) \<in> set (sr_accepted s @ [(sid, session)]))"
    if "mget (st_chans t) v = Some xs" for v xs
    using that t w' handed_ok_chans [OF assms(3), of v xs] by (cases "v = w") (auto simp: gomap_simps)
  have c2: "v < st_next t \<and> (\<exists>k. mget (st_expected t) v = Some k \<and> (k, x) \<in> set (sr_accepted s @ [(sid, session)]))"
    if "(v, x) \<in> set (sr_received s)" for v x
    using handed_okD [OF assms(3) that] t by auto
  show ?thesis
    using Accept(2) c1 c2 assms(3) by (simp add: handed_ok_def Let_def)
next
  case (Refuse sid session t)
  with deliver_refused [OF Refuse(3) assms(2)] assms(3) show ?thesis by (simp add: handed_ok_def)
next
  case (Receive w session t)
  from receive_fields [OF Receive(3)] obtain rest where r: "mget (st_chans (sr_table s)) w = Some (session # rest)"
    and t: "t = (sr_table s)\<lparr>st_chans := mput w rest (st_chans (sr_table s))\<rparr>" .
  obtain k where k: "rest = []" "w \<notin> fst ` set (sr_received s)"
      "mget (st_expected (sr_table s)) w = Some k" "(k, session) \<in> set (sr_accepted s)"
    using handed_ok_chans [OF assms(3) r] by auto
  have c1: "xs = [] \<or> (\<exists>x k. xs = [x] \<and> v \<notin> fst ` set (sr_received s @ [(w, session)]) \<and>
      mget (st_expected t) v = Some k \<and> (k, x) \<in> set (sr_accepted s))"
    if "mget (st_chans t) v = Some xs" for v xs
    using that assms(3) t k by (cases "v = w") (auto simp: handed_ok_def Let_def gomap_simps)
  have "w < st_next t" using waiting_ok_chans(2) [OF assms(2), of w] r t by simp
  then have c2: "v < st_next t \<and> (\<exists>k. mget (st_expected t) v = Some k \<and> (k, x) \<in> set (sr_accepted s))"
    if "(v, x) \<in> set (sr_received s @ [(w, session)])" for v x
    using handed_okD [OF assms(3), of v x] that t k by auto
  have "distinct (map fst (sr_received s @ [(w, session)]))"
    using assms(3) k(2) by (simp add: handed_ok_def Let_def)
  with c1 c2 show ?thesis
    unfolding Receive(2) handed_ok_def Let_def by (simp del: set_append map_append)
qed

lemma counted_step:
  assumes "session_step opn s s'" "session_inv s"
  shows "mset (map snd (sr_accepted s')) = mset (map snd (sr_received s')) + inChans (sr_table s')"
proof -
  have wf: "mwf (st_chans (sr_table s))" and ok: "waiting_ok s"
    and eq: "mset (map snd (sr_accepted s)) = mset (map snd (sr_received s)) + inChans (sr_table s)"
    using assms(2) waiting_ok_chans(1) by (auto simp: session_inv_def)
  note put = mset_concat_mput [OF wf]
  show ?thesis
    using assms(1)
  proof cases
    case (Expect sid w t)
    note t = expect_fields [OF Expect(3)]
    have "mget (st_chans (sr_table s)) w = None" using waiting_ok_chans(2) [OF ok, of w] t(1) by auto
    with put [of w "[]"] eq Expect(2) t(3) show ?thesis by (simp add: inChans_def)
  next
    case (Cancel w sid)
    with eq show ?thesis by (simp add: inChans_def cancelWaiter_def)
  next
    case (Accept sid session t)
    from deliver_accepted [OF Accept(3)] obtain w where w: "mget (st_chans (sr_table s)) w = Some []"
      and t: "t = (sr_table s)\<lparr>waiters := mdel sid (waiters (sr_table s)), st_chans := mput w [session] (st_chans (sr_table s))\<rparr>" .
    from put [of w "[session]"] eq Accept(2) t w show ?thesis by (simp add: inChans_def)
  next
    case (Refuse sid session t)
    with deliver_refused [OF Refuse(3) ok] eq show ?thesis by simp
  next
    case (Receive w session t)
    from receive_fields [OF Receive(3)] obtain rest where r: "mget (st_chans (sr_table s)) w = Some (session # rest)"
      and t: "t = (sr_table s)\<lparr>st_chans := mput w rest (st_chans (sr_table s))\<rparr>" .
    from put [of w rest] r have "inChans (sr_table s) = inChans t + {#session#}"
      by (simp add: inChans_def t)
    with eq Receive(2) show ?thesis by simp
  qed
qed

lemma refused_step:
  assumes "session_step opn s s'" "session_inv s"
  shows "\<forall>(sid, found) \<in> set (sr_refused s'). \<not> found"
  using assms(1)
proof cases
  case (Refuse sid session t)
  with deliver_refused [OF Refuse(3)] assms(2) show ?thesis by (auto simp: session_inv_def)
qed (use assms(2) in \<open>auto simp: session_inv_def\<close>)

lemma session_reach_inv: "session_reach s \<Longrightarrow> session_inv s"
proof (induction rule: session_reach.induct)
  case init
  then show ?case
    by (simp add: session_inv_def waiting_ok_def handed_ok_def inChans_def session_init_def newSessionTable_def)
next
  case (step s opn s')
  then have "waiting_ok s'" "handed_ok s'"
    using waiting_step handed_step by (auto simp: session_inv_def)
  with counted_step [OF step(2)] refused_step [OF step(2)] step show ?case by (simp add: session_inv_def)
qed

section \<open>Session ids\<close>

lemma hexDigit_inject: "a < 16 \<Longrightarrow> b < 16 \<Longrightarrow> hexDigit a = hexDigit b \<Longrightarrow> a = b"
proof -
  assume ab: "a < 16" "b < 16" and eq: "hexDigit a = hexDigit b"
  have v: "of_char (hexDigit d) = (if d < 10 then 48 + d else 87 + d)" if "d < 16" for d :: nat
    using that by (simp add: hexDigit_def)
  from v [OF ab(1)] v [OF ab(2)] eq have "(if a < 10 then 48 + a else 87 + a) = (if b < 10 then 48 + b else 87 + b)" by simp
  with ab show "a = b" by (auto split: if_splits)
qed

lemma hexEncode_inject: "hexEncode xs = hexEncode ys \<Longrightarrow> xs = ys"
proof (induction xs arbitrary: ys)
  case Nil
  then show ?case by (cases ys) (auto simp: hexEncode_def)
next
  case (Cons x xs)
  then obtain y ys' where ys: "ys = y # ys'" by (cases ys) (auto simp: hexEncode_def)
  with Cons.prems have d: "hexDigit (of_char x div 16) = hexDigit (of_char y div 16)"
      "hexDigit (of_char x mod 16) = hexDigit (of_char y mod 16)" "hexEncode xs = hexEncode ys'"
    by (auto simp: hexEncode_def)
  have "of_char c < (256 :: nat)" for c :: char by simp
  then have lt: "of_char c div 16 < (16 :: nat)" for c :: char by (simp add: less_mult_imp_div_less)
  have "of_char x div 16 = (of_char y div 16 :: nat)" "of_char x mod 16 = (of_char y mod 16 :: nat)"
    using hexDigit_inject [OF lt lt d(1)] hexDigit_inject [OF _ _ d(2)] by auto
  then have "of_char x = (of_char y :: nat)" by (metis div_mult_mod_eq)
  then have "x = y" by simp
  with ys d(3) Cons.IH show ?case by simp
qed

section \<open>Properties\<close>


definition demo_session :: forwardSession where
  "demo_session = \<lparr>fs_stream = 7, fs_first = (mkFrame OPEN [])\<lparr>f_session_id := ''ab''\<rparr>\<rparr>"


end
