(* ===== verification/ForwardMetrics.thy ===== *)
theory ForwardMetrics
  imports Prelude
begin

text \<open>
  The failure counter of the forward plane, \<^verbatim>\<open>pkg/controller/forward_metrics.go\<close>: the reasons, the labels
  of an increment and how the public port is written in them. The counter itself is Prometheus
  code; a function that counts a failure reports the label values it increments.
\<close>

section \<open>Reasons\<close>

datatype forwardFailure =
    FailLookup | FailPortNotFound | FailPortSuspended
  | FailSessionID | FailSendCommand | FailAgentReject | FailPairTimeout | FailSplice
  | FailCrossPodDisabled | FailLocateHolder | FailHolderUnavailable | FailHolderSelf | FailRemoteOpen
  | FailListDesired
  | FailListenerBind | FailListenerClose | FailAccept

fun forwardFailureReason :: "forwardFailure \<Rightarrow> string" where
  "forwardFailureReason FailLookup = ''lookup_mapping''"
| "forwardFailureReason FailPortNotFound = ''port_not_found''"
| "forwardFailureReason FailPortSuspended = ''port_suspended''"
| "forwardFailureReason FailSessionID = ''session_id''"
| "forwardFailureReason FailSendCommand = ''send_open_forward''"
| "forwardFailureReason FailAgentReject = ''agent_rejected''"
| "forwardFailureReason FailPairTimeout = ''pair_timeout''"
| "forwardFailureReason FailSplice = ''splice''"
| "forwardFailureReason FailCrossPodDisabled = ''cross_pod_disabled''"
| "forwardFailureReason FailLocateHolder = ''locate_holder''"
| "forwardFailureReason FailHolderUnavailable = ''holder_unavailable''"
| "forwardFailureReason FailHolderSelf = ''holder_self''"
| "forwardFailureReason FailRemoteOpen = ''remote_open''"
| "forwardFailureReason FailListDesired = ''list_desired''"
| "forwardFailureReason FailListenerBind = ''listener_bind''"
| "forwardFailureReason FailListenerClose = ''listener_close''"
| "forwardFailureReason FailAccept = ''accept''"

section \<open>Increments\<close>

text \<open>The label values of one increment, in the order the counter declares its labels.\<close>

record forwardLabels =
  label_reason :: string
  label_port :: string
  label_agent :: string
  label_peer :: string

definition forwardPortLabel :: "uint32 \<Rightarrow> string" where
  "forwardPortLabel port = (if port = 0 then [] else formatUint (unat port))"

definition recordForwardFailure :: "forwardFailure \<Rightarrow> uint32 \<Rightarrow> string \<Rightarrow> string \<Rightarrow> forwardLabels" where
  "recordForwardFailure reason port agentID peer =
     \<lparr>label_reason = forwardFailureReason reason, label_port = forwardPortLabel port,
      label_agent = agentID, label_peer = peer\<rparr>"

section \<open>Lemmas\<close>

text \<open>No two steps share a series: the labels determine the reason and the port.\<close>

lemma forwardFailureReason_inject [simp]:
  "forwardFailureReason r = forwardFailureReason r' \<longleftrightarrow> r = r'"
  by (cases r; cases r') simp_all

lemma forwardPortLabel_inject [simp]: "forwardPortLabel p = forwardPortLabel q \<longleftrightarrow> p = q"
  using formatUint_inject [of "unat p" "unat q"] formatUint_not_Nil [of "unat q"] formatUint_not_Nil [of "unat p"]
  by (auto simp: forwardPortLabel_def simp del: formatUint_not_Nil intro: word_unat_eq_iff [THEN iffD2])

lemma recordForwardFailure_inject [simp]:
  "recordForwardFailure r p a peer = recordForwardFailure r' p' a' peer' \<longleftrightarrow>
     r = r' \<and> p = p' \<and> a = a' \<and> peer = peer'"
  by (simp add: recordForwardFailure_def)

end
