(* ===== verification/Listeners.thy ===== *)
theory Listeners
  imports Ports ForwardMetrics "HOL-Library.Multiset"
begin

text \<open>
  The public listeners of \<^verbatim>\<open>pkg/controller/listeners.go\<close>: \<^verbatim>\<open>reconcile\<close> and \<^verbatim>\<open>close\<close>, which
  run under the manager's mutex and so are functions of its state, and the accept loop of one
  listener. What the operating system answers (whether a listener closes, whether a port can be
  bound, what \<^verbatim>\<open>Accept\<close> returns) is an argument; the failures an operation counts are part of its
  result.
\<close>

section \<open>The manager\<close>

text \<open>A listener is named by a number; closing one succeeds, finds it closed, or fails.\<close>

datatype closeRes = CloseOk | CloseErrClosed | CloseFailed

record listenerManager =
  active :: "(uint32, nat) gomap"
  cancelled :: bool
  closeOnce :: bool
  closeErr :: "uint32 list"

definition newListenerManager :: listenerManager where
  "newListenerManager = \<lparr>active = [], cancelled = False, closeOnce = False, closeErr = []\<rparr>"

definition sortedPorts :: "uint32 list \<Rightarrow> uint32 list" where
  "sortedPorts ports = sort ports"

definition boundPortsLocked :: "listenerManager \<Rightarrow> uint32 list" where
  "boundPortsLocked m = sortedPorts (map fst (active m))"

definition boundPorts :: "listenerManager \<Rightarrow> uint32 list" where
  "boundPorts m = boundPortsLocked m"

text \<open>
  The first loop of \<^verbatim>\<open>reconcile\<close>: a listener whose close fails stays in the map, and the failure
  is counted.
\<close>

fun closeUnwanted :: "(nat \<Rightarrow> closeRes) \<Rightarrow> uint32 list \<Rightarrow> (uint32, nat) gomap \<Rightarrow>
    (uint32, nat) gomap \<times> forwardLabels list" where
  "closeUnwanted closes desired [] = ([], [])"
| "closeUnwanted closes desired ((port, l) # rest) =
     (let (act, counted) = closeUnwanted closes desired rest in
      if port \<in> set desired then ((port, l) # act, counted)
      else if closes l = CloseFailed
      then ((port, l) # act, recordForwardFailure FailListenerClose port [] [] # counted)
      else (act, counted))"

text \<open>The second loop, over the desired ports in the order of one \<^verbatim>\<open>range\<close> loop.\<close>

fun bindDesired :: "(uint32 \<Rightarrow> nat option) \<Rightarrow> uint32 list \<Rightarrow> (uint32, nat) gomap \<Rightarrow> uint32 list \<Rightarrow>
    forwardLabels list \<Rightarrow> (uint32, nat) gomap \<times> uint32 list \<times> forwardLabels list" where
  "bindDesired listen [] act failed counted = (act, failed, counted)"
| "bindDesired listen (port # rest) act failed counted =
     (if mget act port \<noteq> None then bindDesired listen rest act failed counted
      else if port = 0
      then bindDesired listen rest act (failed @ [port]) (counted @ [recordForwardFailure FailListenerBind port [] []])
      else (case listen port of
        None \<Rightarrow>
          bindDesired listen rest act (failed @ [port]) (counted @ [recordForwardFailure FailListenerBind port [] []])
      | Some l \<Rightarrow> bindDesired listen rest (mput port l act) failed counted))"

definition reconcile :: "(nat \<Rightarrow> closeRes) \<Rightarrow> (uint32 \<Rightarrow> nat option) \<Rightarrow> uint32 list \<Rightarrow> listenerManager \<Rightarrow>
    (uint32 list \<times> uint32 list) \<times> forwardLabels list \<times> listenerManager" where
  "reconcile closes listen desired m =
     (if cancelled m then (([], []), [], m)
      else
        let (kept, counted) = closeUnwanted closes desired (active m);
            (act, failed, counted') = bindDesired listen desired kept [] counted
        in ((boundPortsLocked (m\<lparr>active := act\<rparr>), sortedPorts failed), counted', m\<lparr>active := act\<rparr>))"

text \<open>\<^verbatim>\<open>close\<close> up to the wait for the accept loops; its error is the list of ports that failed.\<close>

definition close :: "(nat \<Rightarrow> closeRes) \<Rightarrow> listenerManager \<Rightarrow> uint32 list \<times> listenerManager" where
  "close closes m =
     (let m' = (if closeOnce m then m
                else m\<lparr>closeOnce := True, cancelled := True, active := [],
                       closeErr := map fst (filter (\<lambda>(_, l). closes l = CloseFailed) (active m))\<rparr>)
      in (closeErr m', m'))"

section \<open>The accept loop\<close>

text \<open>Durations in nanoseconds.\<close>

definition initialAcceptBackoff :: nat where
  "initialAcceptBackoff = 100000000"

definition maximumAcceptBackoff :: nat where
  "maximumAcceptBackoff = 1000000000"

definition nextAcceptBackoff :: "nat \<Rightarrow> nat" where
  "nextAcceptBackoff backoff =
     (if backoff \<ge> maximumAcceptBackoff div 2 then maximumAcceptBackoff else backoff * 2)"

text \<open>The \<^verbatim>\<open>select\<close> of \<^verbatim>\<open>waitAcceptRetry\<close>: the timer fired, or the manager was closed first.\<close>

datatype retrySelect = RetryTimer | RetryCtxDone

fun waitAcceptRetry :: "retrySelect \<Rightarrow> bool" where
  "waitAcceptRetry RetryTimer = True"
| "waitAcceptRetry RetryCtxDone = False"

text \<open>
  What a call of \<^verbatim>\<open>Accept\<close> returns, after an error with what ends the wait that follows. The loop
  reports what it does in order; a wait carries its duration.
\<close>

datatype acceptRes = AcceptTCP nat | AcceptOther nat | AcceptErrClosed | AcceptErr retrySelect

datatype acceptAct = Handle nat | Reject nat | CountAccept forwardLabels | Wait nat

fun accept :: "uint32 \<Rightarrow> nat \<Rightarrow> acceptRes list \<Rightarrow> acceptAct list \<times> bool" where
  "accept port backoff [] = ([], False)"
| "accept port backoff (AcceptErrClosed # rest) = ([], True)"
| "accept port backoff (AcceptErr sel # rest) =
     (let done = [CountAccept (recordForwardFailure FailAccept port [] []), Wait backoff] in
      if \<not> waitAcceptRetry sel then (done, True)
      else (case accept port (nextAcceptBackoff backoff) rest of (acts, stopped) \<Rightarrow> (done @ acts, stopped)))"
| "accept port backoff (AcceptTCP conn # rest) =
     (case accept port initialAcceptBackoff rest of (acts, stopped) \<Rightarrow> (Handle conn # acts, stopped))"
| "accept port backoff (AcceptOther conn # rest) =
     (case accept port initialAcceptBackoff rest of (acts, stopped) \<Rightarrow> (Reject conn # acts, stopped))"

section \<open>Lemmas\<close>

lemma sortedPorts_set [simp]: "set (sortedPorts ps) = set ps" "sorted (sortedPorts ps)"
  "distinct (sortedPorts ps) = distinct ps"
  by (simp_all add: sortedPorts_def)

lemma boundPorts_set: "set (boundPorts m) = dom (mget (active m))"
  by (simp add: boundPorts_def boundPortsLocked_def dom_map_of_conv_image_fst)

lemma boundPorts_sorted: "mwf (active m) \<Longrightarrow> sorted (boundPorts m) \<and> distinct (boundPorts m)"
  by (simp add: boundPorts_def boundPortsLocked_def mwf_def)

lemma closeUnwanted_eq:
  "closeUnwanted closes desired act =
     (filter (\<lambda>(port, l). port \<in> set desired \<or> closes l = CloseFailed) act,
      map (\<lambda>(port, l). recordForwardFailure FailListenerClose port [] [])
        (filter (\<lambda>(port, l). port \<notin> set desired \<and> closes l = CloseFailed) act))"
  by (induction closes desired act rule: closeUnwanted.induct) auto

text \<open>What the second loop does, port by port; each failed port is counted once.\<close>

lemma bindDesired_result:
  assumes "bindDesired listen ports act failed counted = (act', failed', counted')" "mwf act"
  shows "mwf act' \<and>
    mget act' = (\<lambda>p. case mget act p of Some l \<Rightarrow> Some l
       | None \<Rightarrow> if p \<in> set ports \<and> p \<noteq> 0 then listen p else None) \<and>
    set failed' = set failed \<union> {p \<in> set ports. mget act' p = None} \<and>
    (\<exists>new. failed' = failed @ new \<and>
       counted' = counted @ map (\<lambda>p. recordForwardFailure FailListenerBind p [] []) new)"
  using assms
proof (induction ports arbitrary: act failed counted)
  case Nil
  then show ?case by (auto split: option.splits)
next
  case (Cons port rest)
  show ?case
  proof (cases "mget act port")
    case (Some l)
    with Cons.prems Cons.IH [of act failed counted] show ?thesis
      by (auto simp: fun_eq_iff split: option.splits)
  next
    case None
    show ?thesis
    proof (cases "port = 0 \<or> listen port = None")
      case True
      with None Cons.prems have "bindDesired listen rest act (failed @ [port])
          (counted @ [recordForwardFailure FailListenerBind port [] []]) = (act', failed', counted')"
        by (auto split: option.splits if_splits)
      from Cons.IH [OF this Cons.prems(2)] None True show ?thesis
        by (auto simp: fun_eq_iff split: option.splits)
    next
      case False
      then obtain l where l: "listen port = Some l" "port \<noteq> 0" by auto
      with None Cons.prems have "bindDesired listen rest (mput port l act) failed counted = (act', failed', counted')"
        by simp
      from Cons.IH [OF this gomap_wf(2) [OF Cons.prems(2)]] l None show ?thesis
        by (auto simp: fun_eq_iff gomap_simps split: option.splits)
    qed
  qed
qed

text \<open>The calls made on a manager over its life.\<close>

datatype lmOp = LReconcile "nat \<Rightarrow> closeRes" "uint32 \<Rightarrow> nat option" "uint32 list" | LClose "nat \<Rightarrow> closeRes"

fun lm_run :: "lmOp list \<Rightarrow> listenerManager \<Rightarrow> listenerManager" where
  "lm_run [] m = m"
| "lm_run (LReconcile closes listen desired # ops) m = lm_run ops (snd (snd (reconcile closes listen desired m)))"
| "lm_run (LClose closes # ops) m = lm_run ops (snd (close closes m))"

definition lm_inv :: "listenerManager \<Rightarrow> bool" where
  "lm_inv m \<longleftrightarrow> (closeOnce m \<longrightarrow> cancelled m \<and> active m = [])"

lemma lm_run_append: "lm_run (xs @ ys) m = lm_run ys (lm_run xs m)"
  by (induction xs m rule: lm_run.induct) auto

lemma lm_run_inv: "lm_inv m \<Longrightarrow> lm_inv (lm_run ops m)"
  by (induction ops m rule: lm_run.induct)
    (auto simp: lm_inv_def reconcile_def close_def Let_def split: prod.splits)

lemma lm_run_closed: "closeOnce m \<Longrightarrow> lm_inv m \<Longrightarrow> lm_run ops m = m"
  by (induction ops m rule: lm_run.induct) (auto simp: lm_inv_def reconcile_def close_def Let_def)

fun goes_on :: "acceptRes \<Rightarrow> bool" where
  "goes_on AcceptErrClosed = False"
| "goes_on (AcceptErr sel) = waitAcceptRetry sel"
| "goes_on _ = True"

lemma backoff_after:
  "(nextAcceptBackoff ^^ n) initialAcceptBackoff = min (initialAcceptBackoff * 2 ^ n) maximumAcceptBackoff"
proof (induction n)
  case 0
  show ?case by (simp add: initialAcceptBackoff_def maximumAcceptBackoff_def)
next
  case (Suc n)
  let ?b = "initialAcceptBackoff * 2 ^ n"
  have "?b \<ge> maximumAcceptBackoff div 2 \<longleftrightarrow> 2 * ?b \<ge> maximumAcceptBackoff"
    by (auto simp: maximumAcceptBackoff_def)
  then show ?case
    using Suc.IH by (simp add: nextAcceptBackoff_def min_def maximumAcceptBackoff_def)
qed

lemma accept_failures:
  "fst (accept port b (replicate n (AcceptErr RetryTimer) @ rest)) =
     concat (map (\<lambda>k. [CountAccept (recordForwardFailure FailAccept port [] []), Wait ((nextAcceptBackoff ^^ k) b)]) [0..<n]) @
     fst (accept port ((nextAcceptBackoff ^^ n) b) rest)"
proof (induction n arbitrary: b)
  case (Suc n)
  have "[0..<Suc n] = 0 # map Suc [0..<n]" by (simp add: map_Suc_upt upt_conv_Cons)
  with Suc.IH [of "nextAcceptBackoff b"] show ?case
    by (simp add: case_prod_beta comp_def funpow_swap1 Let_def del: upt_Suc)
qed simp

lemma reconcile_post:
  assumes "mwf (active m)" "\<not> cancelled m"
    and "reconcile closes listen desired m = ((bound, failed), counted, m')"
  shows "mwf (active m') \<and> bound = boundPorts m' \<and> sorted bound \<and> distinct bound \<and> sorted failed \<and>
         set failed = {p \<in> set desired. mget (active m') p = None} \<and> cancelled m' = cancelled m \<and>
         (\<forall>p. mget (active m') p =
            (case mget (active m) p of
               Some l \<Rightarrow> if p \<in> set desired \<or> closes l = CloseFailed then Some l else None
             | None \<Rightarrow> if p \<in> set desired \<and> p \<noteq> 0 then listen p else None)) \<and>
         mset counted =
           image_mset (\<lambda>p. recordForwardFailure FailListenerBind p [] []) (mset failed) +
           image_mset (\<lambda>p. recordForwardFailure FailListenerClose p [] [])
             (mset (filter (\<lambda>p. p \<notin> set desired) bound))"
proof -
  let ?P = "\<lambda>(port, l). port \<in> set desired \<or> closes l = CloseFailed"
  let ?kept = "filter ?P (active m)"
  obtain act fl cnt where b: "bindDesired listen desired ?kept []
      (snd (closeUnwanted closes desired (active m))) = (act, fl, cnt)" by (metis prod_cases3)
  have wf: "mwf ?kept" using assms(1) by (rule gomap_wf)
  note r = bindDesired_result [OF b wf]
  have m': "m' = m\<lparr>active := act\<rparr>" "bound = boundPorts m'" "failed = sortedPorts fl" "counted = cnt"
    using assms(2,3) b by (auto simp: reconcile_def closeUnwanted_eq boundPorts_def)
  have kept: "mget ?kept p = (case mget (active m) p of None \<Rightarrow> None
      | Some l \<Rightarrow> if p \<in> set desired \<or> closes l = CloseFailed then Some l else None)" for p
    using assms(1) by (simp add: mget_filter split: option.splits)
  have get: "mget act p = (case mget (active m) p of
      Some l \<Rightarrow> if p \<in> set desired \<or> closes l = CloseFailed then Some l else None
    | None \<Rightarrow> if p \<in> set desired \<and> p \<noteq> 0 then listen p else None)" for p
    using r unfolding kept by (auto split: option.splits)
  let ?Q = "\<lambda>(port, l). port \<notin> set desired \<and> closes l = CloseFailed"
  have "p \<in> fst ` set (filter ?Q (active m)) \<longleftrightarrow> p \<notin> set desired \<and> mget act p \<noteq> None" for p
  proof -
    have "p \<in> fst ` set (filter ?Q (active m)) \<longleftrightarrow> (\<exists>l. mget (active m) p = Some l \<and> ?Q (p, l))"
      using assms(1) by (force simp flip: mwf_mget_iff)
    then show ?thesis unfolding get by (auto split: option.splits)
  qed
  then have stuck: "set (map fst (filter ?Q (active m))) = {p. p \<notin> set desired \<and> mget act p \<noteq> None}"
    unfolding set_map by blast
  have "mset (map fst (filter ?Q (active m))) = mset (filter (\<lambda>p. p \<notin> set desired) bound)"
  proof (rule set_eq_iff_mset_eq_distinct [THEN iffD1, rotated 2])
    show "distinct (map fst (filter ?Q (active m)))" using assms(1) by (simp add: mwf_def distinct_map_filter)
    show "distinct (filter (\<lambda>p. p \<notin> set desired) bound)"
      using boundPorts_sorted [of m'] r m' by simp
    show "set (map fst (filter ?Q (active m))) = set (filter (\<lambda>p. p \<notin> set desired) bound)"
      unfolding stuck m'(2) set_filter boundPorts_set m'(1) by auto
  qed
  from this [symmetric] have close: "image_mset (\<lambda>p. recordForwardFailure FailListenerClose p [] []) (mset (filter (\<lambda>p. p \<notin> set desired) bound)) =
      mset (snd (closeUnwanted closes desired (active m)))"
    by (simp add: closeUnwanted_eq comp_def case_prod_unfold image_mset.compositionality)
  have "mset counted = image_mset (\<lambda>p. recordForwardFailure FailListenerBind p [] []) (mset failed) +
      mset (snd (closeUnwanted closes desired (active m)))"
    using r unfolding m'(3,4) by (auto simp: sortedPorts_def)
  then show ?thesis unfolding close using m'(1-3) r get boundPorts_sorted [of m'] by simp
qed

section \<open>Properties\<close>

text \<open>
  (C10) \<^verbatim>\<open>reconcile\<close> converges each port on its own. A desired port that was bound keeps its listener,
  any other desired port is bound exactly when it is non-zero and the system lets it be bound, and
  is reported as failed otherwise; a port that is no longer desired stays bound only if its
  listener failed to close. The ports reported as bound are the ones that are, in ascending order
  without repetition, and no port is reported both ways. Each failure is counted once, under its
  port: a bind for every port reported as failed, a close for every port that is bound and not desired.
\<close>

theorem reconcile_converges:
  assumes "mwf (active m)" "\<not> cancelled m"
    and "reconcile closes listen desired m = ((bound, failed), counted, m')"
  shows "mwf (active m') \<and> bound = boundPorts m' \<and> sorted bound \<and> distinct bound \<and> sorted failed \<and>
         set failed = {p \<in> set desired. mget (active m') p = None} \<and>
         (\<forall>p. mget (active m') p =
            (case mget (active m) p of
               Some l \<Rightarrow> if p \<in> set desired \<or> closes l = CloseFailed then Some l else None
             | None \<Rightarrow> if p \<in> set desired \<and> p \<noteq> 0 then listen p else None)) \<and>
         mset counted =
           image_mset (\<lambda>p. recordForwardFailure FailListenerBind p [] []) (mset failed) +
           image_mset (\<lambda>p. recordForwardFailure FailListenerClose p [] [])
             (mset (filter (\<lambda>p. p \<notin> set desired) bound))"
  using reconcile_post [OF assms] by blast

theorem reconcile_converges_witness:
  "\<exists>m'. reconcile (\<lambda>l. if l = 3 then CloseFailed else CloseOk) (\<lambda>p. if p = 80 then None else Some 7) [9000, 80, 8080]
      (newListenerManager\<lparr>active := [(8080, 1), (22, 2), (23, 3)]\<rparr>) =
        (([23, 8080, 9000], [80]),
         [recordForwardFailure FailListenerClose 23 [] [], recordForwardFailure FailListenerBind 80 [] []], m') \<and>
     mget (active m') 8080 = Some 1 \<and> mget (active m') 9000 = Some 7 \<and> mget (active m') 22 = None \<and>
     mget (active m') 23 = Some 3"
proof -
  let ?c = "\<lambda>l. if l = 3 then CloseFailed else CloseOk" and ?l = "\<lambda>p. if p = 80 then None else Some 7"
  let ?m = "newListenerManager\<lparr>active := [(8080, 1), (22, 2), (23, 3)]\<rparr>"
  obtain m' where m': "reconcile ?c ?l [9000, 80, 8080] ?m =
      (([23, 8080, 9000], [80]),
       [recordForwardFailure FailListenerClose 23 [] [], recordForwardFailure FailListenerBind 80 [] []], m')"
    by (simp add: reconcile_def newListenerManager_def boundPorts_def boundPortsLocked_def sortedPorts_def)
  have "mwf (active ?m)" "\<not> cancelled ?m" by (simp_all add: newListenerManager_def)
  from reconcile_converges [OF this m'] m' show ?thesis by (simp add: newListenerManager_def)
qed

text \<open>
  Nothing is bound after \<^verbatim>\<open>close\<close>: whatever was reconciled before, whatever the listeners
  answer and whatever is called afterwards, no port is bound once the manager has been closed, and
  every later \<^verbatim>\<open>close\<close> returns the errors of the first.
\<close>

theorem close_is_final:
  "boundPorts (lm_run (before @ LClose closes # after) newListenerManager) = [] \<and>
   fst (close closes' (lm_run (before @ LClose closes # after) newListenerManager)) =
     fst (close closes (lm_run before newListenerManager))"
proof -
  let ?m = "lm_run before newListenerManager"
  have inv: "lm_inv ?m" by (rule lm_run_inv) (simp add: lm_inv_def newListenerManager_def)
  have "closeOnce (snd (close closes ?m))" by (simp add: close_def Let_def)
  moreover have "lm_inv (snd (close closes ?m))" using inv by (simp add: lm_inv_def close_def Let_def)
  ultimately have "lm_run after (snd (close closes ?m)) = snd (close closes ?m)" by (rule lm_run_closed)
  moreover have "active (snd (close closes ?m)) = []" using inv by (auto simp: lm_inv_def close_def Let_def)
  moreover have "fst (close closes' (snd (close closes ?m))) = fst (close closes ?m)"
    by (simp add: close_def Let_def)
  ultimately show ?thesis by (simp add: lm_run_append boundPorts_def boundPortsLocked_def sortedPorts_def)
qed

text \<open>
  The accept loop loses no connection: up to the call that ends it, every TCP connection accepted
  is given to the handler once and in order, every other one is closed, and the loop ends only when
  the listener was closed or the manager was closed during a wait.
\<close>

theorem accept_hands_over:
  "[c. Handle c \<leftarrow> fst (accept port backoff results)] = [c. AcceptTCP c \<leftarrow> takeWhile goes_on results] \<and>
   [c. Reject c \<leftarrow> fst (accept port backoff results)] = [c. AcceptOther c \<leftarrow> takeWhile goes_on results] \<and>
   snd (accept port backoff results) = (\<exists>r \<in> set results. \<not> goes_on r)"
proof (induction port backoff results rule: accept.induct)
  case (3 port backoff sel rest)
  then show ?case by (cases sel) (simp_all add: case_prod_beta Let_def)
qed (simp_all add: case_prod_beta)

text \<open>
  The accept loop backs off: after the \<open>k\<close>-th of \<open>n\<close> consecutive failures of \<^verbatim>\<open>Accept\<close>, each counted
  under the port, it waits 100 ms doubled \<open>k\<close> times, but never more than a second, and the connection
  accepted then is handled and resets the wait.
\<close>

theorem accept_backoff_bounded:
  "fst (accept port initialAcceptBackoff (replicate n (AcceptErr RetryTimer) @ AcceptTCP c # rest)) =
     concat (map (\<lambda>k. [CountAccept (recordForwardFailure FailAccept port [] []),
                       Wait (min (initialAcceptBackoff * 2 ^ k) maximumAcceptBackoff)]) [0..<n]) @
     Handle c # fst (accept port initialAcceptBackoff rest)"
  using accept_failures [of port initialAcceptBackoff n "AcceptTCP c # rest"]
  by (simp add: backoff_after case_prod_beta)

end
