(* ===== verification/ForwardHandler.thy ===== *)
theory ForwardHandler
  imports Sessions Tunnel Listeners Bindings Ports
begin

text \<open>
  The public side of a forwarded connection, \<^verbatim>\<open>pkg/controller/forward_handler.go\<close>, with the client of the
  peer hop (\<^verbatim>\<open>peerClients.forward\<close>) and the agent's end
  (\<^verbatim>\<open>pkg/agent/forward.go\<close>). A handler is a function of what its calls return; it yields the list of
  what it does, in order. \<^verbatim>\<open>SpliceConn\<close> is one action here: its own behaviour, closing the
  connection included, is the subject of \<open>Tunnel\<close>.
\<close>

section \<open>Actions\<close>

datatype fwdAct =
    Count forwardLabels
  | SetLinger0
  | CloseConn
  | ExpectSession string
  | CancelSession string
  | SendOpenForward string openForward
  | SpliceWith nat
  | SplicePeer string
  | CloseDone nat
  | SendPeerOpen string frame
  | CloseSend string

abbreviation countFailure :: "forwardFailure \<Rightarrow> uint32 \<Rightarrow> string \<Rightarrow> string \<Rightarrow> fwdAct" where
  "countFailure reason port agentID peer \<equiv> Count (recordForwardFailure reason port agentID peer)"

definition rstClose :: "fwdAct list" where
  "rstClose = [SetLinger0, CloseConn]"

section \<open>An agent held by this controller\<close>

text \<open>
  What the local path meets: the new session id, the result of the command's send, and which case of
  the \<^verbatim>\<open>select\<close> is taken, with the result of the splice after a pairing.
\<close>

record localEnv =
  le_sessionID :: "string option"
  le_sendOk :: bool
  le_pair :: pairEvent
  le_spliceErr :: go_err

definition handleLocal :: "localEnv \<Rightarrow> uint32 \<Rightarrow> portMapping \<Rightarrow> fwdAct list" where
  "handleLocal env port mapping =
     (case le_sessionID env of
        None \<Rightarrow> countFailure FailSessionID port (AgentID mapping) [] # rstClose
      | Some sessionID \<Rightarrow>
          [ExpectSession sessionID,
           SendOpenForward (AgentID mapping) \<lparr>of_session_id = sessionID, of_target = Target mapping\<rparr>] @
          (if \<not> le_sendOk env then countFailure FailSendCommand port (AgentID mapping) [] # rstClose
           else (case le_pair env of
             PairSession session \<Rightarrow>
               if f_type (fs_first session) = RESET
               then countFailure FailAgentReject port (AgentID mapping) [] #
                    CloseDone (fs_stream session) # rstClose
               else SpliceWith (fs_stream session) #
                    (if le_spliceErr env \<noteq> [] then [countFailure FailSplice port (AgentID mapping) []] else []) @
                    [CloseDone (fs_stream session)]
           | PairTimer \<Rightarrow> countFailure FailPairTimeout port (AgentID mapping) [] # rstClose
           | PairCancelled \<Rightarrow> rstClose)) @
          [CancelSession sessionID])"

section \<open>An agent held by another controller\<close>

text \<open>
  \<^verbatim>\<open>peerClients.forward\<close>: the results of dialling, of opening the stream, of sending the opening
  frame and of the first receive, each with its gRPC code when it fails.
\<close>

datatype forwardErr = ErrAgentNotConnected | ErrForwardReset | ErrOther

record peerEnv =
  pe_dialOk :: bool
  pe_stream :: "grpcCode option"
  pe_send :: "grpcCode option"
  pe_recv :: "grpcCode + frame"

definition notConnectedOr :: "grpcCode \<Rightarrow> forwardErr" where
  "notConnectedOr code = (if code = FailedPrecondition then ErrAgentNotConnected else ErrOther)"

definition forwardOpenFrame :: "string \<Rightarrow> string \<Rightarrow> string \<Rightarrow> frame" where
  "forwardOpenFrame agentID target sessionID =
     \<lparr>f_session_id = sessionID, f_type = OPEN, f_data = [],
      f_open = Some \<lparr>pfo_agent_id = agentID, pfo_target = target\<rparr>\<rparr>"

text \<open>With the result, what was done to the stream: the deferred function closes a stream that did not get ready.\<close>

definition forward :: "peerEnv \<Rightarrow> string \<Rightarrow> string \<Rightarrow> string \<Rightarrow> string \<Rightarrow> (forwardErr + unit) \<times> fwdAct list" where
  "forward env addr agentID target sessionID =
     (if \<not> pe_dialOk env then (Inl ErrOther, [])
      else (case pe_stream env of
        Some code \<Rightarrow> (Inl (notConnectedOr code), [])
      | None \<Rightarrow>
          (let sent = SendPeerOpen addr (forwardOpenFrame agentID target sessionID) in
           case pe_send env of
             Some code \<Rightarrow> (Inl (notConnectedOr code), [sent, CloseSend addr])
           | None \<Rightarrow>
               (case pe_recv env of
                  Inl code \<Rightarrow> (Inl (notConnectedOr code), [sent, CloseSend addr])
                | Inr response \<Rightarrow>
                    if f_type response = READY then (Inr (), [sent])
                    else if f_type response = RESET then (Inl ErrForwardReset, [sent, CloseSend addr])
                    else (Inl ErrOther, [sent, CloseSend addr])))))"

record attemptEnv =
  ae_locate :: "unit + string"
  ae_sessionID :: "string option"
  ae_peer :: peerEnv
  ae_spliceErr :: go_err

text \<open>The loop \<^verbatim>\<open>for attempt := range 2\<close>; \<open>retry\<close> is \<^verbatim>\<open>attempt == 0\<close>.\<close>

fun remoteLoop :: "string \<Rightarrow> uint32 \<Rightarrow> portMapping \<Rightarrow> attemptEnv list \<Rightarrow> bool \<Rightarrow> fwdAct list" where
  "remoteLoop selfAddr port mapping [] retry = []"
| "remoteLoop selfAddr port mapping (env # envs) retry =
     (case ae_locate env of
        Inl _ \<Rightarrow> countFailure FailLocateHolder port (AgentID mapping) [] # rstClose
      | Inr addr \<Rightarrow>
          if addr = [] then countFailure FailHolderUnavailable port (AgentID mapping) [] # rstClose
          else if addr = selfAddr then countFailure FailHolderSelf port (AgentID mapping) addr # rstClose
          else (case ae_sessionID env of
            None \<Rightarrow> countFailure FailSessionID port (AgentID mapping) addr # rstClose
          | Some sessionID \<Rightarrow>
              (case forward (ae_peer env) addr (AgentID mapping) (Target mapping) sessionID of
                 (Inl err, acts) \<Rightarrow>
                   acts @
                   (if err = ErrAgentNotConnected \<and> retry then remoteLoop selfAddr port mapping envs False
                    else countFailure FailRemoteOpen port (AgentID mapping) addr # rstClose)
               | (Inr _, acts) \<Rightarrow>
                   acts @ SplicePeer addr #
                   (if ae_spliceErr env \<noteq> [] then [countFailure FailSplice port (AgentID mapping) addr] else []) @
                   [CloseSend addr])))"

definition handleRemote :: "bool \<Rightarrow> string \<Rightarrow> attemptEnv \<Rightarrow> attemptEnv \<Rightarrow> uint32 \<Rightarrow> portMapping \<Rightarrow> fwdAct list" where
  "handleRemote peers selfAddr first second port mapping =
     (if \<not> peers then countFailure FailCrossPodDisabled port (AgentID mapping) [] # rstClose
      else remoteLoop selfAddr port mapping [first, second] True)"

section \<open>handleConn\<close>

record connEnv =
  ce_local :: "string \<Rightarrow> localEnv option"
  ce_peers :: bool
  ce_selfAddr :: string
  ce_first :: attemptEnv
  ce_second :: attemptEnv

text \<open>
  \<open>ce_local\<close> is \<^verbatim>\<open>registry.get\<close> with what the local path then meets. The deferred function closes the
  connection unless it was closed; \<open>closed\<close> is set on every path.
\<close>

definition handleConn :: "'s portStore \<Rightarrow> connEnv \<Rightarrow> uint32 \<Rightarrow> 's \<Rightarrow> fwdAct list \<times> 's" where
  "handleConn ops env port s =
     (let (r, s') = ps_lookup ops port s;
          (acts, closed) =
            (case r of
               Inl err \<Rightarrow>
                 (countFailure (if err = ErrPortNotFound then FailPortNotFound else FailLookup) port [] [] # rstClose, True)
             | Inr mapping \<Rightarrow>
                 if Suspended mapping
                 then (countFailure FailPortSuspended port (AgentID mapping) [] # rstClose, True)
                 else (case ce_local env (AgentID mapping) of
                   None \<Rightarrow> (handleRemote (ce_peers env) (ce_selfAddr env) (ce_first env) (ce_second env) port mapping, True)
                 | Some le \<Rightarrow> (handleLocal le port mapping, True)))
      in (acts @ (if closed then [] else [CloseConn]), s'))"

section \<open>The agent's end\<close>

text \<open>
  \<^verbatim>\<open>handleOpenForward\<close>, with the result of the dial, the results of opening the stream and of sending
  its first frame. \<^verbatim>\<open>reportForwardDialFailure\<close> drains its stream until a receive fails: \<open>drained\<close> is
  the number of frames before that.
\<close>

datatype dialResult = DialError | DialNotTCP | DialTCP

datatype agentFwdAct =
    Dial string
  | ACloseConn
  | AOpenStream
  | ASend frame
  | ASplice
  | ACloseSend
  | ARecv

definition firstFrame :: "string \<Rightarrow> frame_type \<Rightarrow> frame" where
  "firstFrame sessionID t = (mkFrame t [])\<lparr>f_session_id := sessionID\<rparr>"

definition reportForwardDialFailure :: "string \<Rightarrow> bool \<Rightarrow> bool \<Rightarrow> nat \<Rightarrow> agentFwdAct list" where
  "reportForwardDialFailure sessionID openOk closeSendOk drained =
     AOpenStream #
     (if \<not> openOk then []
      else [ASend (firstFrame sessionID RESET), ACloseSend] @
           (if \<not> closeSendOk then [] else replicate (Suc drained) ARecv))"

definition handleOpenForward :: "openForward \<Rightarrow> dialResult \<Rightarrow> bool \<Rightarrow> bool \<Rightarrow> bool \<Rightarrow> nat \<Rightarrow> agentFwdAct list" where
  "handleOpenForward op dial openOk sendOk closeSendOk drained =
     (let sessionID = of_session_id op; target = of_target op in
      if sessionID = [] \<or> target = [] then []
      else Dial target #
        (case dial of
           DialError \<Rightarrow> reportForwardDialFailure sessionID openOk closeSendOk drained
         | DialNotTCP \<Rightarrow> ACloseConn # reportForwardDialFailure sessionID openOk closeSendOk drained
         | DialTCP \<Rightarrow>
             AOpenStream #
             (if \<not> openOk then [ACloseConn]
              else ASend (firstFrame sessionID OPEN) #
                (if \<not> sendOk then [ACloseConn] else [ASplice, ACloseSend]))))"

section \<open>The reconciler\<close>

text \<open>
  One round of \<^verbatim>\<open>runPortReconciler\<close>: list, reconcile, report, with the failures it counts. \<open>R\<close> is the
  Redis client of the binding tracker, absent in single-replica mode.
\<close>

definition reconcileRound :: "'s portStore \<Rightarrow> 'r redisClient option \<Rightarrow> string \<Rightarrow> (nat \<Rightarrow> closeRes) \<Rightarrow>
    (uint32 \<Rightarrow> nat option) \<Rightarrow> 's \<times> listenerManager \<times> 'r \<Rightarrow> forwardLabels list \<times> 's \<times> listenerManager \<times> 'r" where
  "reconcileRound ops R selfAddr closes listen = (\<lambda>(s, m, r).
     (let (d, s') = ps_desired ops s;
          (counted, m') =
            (case d of
               Inl _ \<Rightarrow> ([recordForwardFailure FailListDesired 0 [] []], m)
             | Inr desired \<Rightarrow> snd (reconcile closes listen (map fst desired) m));
          r' = (case R of None \<Rightarrow> r | Some client \<Rightarrow> reportBound client selfAddr (boundPorts m') r)
      in (counted, s', m', r')))"

section \<open>What the handlers do with the connection\<close>

fun ends_conn :: "fwdAct \<Rightarrow> bool" where
  "ends_conn CloseConn = True"
| "ends_conn (SpliceWith w) = True"
| "ends_conn (SplicePeer a) = True"
| "ends_conn _ = False"

fun reads_conn :: "fwdAct \<Rightarrow> bool" where
  "reads_conn (SpliceWith w) = True"
| "reads_conn (SplicePeer a) = True"
| "reads_conn _ = False"

fun counts :: "fwdAct \<Rightarrow> bool" where
  "counts (Count labels) = True"
| "counts _ = False"

abbreviation how_many :: "(fwdAct \<Rightarrow> bool) \<Rightarrow> fwdAct list \<Rightarrow> nat" where
  "how_many P acts \<equiv> length (filter P acts)"

named_theorems fwd_simps \<open>the actions of the forward handlers, unfolded\<close>

declare rstClose_def [fwd_simps] handleLocal_def [fwd_simps]
  handleRemote_def [fwd_simps] handleConn_def [fwd_simps] forward_def [fwd_simps] notConnectedOr_def [fwd_simps]

lemmas fwd_splits = option.splits sum.splits if_splits prod.splits pairEvent.splits

lemma forward_acts:
  assumes "forward env addr agentID target sessionID = (r, acts)"
  shows "how_many ends_conn acts = 0" "how_many counts acts = 0" "how_many reads_conn acts = 0"
    "r = Inr () \<Longrightarrow> acts = [SendPeerOpen addr (forwardOpenFrame agentID target sessionID)]"
    "\<And>w. CloseDone w \<notin> set acts"
  using assms by (auto simp: forward_def Let_def split: fwd_splits)

lemma handleLocal_acts:
  shows "how_many ends_conn (handleLocal env port m) = 1" "how_many counts (handleLocal env port m) \<le> 1"
    "how_many reads_conn (handleLocal env port m) \<le> 1"
  by (auto simp: fwd_simps split: fwd_splits)

text \<open>With an environment for each attempt the loop ends in one of its returns.\<close>

lemma remoteLoop_acts:
  assumes "envs \<noteq> []" "retry \<longrightarrow> tl envs \<noteq> []"
  shows "how_many ends_conn (remoteLoop self port m envs retry) = 1 \<and>
         how_many counts (remoteLoop self port m envs retry) \<le> 1 \<and>
         how_many reads_conn (remoteLoop self port m envs retry) \<le> 1 \<and>
         (\<forall>w. CloseDone w \<notin> set (remoteLoop self port m envs retry))"
  using assms
proof (induction self port m envs retry rule: remoteLoop.induct)
  case (2 self port m env envs retry)
  show ?case
  proof (cases "\<exists>addr sid. ae_locate env = Inr addr \<and> addr \<noteq> [] \<and> addr \<noteq> self \<and> ae_sessionID env = Some sid")
    case False
    then show ?thesis by (auto simp: rstClose_def split: fwd_splits)
  next
    case True
    then obtain addr sid where a: "ae_locate env = Inr addr" "addr \<noteq> []" "addr \<noteq> self" "ae_sessionID env = Some sid"
      by blast
    obtain r acts where f: "forward (ae_peer env) addr (AgentID m) (Target m) sid = (r, acts)" by fastforce
    note facts = forward_acts [OF f]
    have ih: "how_many ends_conn (remoteLoop self port m envs False) = 1 \<and>
        how_many counts (remoteLoop self port m envs False) \<le> 1 \<and>
        how_many reads_conn (remoteLoop self port m envs False) \<le> 1 \<and>
        (\<forall>w. CloseDone w \<notin> set (remoteLoop self port m envs False))"
      if "r = Inl ErrAgentNotConnected" "retry"
      using 2 a f that by (auto simp del: remoteLoop.simps)
    show ?thesis
    proof (cases "r = Inl ErrAgentNotConnected \<and> retry")
      case True
      with ih facts a f show ?thesis by simp
    next
      case False
      with facts a f show ?thesis
        by (cases r) (auto simp: rstClose_def)
    qed
  qed
qed simp

lemma handleRemote_acts:
  shows "how_many ends_conn (handleRemote peers self e1 e2 port m) = 1"
    "how_many counts (handleRemote peers self e1 e2 port m) \<le> 1"
    "how_many reads_conn (handleRemote peers self e1 e2 port m) \<le> 1"
    "CloseDone w \<notin> set (handleRemote peers self e1 e2 port m)"
  using remoteLoop_acts [of "[e1, e2]" True self port m]
  by (auto simp: handleRemote_def rstClose_def simp del: remoteLoop.simps)


section \<open>The two ends of the peer hop\<close>

text \<open>
  What the client receives first from a run of the server: its first frame, or else the code of its
  status. A handler that returns nil without a frame ends the stream, which the client sees as an
  error without a status (\<open>OtherCode 2\<close>, Unknown), as it does with an error that is no status.
\<close>

definition peerReply :: "rpcErr option \<times> peerAct list \<Rightarrow> grpcCode + frame" where
  "peerReply run =
     (case [t. PSendFrame t \<leftarrow> snd run] of
        t # _ \<Rightarrow> Inr (mkFrame t [])
      | [] \<Rightarrow> (case fst run of Some (Status code) \<Rightarrow> Inl code | _ \<Rightarrow> Inl (OtherCode 2)))"

lemma peerForward_open:
  assumes "agentID \<noteq> []" "target \<noteq> []" "sessionID \<noteq> []"
  shows "receiveAndValidateOpenFrame (FirstFrame (forwardOpenFrame agentID target sessionID)) =
    Inr (forwardOpenFrame agentID target sessionID)"
  using assms by (simp add: receiveAndValidateOpenFrame_def forwardOpenFrame_def)

section \<open>Properties\<close>


definition demo_local :: localEnv where
  "demo_local = \<lparr>le_sessionID = Some ''ab'', le_sendOk = True, le_pair = PairSession demo_session, le_spliceErr = []\<rparr>"

definition demo_attempt :: attemptEnv where
  "demo_attempt = \<lparr>ae_locate = Inr [], ae_sessionID = None,
     ae_peer = \<lparr>pe_dialOk = False, pe_stream = None, pe_send = None, pe_recv = Inl Internal\<rparr>, ae_spliceErr = []\<rparr>"

definition demo_env :: connEnv where
  "demo_env = \<lparr>ce_local = (\<lambda>_. Some demo_local), ce_peers = False, ce_selfAddr = [], ce_first = demo_attempt, ce_second = demo_attempt\<rparr>"


text \<open>
  (C17) The peer hop. The opening frame of \<^verbatim>\<open>peerClients.forward\<close> is one the sibling's handler accepts, the
  command it then sends carries the same target and session, and with the sibling's reply the
  client gets a stream exactly when the sibling paired with an agent stream that was not reset; an
  agent the sibling no longer holds is what the client reports as not connected, so that it is
  looked up once more.
\<close>

theorem peer_hop:
  assumes "agentID \<noteq> []" "target \<noteq> []" "sessionID \<noteq> []"
    and "run = peerForward (FirstFrame (forwardOpenFrame agentID target sessionID)) held sendOk pair frameOk"
    and "frameOk"
    and "client = forward \<lparr>pe_dialOk = True, pe_stream = None, pe_send = None, pe_recv = peerReply run\<rparr>
           addr agentID target sessionID"
  shows "(fst client = Inr () \<longleftrightarrow> held \<and> sendOk \<and>
            (\<exists>session. pair = PairSession session \<and> f_type (fs_first session) \<noteq> RESET)) \<and>
         (fst client = Inl ErrAgentNotConnected \<longleftrightarrow> \<not> held) \<and>
         [c. PSendCommand c \<leftarrow> snd run] =
           (if held then [\<lparr>of_session_id = sessionID, of_target = target\<rparr>] else []) \<and>
         (\<forall>session. PSplice (fs_stream session) \<in> set (snd run) \<longrightarrow> fst client = Inr ())"
proof -
  have op: "f_session_id (forwardOpenFrame agentID target sessionID) = sessionID"
      "f_open (forwardOpenFrame agentID target sessionID) = Some \<lparr>pfo_agent_id = agentID, pfo_target = target\<rparr>"
    by (simp_all add: forwardOpenFrame_def)
  show ?thesis
    unfolding assms(4,6)
    using assms(5) peerForward_open [OF assms(1-3)] op
    by (cases held; cases sendOk; cases pair)
      (auto simp: peerForward_def peerReply_def forward_def notConnectedOr_def Let_def)
qed

theorem peer_hop_witness:
  "fst (forward \<lparr>pe_dialOk = True, pe_stream = None, pe_send = None,
       pe_recv = peerReply (peerForward (FirstFrame (forwardOpenFrame ''a'' ''t:80'' ''ab'')) True True (PairSession demo_session) True)\<rparr>
     ''pod-b'' ''a'' ''t:80'' ''ab'') = Inr ()"
proof -
  have "f_type (fs_first demo_session) \<noteq> RESET" by (simp add: demo_session_def)
  with peer_hop [of "''a''" "''t:80''" "''ab''" _ True True "PairSession demo_session" True _ "''pod-b''", OF _ _ _ refl _ refl]
  show ?thesis by blast
qed

text \<open>
  The agent's answer to an OpenForward command with a session and a target: whatever fails, at most
  one first frame is sent, it carries the session id and the controller's Forward handler accepts it, it
  is OPEN exactly when the target was dialled, and a dialled connection is closed exactly once.
\<close>

theorem agent_answers_open:
  assumes "of_session_id op \<noteq> []" "of_target op \<noteq> []"
    and "acts = handleOpenForward op dial openOk sendOk closeSendOk drained"
  shows "[f. ASend f \<leftarrow> acts] = (if openOk then [firstFrame (of_session_id op) (if dial = DialTCP then OPEN else RESET)] else []) \<and>
         (\<forall>f. ASend f \<in> set acts \<longrightarrow> Forward_first (FirstFrame f) = Inr f \<and> f_session_id f = of_session_id op) \<and>
         length (filter (\<lambda>a. a = ACloseConn \<or> a = ASplice) acts) = (if dial = DialError then 0 else 1)"
  using assms
  by (cases dial) (auto simp: handleOpenForward_def reportForwardDialFailure_def firstFrame_def Forward_first_def Let_def)

theorem agent_answers_open_witness:
  "[f. ASend f \<leftarrow> handleOpenForward \<lparr>of_session_id = ''ab'', of_target = ''t:80''\<rparr> DialTCP True True True 0] =
     [firstFrame ''ab'' OPEN]"
  using agent_answers_open [of "\<lparr>of_session_id = ''ab'', of_target = ''t:80''\<rparr>" _ DialTCP True True True 0, OF _ _ refl] by simp

end
