(* ===== verification/Composition.thy ===== *)
theory Composition
  imports Forwards ForwardHandler
begin

text \<open>
  The components together: a forward created through the REST API, a round of the reconciler over
  the listeners, and the listing that reports the forward's state.
\<close>

section \<open>A round of the reconciler\<close>

lemma reconcileRound_bound:
  assumes "mwf (active m)" "\<not> cancelled m"
    and "reconcileRound memPortStoreOps R self closes listen (s, m, r) = (counted, s', m', r')"
  shows "s' = s \<and> mwf (active m') \<and>
    (\<forall>p. mget (active m') p =
       (case mget (active m) p of
          Some l \<Rightarrow> if mem_view s p \<noteq> None \<or> closes l = CloseFailed then Some l else None
        | None \<Rightarrow> if mem_view s p \<noteq> None \<and> p \<noteq> 0 then listen p else None))"
proof -
  obtain bound failed cs m1 where rec: "reconcile closes listen (map fst (mappings s)) m = ((bound, failed), cs, m1)"
    by (metis prod.collapse)
  with assms(3) have "s' = s" "m1 = m'" by (auto simp: reconcileRound_def memPortStoreOps_def mem_desired_def Let_def)
  have mem: "p \<in> set (map fst (mappings s)) \<longleftrightarrow> mem_view s p \<noteq> None" for p
    by (metis domIff dom_map_of_conv_image_fst set_map)
  from reconcile_post [OF assms(1,2) rec] \<open>s' = s\<close> \<open>m1 = m'\<close> show ?thesis unfolding mem by blast
qed

lemma listAgentForwards_local:
  assumes "mem_inv s"
  shows "\<exists>fs. listAgentForwards (Some memPortStoreOps) (Some None) budget local a s r = ((200, ForwardList fs), s, r) \<and>
    set fs = {\<lparr>fr_port = p, fr_state = Some (if Suspended m then SuspendedState
        else if p \<in> set local then Active else Pending), fr_mapping = m\<rparr> | p m.
        mem_view s p = Some m \<and> (a = [] \<or> AgentID m = a)}"
proof -
  obtain st where st: "states (Some None) budget local (mappings s) r = (Inr st, r)"
    and v: "mget st = (\<lambda>p. map_option (\<lambda>m. if Suspended m then SuspendedState
             else if p \<in> set local then Active else Pending) (mget (mappings s) p))"
    using states_by_local [OF assms, where budget = budget and local = local and r = r] by blast
  have "listAgentForwards (Some memPortStoreOps) (Some None) budget local a s r =
      ((200, ForwardList (forwardResponses (mappings s) st a)), s, r)"
    using st by (simp add: listAgentForwards_def fetchForwards_def memPortStoreOps_def mem_desired_def)
  moreover from v have "mget st = (\<lambda>p. map_option ((\<lambda>p m. if Suspended m then SuspendedState
             else if p \<in> set local then Active else Pending) p) (mget (mappings s) p))" by simp
  from forwardResponses_set [OF assms this, of a]
  have "set (forwardResponses (mappings s) st a) = {\<lparr>fr_port = p, fr_state = Some (if Suspended m then SuspendedState
        else if p \<in> set local then Active else Pending), fr_mapping = m\<rparr> | p m.
        mem_view s p = Some m \<and> (a = [] \<or> AgentID m = a)}" .
  ultimately show ?thesis by blast
qed

section \<open>Properties\<close>

text \<open>
  From the REST call to an active forward, in single-replica mode: when a forward has been created
  and a round of the reconciler has run, with the system letting the port be bound, the listing of
  the agent's forwards answers 200, contains the forward as active, and contains only forwards of
  this agent.
\<close>

theorem created_forward_becomes_active:
  assumes "mem_inv s" "mwf (active m)" "\<not> cancelled m"
    and "createForward (Some memPortStoreOps) cfg a body s = ((201, OneForward fwd), s1)"
    and "reconcileRound memPortStoreOps None self closes listen (s1, m, r) = (cs, s2, m2, r2)"
    and "mget (active m) (fr_port fwd) \<noteq> None \<or> listen (fr_port fwd) \<noteq> None"
  shows "\<exists>fs. listAgentForwards (Some memPortStoreOps) (Some None) budget (boundPorts m2) a s2 r2 =
             ((200, ForwardList fs), s2, r2) \<and>
           fwd\<lparr>fr_state := Some Active\<rparr> \<in> set fs \<and>
           (a \<noteq> [] \<longrightarrow> (\<forall>f \<in> set fs. AgentID (fr_mapping f) = a))"
proof -
  from mem.createForward_post [OF assms(1,4)] obtain p mp where inv: "mem_inv s1"
    and fwd: "fwd = \<lparr>fr_port = p, fr_state = Some Pending, fr_mapping = mp\<rparr>" "p \<noteq> 0"
    and mp: "AgentID mp = a" "\<not> Suspended mp" and view: "mem_view s1 = (mem_view s)(p \<mapsto> mp)"
    by (auto simp: create_post_def Let_def split: if_splits)
  from reconcileRound_bound [OF assms(2,3,5)] have s2: "s2 = s1"
    and act: "\<And>q. mget (active m2) q =
       (case mget (active m) q of
          Some l \<Rightarrow> if mem_view s1 q \<noteq> None \<or> closes l = CloseFailed then Some l else None
        | None \<Rightarrow> if mem_view s1 q \<noteq> None \<and> q \<noteq> 0 then listen q else None)" by blast+
  have "mget (active m2) p \<noteq> None"
    using act [of p] assms(6) fwd view by (auto split: option.splits)
  then have bound: "p \<in> set (boundPorts m2)" by (auto simp: boundPorts_set)
  from listAgentForwards_local [OF inv, of budget "boundPorts m2" a r2] obtain fs where
    l: "listAgentForwards (Some memPortStoreOps) (Some None) budget (boundPorts m2) a s1 r2 = ((200, ForwardList fs), s1, r2)"
    and fs: "set fs = {\<lparr>fr_port = p, fr_state = Some (if Suspended m then SuspendedState
        else if p \<in> set (boundPorts m2) then Active else Pending), fr_mapping = m\<rparr> | p m.
        mem_view s1 p = Some m \<and> (a = [] \<or> AgentID m = a)}" by blast
  have "fwd\<lparr>fr_state := Some Active\<rparr> \<in> set fs"
    unfolding fs fwd using bound mp view by auto
  with l fs s2 show ?thesis by auto
qed

theorem created_forward_becomes_active_witness:
  "\<exists>fwd s1 cs s2 m2 r2 fs. createForward (Some memPortStoreOps) \<lparr>cfg_from = 1025, cfg_to = 2025\<rparr> ''agent-1''
      (Some demo_create) newMemPortStore = ((201, OneForward fwd), s1) \<and>
     reconcileRound memPortStoreOps None [] (\<lambda>_. CloseOk) (\<lambda>_. Some 1) (s1, newListenerManager, ()) = (cs, s2, m2, r2) \<and>
     listAgentForwards (Some memPortStoreOps) (Some None) 1 (boundPorts m2) ''agent-1'' s2 r2 = ((200, ForwardList fs), s2, r2) \<and>
     fwd\<lparr>fr_state := Some Active\<rparr> \<in> set fs"
proof -
  have split: "SplitHostPort ''172.30.1.5:8080'' = Inr (''172.30.1.5'', ''8080'')" by code_simp
  have "bindCreateForwardRequest \<lparr>cfg_from = 1025, cfg_to = 2025\<rparr> (Some demo_create) = Inr demo_create"
    by (simp add: bindCreateForwardRequest_def validForwardTarget_def split demo_create_def parseUint_def
        isDigit_def digitVal_def)
  then obtain fwd s1 where c: "createForward (Some memPortStoreOps) \<lparr>cfg_from = 1025, cfg_to = 2025\<rparr> ''agent-1''
      (Some demo_create) newMemPortStore = ((201, OneForward fwd), s1)"
    by (simp add: createForward_def allocationRange_def demo_create_def memPortStoreOps_def mem_allocate_def
        validatePortRange_def maximumPublicPort_def newMemPortStore_def allocLoop.simps [of _ 1025] Let_def)
  obtain cs s2 m2 r2 where r: "reconcileRound memPortStoreOps None [] (\<lambda>_. CloseOk) (\<lambda>_. Some 1) (s1, newListenerManager, ()) = (cs, s2, m2, r2)"
    by (metis prod_cases4)
  have "mem_inv newMemPortStore" "mwf (active newListenerManager)" "\<not> cancelled newListenerManager"
    by (simp_all add: newMemPortStore_def newListenerManager_def)
  from created_forward_becomes_active [OF this c r, of 1] c r show ?thesis by blast
qed

end
