(* ===== verification/AgentConn.thy ===== *)
theory AgentConn
  imports Messages "HOL-Library.Sublist"
begin

text \<open>
  \<^verbatim>\<open>agentConn\<close> of \<^verbatim>\<open>pkg/controller/registry.go\<close>: one agent's Control stream, the dispatchers that
  wait on it, the receive loop that routes results and progress to them, and the teardown. All of
  them run concurrently; the model interleaves them. A step is one critical section under the
  connection's mutex, one channel operation or one send on the stream, and each goroutine's place
  in its code is part of the state. Channels are cells of a heap, so that the same channel can be
  held by the table, by a waiting dispatcher and by a delivery under way.
\<close>

section \<open>State\<close>

record streamFrame =
  sf_payload :: bytes
  sf_code :: uint32
  sf_error :: string
  sf_final :: bool

text \<open>A unary result channel: its buffer of one and whether it has been closed.\<close>

record resultChan =
  rc_buf :: "agentResult option"
  rc_closed :: bool

text \<open>
  \<open>sr_ch\<close> is the buffer of the frame channel, \<open>sr_done\<close> whether \<^verbatim>\<open>done\<close> is closed. \<open>sr_log\<close> is no
  part of the code: it records every frame that the receive loop set out to deliver here.
\<close>

record streamReg =
  sr_ch :: "streamFrame list"
  sr_done :: bool
  sr_reliable :: bool
  sr_log :: "streamFrame list"

datatype dispatch_error = ErrDisconnected | ErrContext | ErrSendCommand

datatype outcome = OutErr dispatch_error | OutResult agentResult | OutCancelled

datatype callKind = KUnary | KStream | KUpload

text \<open>
  Where a call of \<^verbatim>\<open>dispatch\<close>, \<^verbatim>\<open>dispatchStream\<close> or \<^verbatim>\<open>dispatchUpload\<close> is. The number is the
  call's channel. \<open>Leaving\<close> is before the deferred removal of the table entry; \<open>Consuming\<close> is a
  stream handed to its consumer; \<open>CancelClosing\<close> and \<open>CancelSending\<close> are inside the cancel function.
\<close>

datatype callPc =
    Begun
  | Sending nat
  | Uploading nat
  | Awaiting nat
  | Leaving outcome
  | Consuming nat
  | CancelLock nat outcome
  | CancelClosing nat bool outcome
  | CancelSending outcome
  | Finished outcome

record call =
  c_kind :: callKind
  c_method :: string
  c_payload :: bytes
  c_pc :: callPc
  c_got :: "streamFrame list"

text \<open>The receive loop of \<^verbatim>\<open>Control\<close>: idle, or inside a delivery with the channel it looked up.\<close>

datatype loopPc = LIdle | LUnary nat agentResult | LStream nat streamFrame

record agentConn =
  seq :: "64 word"
  pending :: "(string, nat) gomap"
  pendingStream :: "(string, nat) gomap"
  closed :: bool
  chans :: "(nat, resultChan) gomap"
  regs :: "(nat, streamReg) gomap"
  nextRef :: nat
  calls :: "(64 word, call) gomap"
  loop :: loopPc
  closing :: "nat list"
  wire :: "command list"
  panicked :: bool

definition newAgentConn :: agentConn where
  "newAgentConn =
     \<lparr>seq = 0, pending = [], pendingStream = [], closed = False, chans = [], regs = [], nextRef = 0,
      calls = [], loop = LIdle, closing = [], wire = [], panicked = False\<rparr>"

definition requestID :: "64 word \<Rightarrow> string" where
  "requestID i = formatUint (unat i)"

definition streamReliable :: "string \<Rightarrow> bool" where
  "streamReliable m \<longleftrightarrow> m = ''fs.read'' \<or> m = ''metrics.scrape'' \<or> m = ''containers.logs''"

definition frameCap :: nat where
  "frameCap = 64"

section \<open>Steps\<close>

definition set_pc :: "64 word \<Rightarrow> callPc \<Rightarrow> agentConn \<Rightarrow> agentConn" where
  "set_pc i pc s =
     (case mget (calls s) i of
        None \<Rightarrow> s
      | Some c \<Rightarrow> s\<lparr>calls := mput i (c\<lparr>c_pc := pc\<rparr>) (calls s)\<rparr>)"

text \<open>The atomic \<^verbatim>\<open>seq.Add\<close> at the start of a call.\<close>

definition begin_call :: "callKind \<Rightarrow> string \<Rightarrow> bytes \<Rightarrow> agentConn \<Rightarrow> agentConn" where
  "begin_call kind method payload s =
     s\<lparr>seq := seq s + 1,
       calls := mput (seq s + 1)
         \<lparr>c_kind = kind, c_method = method, c_payload = payload, c_pc = Begun, c_got = []\<rparr> (calls s)\<rparr>"

text \<open>The critical section that registers the call, or finds the connection closed.\<close>

definition register_call :: "64 word \<Rightarrow> agentConn \<Rightarrow> agentConn option" where
  "register_call i s =
     (case mget (calls s) i of
        Some c \<Rightarrow>
          if c_pc c \<noteq> Begun then None
          else if closed s then Some (set_pc i (Finished (OutErr ErrDisconnected)) s)
          else let ch = nextRef s; s1 = s\<lparr>nextRef := Suc ch\<rparr> in
            Some (set_pc i (Sending ch)
              (if c_kind c = KStream
               then s1\<lparr>pendingStream := mput (requestID i) ch (pendingStream s),
                       regs := mput ch \<lparr>sr_ch = [], sr_done = False,
                                 sr_reliable = streamReliable (c_method c), sr_log = []\<rparr> (regs s)\<rparr>
               else s1\<lparr>pending := mput (requestID i) ch (pending s),
                       chans := mput ch \<lparr>rc_buf = None, rc_closed = False\<rparr> (chans s)\<rparr>))
      | None \<Rightarrow> None)"

text \<open>The send of the opening request: on success the call waits, streams or uploads.\<close>

text \<open>
  \<^verbatim>\<open>agentConn.send\<close> writes one command under \<^verbatim>\<open>sendMu\<close>, so commands reach the stream one after the other;
  \<open>ok\<close> is whether the stream's \<^verbatim>\<open>Send\<close> succeeded.
\<close>

definition conn_send :: "command \<Rightarrow> bool \<Rightarrow> agentConn \<Rightarrow> agentConn" where
  "conn_send cmd ok s = (if ok then s\<lparr>wire := wire s @ [cmd]\<rparr> else s)"

declare conn_send_def [simp]

definition send_request :: "64 word \<Rightarrow> bool \<Rightarrow> agentConn \<Rightarrow> agentConn option" where
  "send_request i ok s =
     (case mget (calls s) i of
        Some c \<Rightarrow>
          (case c_pc c of
             Sending ch \<Rightarrow>
               if ok then
                 Some (set_pc i (case c_kind c of KUnary \<Rightarrow> Awaiting ch | KStream \<Rightarrow> Consuming ch | KUpload \<Rightarrow> Uploading ch)
                   (conn_send (CmdRequest \<lparr>rq_request_id = requestID i, rq_method = c_method c,
                                            rq_payload = c_payload c\<rparr>) ok s))
               else
                 Some (set_pc i (case c_kind c of KStream \<Rightarrow> CancelLock ch (OutErr ErrSendCommand)
                                 | _ \<Rightarrow> Leaving (OutErr ErrSendCommand)) s)
           | _ \<Rightarrow> None)
      | None \<Rightarrow> None)"

definition sendChunk :: "64 word \<Rightarrow> bytes \<Rightarrow> bool \<Rightarrow> bool \<Rightarrow> agentConn \<Rightarrow> agentConn option" where
  "sendChunk i data isLast ok s =
     (case mget (calls s) i of
        Some c \<Rightarrow>
          (case c_pc c of
             Uploading ch \<Rightarrow>
               Some (conn_send (CmdChunk \<lparr>ck_request_id = requestID i, ck_data = data, ck_last = isLast\<rparr>) ok s)
           | _ \<Rightarrow> None)
      | None \<Rightarrow> None)"

definition start_await :: "64 word \<Rightarrow> agentConn \<Rightarrow> agentConn option" where
  "start_await i s =
     (case mget (calls s) i of
        Some c \<Rightarrow> (case c_pc c of Uploading ch \<Rightarrow> Some (set_pc i (Awaiting ch) s) | _ \<Rightarrow> None)
      | None \<Rightarrow> None)"

text \<open>
  The select of \<^verbatim>\<open>dispatch\<close> and \<^verbatim>\<open>await\<close>: the context ended, or a receive on the result channel,
  which returns a buffered result first and \<^verbatim>\<open>!ok\<close> once the channel is closed and empty.
\<close>

definition await_ctx :: "64 word \<Rightarrow> agentConn \<Rightarrow> agentConn option" where
  "await_ctx i s =
     (case mget (calls s) i of
        Some c \<Rightarrow> (case c_pc c of Awaiting ch \<Rightarrow> Some (set_pc i (Leaving (OutErr ErrContext)) s) | _ \<Rightarrow> None)
      | None \<Rightarrow> None)"

definition await_recv :: "64 word \<Rightarrow> agentConn \<Rightarrow> agentConn option" where
  "await_recv i s =
     (case mget (calls s) i of
        Some c \<Rightarrow>
          (case c_pc c of
             Awaiting ch \<Rightarrow>
               (case mget (chans s) ch of
                  Some rc \<Rightarrow>
                    (case rc_buf rc of
                       Some r \<Rightarrow> Some (set_pc i (Leaving (OutResult r))
                                  (s\<lparr>chans := mput ch (rc\<lparr>rc_buf := None\<rparr>) (chans s)\<rparr>))
                     | None \<Rightarrow> if rc_closed rc then Some (set_pc i (Leaving (OutErr ErrDisconnected)) s) else None)
                | None \<Rightarrow> None)
           | _ \<Rightarrow> None)
      | None \<Rightarrow> None)"

text \<open>The deferred removal of the table entry.\<close>

definition leave_call :: "64 word \<Rightarrow> agentConn \<Rightarrow> agentConn option" where
  "leave_call i s =
     (case mget (calls s) i of
        Some c \<Rightarrow>
          (case c_pc c of
             Leaving out \<Rightarrow> Some (set_pc i (Finished out) (s\<lparr>pending := mdel (requestID i) (pending s)\<rparr>))
           | _ \<Rightarrow> None)
      | None \<Rightarrow> None)"

text \<open>The consumer of a stream receives a frame, or calls cancel.\<close>

definition stream_recv :: "64 word \<Rightarrow> agentConn \<Rightarrow> agentConn option" where
  "stream_recv i s =
     (case mget (calls s) i of
        Some c \<Rightarrow>
          (case c_pc c of
             Consuming ch \<Rightarrow>
               (case mget (regs s) ch of
                  Some r \<Rightarrow>
                    (case sr_ch r of
                       f # fs \<Rightarrow> Some (s\<lparr>regs := mput ch (r\<lparr>sr_ch := fs\<rparr>) (regs s),
                                        calls := mput i (c\<lparr>c_got := c_got c @ [f]\<rparr>) (calls s)\<rparr>)
                     | [] \<Rightarrow> None)
                | None \<Rightarrow> None)
           | _ \<Rightarrow> None)
      | None \<Rightarrow> None)"

definition call_cancel :: "64 word \<Rightarrow> agentConn \<Rightarrow> agentConn option" where
  "call_cancel i s =
     (case mget (calls s) i of
        Some c \<Rightarrow> (case c_pc c of Consuming ch \<Rightarrow> Some (set_pc i (CancelLock ch OutCancelled) s) | _ \<Rightarrow> None)
      | None \<Rightarrow> None)"

definition cancel_lock :: "64 word \<Rightarrow> agentConn \<Rightarrow> agentConn option" where
  "cancel_lock i s =
     (case mget (calls s) i of
        Some c \<Rightarrow>
          (case c_pc c of
             CancelLock ch out \<Rightarrow>
               let live = (mget (pendingStream s) (requestID i) = Some ch);
                   s1 = (if live then s\<lparr>pendingStream := mdel (requestID i) (pendingStream s)\<rparr> else s)
               in Some (set_pc i (CancelClosing ch (live \<and> \<not> closed s) out) s1)
           | _ \<Rightarrow> None)
      | None \<Rightarrow> None)"

definition close_reg :: "nat \<Rightarrow> agentConn \<Rightarrow> agentConn" where
  "close_reg ch s =
     (case mget (regs s) ch of
        Some r \<Rightarrow> s\<lparr>regs := mput ch (r\<lparr>sr_done := True\<rparr>) (regs s)\<rparr>
      | None \<Rightarrow> s)"

definition cancel_close :: "64 word \<Rightarrow> agentConn \<Rightarrow> agentConn option" where
  "cancel_close i s =
     (case mget (calls s) i of
        Some c \<Rightarrow>
          (case c_pc c of
             CancelClosing ch notify out \<Rightarrow>
               Some (set_pc i (if notify then CancelSending out else Finished out) (close_reg ch s))
           | _ \<Rightarrow> None)
      | None \<Rightarrow> None)"

text \<open>
  The \<^verbatim>\<open>request.cancel\<close> sent to the agent takes a number of its own. \<open>cancelPayload\<close> is the JSON of
  \<^verbatim>\<open>agentapi.CancelRequest\<close>, whose marshalling cannot fail.
\<close>

definition cancel_send :: "(string \<Rightarrow> bytes) \<Rightarrow> 64 word \<Rightarrow> bool \<Rightarrow> agentConn \<Rightarrow> agentConn option" where
  "cancel_send cancelPayload i ok s =
     (case mget (calls s) i of
        Some c \<Rightarrow>
          (case c_pc c of
             CancelSending out \<Rightarrow>
               let s1 = s\<lparr>seq := seq s + 1\<rparr> in
               Some (set_pc i (Finished out)
                 (conn_send (CmdRequest \<lparr>rq_request_id = requestID (seq s + 1),
                     rq_method = ''request.cancel'', rq_payload = cancelPayload (requestID i)\<rparr>) ok s1))
           | _ \<Rightarrow> None)
      | None \<Rightarrow> None)"

text \<open>\<^verbatim>\<open>deliver\<close>: its critical section, then the send off the lock.\<close>

definition start_delivery :: "nat \<Rightarrow> streamFrame \<Rightarrow> agentConn \<Rightarrow> agentConn" where
  "start_delivery reg f s =
     s\<lparr>loop := LStream reg f,
       regs := (case mget (regs s) reg of
                  Some r \<Rightarrow> mput reg (r\<lparr>sr_log := sr_log r @ [f]\<rparr>) (regs s)
                | None \<Rightarrow> regs s)\<rparr>"

definition deliver :: "agentResult \<Rightarrow> agentConn \<Rightarrow> agentConn option" where
  "deliver result s =
     (if loop s \<noteq> LIdle then None
      else let id = rs_request_id result in
        Some (case mget (pendingStream s) id of
          Some reg \<Rightarrow>
            start_delivery reg \<lparr>sf_payload = rs_payload result, sf_code = rs_code result,
                                sf_error = rs_error result, sf_final = True\<rparr>
              (s\<lparr>pendingStream := mdel id (pendingStream s)\<rparr>)
        | None \<Rightarrow>
            (case mget (pending s) id of
               None \<Rightarrow> s
             | Some ch \<Rightarrow> s\<lparr>pending := mdel id (pending s), loop := LUnary ch result\<rparr>)))"

definition deliverProgress :: "agentProgress \<Rightarrow> agentConn \<Rightarrow> agentConn option" where
  "deliverProgress progress s =
     (if loop s \<noteq> LIdle then None
      else Some (case mget (pendingStream s) (pg_request_id progress) of
        None \<Rightarrow> s
      | Some reg \<Rightarrow> start_delivery reg \<lparr>sf_payload = pg_payload progress, sf_code = 0,
                                        sf_error = [], sf_final = False\<rparr> s))"

text \<open>
  The channel operations of a delivery. A send on a closed channel panics; a send on a full one
  blocks, which is a step that cannot be taken. A select with several ready cases takes any.
\<close>

definition unary_send :: "agentConn \<Rightarrow> agentConn option" where
  "unary_send s =
     (case loop s of
        LUnary ch result \<Rightarrow>
          (case mget (chans s) ch of
             Some rc \<Rightarrow>
               if rc_closed rc then Some (s\<lparr>panicked := True\<rparr>)
               else if rc_buf rc \<noteq> None then None
               else Some (s\<lparr>chans := mput ch (rc\<lparr>rc_buf := Some result\<rparr>) (chans s), loop := LIdle\<rparr>)
           | None \<Rightarrow> None)
      | _ \<Rightarrow> None)"

definition stream_send :: "agentConn \<Rightarrow> agentConn option" where
  "stream_send s =
     (case loop s of
        LStream reg f \<Rightarrow>
          (case mget (regs s) reg of
             Some r \<Rightarrow>
               if length (sr_ch r) < frameCap
               then Some (s\<lparr>regs := mput reg (r\<lparr>sr_ch := sr_ch r @ [f]\<rparr>) (regs s), loop := LIdle\<rparr>)
               else None
           | None \<Rightarrow> None)
      | _ \<Rightarrow> None)"

definition stream_send_done :: "agentConn \<Rightarrow> agentConn option" where
  "stream_send_done s =
     (case loop s of
        LStream reg f \<Rightarrow>
          (case mget (regs s) reg of
             Some r \<Rightarrow> if sr_done r then Some (s\<lparr>loop := LIdle\<rparr>) else None
           | None \<Rightarrow> None)
      | _ \<Rightarrow> None)"

text \<open>The default case, which only the select of an advisory stream's progress has.\<close>

definition stream_drop :: "agentConn \<Rightarrow> agentConn option" where
  "stream_drop s =
     (case loop s of
        LStream reg f \<Rightarrow>
          (case mget (regs s) reg of
             Some r \<Rightarrow>
               if \<not> sr_reliable r \<and> \<not> sf_final f \<and> length (sr_ch r) \<ge> frameCap \<and> \<not> sr_done r
               then Some (s\<lparr>loop := LIdle\<rparr>) else None
           | None \<Rightarrow> None)
      | _ \<Rightarrow> None)"

text \<open>\<^verbatim>\<open>closeAll\<close>: the critical section, then closing each registration that it took out.\<close>

definition close_chan :: "nat \<Rightarrow> agentConn \<Rightarrow> agentConn" where
  "close_chan ch s =
     (case mget (chans s) ch of
        Some rc \<Rightarrow> if rc_closed rc then s\<lparr>panicked := True\<rparr>
                   else s\<lparr>chans := mput ch (rc\<lparr>rc_closed := True\<rparr>) (chans s)\<rparr>
      | None \<Rightarrow> s)"

definition closeAll :: "agentConn \<Rightarrow> agentConn" where
  "closeAll s =
     (fold (\<lambda>(_, ch). close_chan ch) (pending s) (s\<lparr>closed := True\<rparr>))
       \<lparr>pending := [], pendingStream := [], closing := closing s @ map snd (pendingStream s)\<rparr>"

definition close_next :: "agentConn \<Rightarrow> agentConn option" where
  "close_next s =
     (case closing s of [] \<Rightarrow> None | ch # rest \<Rightarrow> Some ((close_reg ch s)\<lparr>closing := rest\<rparr>))"

datatype connEvent =
    Begin callKind string bytes
  | Register "64 word"
  | Send "64 word" bool
  | Chunk "64 word" bytes bool bool
  | StartAwait "64 word"
  | AwaitCtx "64 word"
  | AwaitRecv "64 word"
  | Leave "64 word"
  | StreamRecv "64 word"
  | Cancel "64 word"
  | CancelLocked "64 word"
  | CancelClose "64 word"
  | CancelSend "64 word" bool
  | Deliver agentResult
  | Progress agentProgress
  | UnarySend
  | StreamSend
  | StreamSendDone
  | StreamDrop
  | CloseAll
  | CloseNext

fun conn_step :: "(string \<Rightarrow> bytes) \<Rightarrow> connEvent \<Rightarrow> agentConn \<Rightarrow> agentConn option" where
  "conn_step cp (Begin k m p) s = Some (begin_call k m p s)"
| "conn_step cp (Register i) s = register_call i s"
| "conn_step cp (Send i ok) s = send_request i ok s"
| "conn_step cp (Chunk i d isLast ok) s = sendChunk i d isLast ok s"
| "conn_step cp (StartAwait i) s = start_await i s"
| "conn_step cp (AwaitCtx i) s = await_ctx i s"
| "conn_step cp (AwaitRecv i) s = await_recv i s"
| "conn_step cp (Leave i) s = leave_call i s"
| "conn_step cp (StreamRecv i) s = stream_recv i s"
| "conn_step cp (Cancel i) s = call_cancel i s"
| "conn_step cp (CancelLocked i) s = cancel_lock i s"
| "conn_step cp (CancelClose i) s = cancel_close i s"
| "conn_step cp (CancelSend i ok) s = cancel_send cp i ok s"
| "conn_step cp (Deliver r) s = deliver r s"
| "conn_step cp (Progress p) s = deliverProgress p s"
| "conn_step cp UnarySend s = unary_send s"
| "conn_step cp StreamSend s = stream_send s"
| "conn_step cp StreamSendDone s = stream_send_done s"
| "conn_step cp StreamDrop s = stream_drop s"
| "conn_step cp CloseAll s = Some (closeAll s)"
| "conn_step cp CloseNext s = close_next s"

fun conn_run :: "(string \<Rightarrow> bytes) \<Rightarrow> connEvent list \<Rightarrow> agentConn \<Rightarrow> agentConn option" where
  "conn_run cp [] s = Some s"
| "conn_run cp (e # es) s = (case conn_step cp e s of None \<Rightarrow> None | Some s' \<Rightarrow> conn_run cp es s')"

section \<open>Invariants\<close>

fun cref :: "callPc \<Rightarrow> nat option" where
  "cref (Sending ch) = Some ch"
| "cref (Uploading ch) = Some ch"
| "cref (Awaiting ch) = Some ch"
| "cref (Consuming ch) = Some ch"
| "cref (CancelLock ch out) = Some ch"
| "cref (CancelClosing ch n out) = Some ch"
| "cref _ = None"

fun result_of :: "callPc \<Rightarrow> agentResult option" where
  "result_of (Leaving (OutResult r)) = Some r"
| "result_of (Finished (OutResult r)) = Some r"
| "result_of _ = None"

fun may_be_pending :: "callPc \<Rightarrow> bool" where
  "may_be_pending (Leaving out) = True"
| "may_be_pending pc = (cref pc \<noteq> None)"

text \<open>
  What the unary part of the state amounts to: the channel each unary or upload call holds, the
  calls that may have a table entry, the result each call was given, the delivery under way.
\<close>

definition uref :: "agentConn \<Rightarrow> 64 word \<Rightarrow> nat option" where
  "uref s i = (case mget (calls s) i of
     Some c \<Rightarrow> if c_kind c = KStream then None else cref (c_pc c) | None \<Rightarrow> None)"

definition uopen :: "agentConn \<Rightarrow> 64 word \<Rightarrow> bool" where
  "uopen s i = (case mget (calls s) i of
     Some c \<Rightarrow> c_kind c \<noteq> KStream \<and> may_be_pending (c_pc c) | None \<Rightarrow> False)"

definition ures :: "agentConn \<Rightarrow> 64 word \<Rightarrow> agentResult option" where
  "ures s i = (case mget (calls s) i of
     Some c \<Rightarrow> if c_kind c = KStream then None else result_of (c_pc c) | None \<Rightarrow> None)"

definition uloop :: "agentConn \<Rightarrow> (nat \<times> agentResult) option" where
  "uloop s = (case loop s of LUnary ch r \<Rightarrow> Some (ch, r) | _ \<Rightarrow> None)"

definition fresh_chan :: resultChan where
  "fresh_chan = \<lparr>rc_buf = None, rc_closed = False\<rparr>"

definition upend :: "agentConn \<Rightarrow> 64 word \<Rightarrow> nat option" where
  "upend s i = mget (pending s) (requestID i)"

definition unary_ok :: "(64 word \<rightharpoonup> nat) \<Rightarrow> (nat \<rightharpoonup> resultChan) \<Rightarrow> nat \<Rightarrow> (64 word \<rightharpoonup> nat) \<Rightarrow>
    (64 word \<Rightarrow> bool) \<Rightarrow> (64 word \<rightharpoonup> agentResult) \<Rightarrow> (nat \<times> agentResult) option \<Rightarrow> bool" where
  "unary_ok pend chs nref ref opn res lp \<longleftrightarrow>
     (\<forall>i ch. pend i = Some ch \<longrightarrow> chs ch = Some fresh_chan \<and> opn i \<and> (ref i = Some ch \<or> ref i = None)) \<and>
     (\<forall>i j ch. pend i = Some ch \<longrightarrow> pend j = Some ch \<longrightarrow> i = j) \<and>
     (\<forall>i ch. ref i = Some ch \<longrightarrow> opn i \<and> (\<exists>rc. chs ch = Some rc \<and>
        (\<forall>r. rc_buf rc = Some r \<longrightarrow> rs_request_id r = requestID i) \<and>
        (pend i = Some ch \<or> rc_buf rc \<noteq> None \<or> rc_closed rc \<or> (\<exists>r. lp = Some (ch, r))))) \<and>
     (\<forall>i j ch. ref i = Some ch \<longrightarrow> ref j = Some ch \<longrightarrow> i = j) \<and>
     (\<forall>i j ch. pend i = Some ch \<longrightarrow> ref j = Some ch \<longrightarrow> i = j) \<and>
     (\<forall>ch r. lp = Some (ch, r) \<longrightarrow> chs ch = Some fresh_chan \<and> (\<forall>i. pend i \<noteq> Some ch) \<and>
        (\<forall>j. ref j = Some ch \<longrightarrow> rs_request_id r = requestID j)) \<and>
     (\<forall>i r. res i = Some r \<longrightarrow> rs_request_id r = requestID i) \<and>
     (\<forall>ch rc. chs ch = Some rc \<longrightarrow> ch < nref)"

definition unary_inv :: "agentConn \<Rightarrow> bool" where
  "unary_inv s =
     unary_ok (upend s) (mget (chans s)) (nextRef s) (uref s) (uopen s) (ures s) (uloop s)"

lemma requestID_inject [simp]: "requestID i = requestID j \<longleftrightarrow> i = j"
  by (auto simp: requestID_def word_unat_eq_iff dest: formatUint_inject)

lemma unary_okD:
  assumes "unary_ok pend chs nref ref opn res lp"
  shows "pend i = Some ch \<Longrightarrow> chs ch = Some fresh_chan \<and> opn i \<and> (ref i = Some ch \<or> ref i = None)"
    and "pend i = Some ch \<Longrightarrow> pend j = Some ch \<Longrightarrow> i = j"
    and "ref i = Some ch \<Longrightarrow> opn i \<and> (\<exists>rc. chs ch = Some rc \<and>
        (\<forall>r. rc_buf rc = Some r \<longrightarrow> rs_request_id r = requestID i) \<and>
        (pend i = Some ch \<or> rc_buf rc \<noteq> None \<or> rc_closed rc \<or> (\<exists>r. lp = Some (ch, r))))"
    and "ref i = Some ch \<Longrightarrow> ref j = Some ch \<Longrightarrow> i = j"
    and "pend i = Some ch \<Longrightarrow> ref j = Some ch \<Longrightarrow> i = j"
    and "lp = Some (ch, r) \<Longrightarrow> chs ch = Some fresh_chan \<and> pend i \<noteq> Some ch \<and>
        (ref j = Some ch \<longrightarrow> rs_request_id r = requestID j)"
    and "res i = Some r \<Longrightarrow> rs_request_id r = requestID i"
    and "chs ch = Some rc \<Longrightarrow> ch < nref"
proof goal_cases
  case 1
  then show ?case using assms unfolding unary_ok_def by metis
next
  case 2
  then show ?case using assms unfolding unary_ok_def by metis
next
  case 3
  then show ?case using assms unfolding unary_ok_def by (elim conjE) (erule allE [of _ i], auto)
next
  case 4
  then show ?case using assms unfolding unary_ok_def by metis
next
  case 5
  then show ?case using assms unfolding unary_ok_def by metis
next
  case 6
  then show ?case using assms unfolding unary_ok_def by metis
next
  case 7
  then show ?case using assms unfolding unary_ok_def by metis
next
  case 8
  then show ?case using assms unfolding unary_ok_def by metis
qed

lemma unary_okI:
  assumes "\<And>i ch. pend i = Some ch \<Longrightarrow> chs ch = Some fresh_chan \<and> opn i \<and> (ref i = Some ch \<or> ref i = None)"
    and "\<And>i j ch. pend i = Some ch \<Longrightarrow> pend j = Some ch \<Longrightarrow> i = j"
    and "\<And>i ch. ref i = Some ch \<Longrightarrow> opn i \<and> (\<exists>rc. chs ch = Some rc \<and>
        (\<forall>r. rc_buf rc = Some r \<longrightarrow> rs_request_id r = requestID i) \<and>
        (pend i = Some ch \<or> rc_buf rc \<noteq> None \<or> rc_closed rc \<or> (\<exists>r. lp = Some (ch, r))))"
    and "\<And>i j ch. ref i = Some ch \<Longrightarrow> ref j = Some ch \<Longrightarrow> i = j"
    and "\<And>i j ch. pend i = Some ch \<Longrightarrow> ref j = Some ch \<Longrightarrow> i = j"
    and "\<And>ch r. lp = Some (ch, r) \<Longrightarrow> chs ch = Some fresh_chan \<and> (\<forall>i. pend i \<noteq> Some ch) \<and>
        (\<forall>j. ref j = Some ch \<longrightarrow> rs_request_id r = requestID j)"
    and "\<And>i r. res i = Some r \<Longrightarrow> rs_request_id r = requestID i"
    and "\<And>ch rc. chs ch = Some rc \<Longrightarrow> ch < nref"
  shows "unary_ok pend chs nref ref opn res lp"
  unfolding unary_ok_def using assms by blast

text \<open>Each kind of step on this abstract state.\<close>

lemma unary_ok_register:
  assumes "unary_ok pend chs nref ref opn res lp" "\<not> opn i"
  shows "unary_ok (pend(i \<mapsto> nref)) (chs(nref \<mapsto> fresh_chan)) (Suc nref)
           (ref(i \<mapsto> nref)) (opn(i := True)) res lp"
proof -
  note D = unary_okD [OF assms(1)]
  have n: "chs nref = None" using D(8) by fastforce
  have "pend k \<noteq> Some nref" for k using D(1) n by fastforce
  moreover have "ref k \<noteq> Some nref" for k using D(3) n by fastforce
  moreover have "lp \<noteq> Some (nref, r)" for r using D(6) n by fastforce
  moreover have "pend i = None" using D(1) [of i] assms(2) by (cases "pend i") auto
  ultimately show ?thesis using assms by (auto simp: unary_ok_def fresh_chan_def)
qed

lemma unary_ok_leaving:
  assumes "unary_ok pend chs nref ref opn res lp" "\<And>r. x = Some r \<Longrightarrow> rs_request_id r = requestID i"
  shows "unary_ok pend chs nref (ref(i := None)) opn (res(i := x)) lp"
  using assms by (auto simp: unary_ok_def)

lemma unary_ok_recv:
  assumes "unary_ok pend chs nref ref opn res lp" "ref i = Some ch" "chs ch = Some rc" "rc_buf rc = Some r"
  shows "unary_ok pend (chs(ch \<mapsto> rc\<lparr>rc_buf := None\<rparr>)) nref (ref(i := None)) opn (res(i \<mapsto> r)) lp"
proof -
  note D = unary_okD [OF assms(1)]
  have nf: "chs ch \<noteq> Some fresh_chan" using assms(3,4) by (auto simp: fresh_chan_def)
  show ?thesis
  proof (rule unary_okI, goal_cases)
    case (1 j c)
    then show ?case using D(1) [of j c] nf by (auto split: if_splits)
  next
    case (3 j c)
    then show ?case using D(3) [of j c] D(4) [OF assms(2), of j] by (auto split: if_splits)
  next
    case (6 c q)
    then show ?case using D(6) [of c q] nf by (auto split: if_splits)
  next
    case (7 j q)
    then show ?case using D(3) [OF assms(2)] D(7) [of j q] assms(3,4) by (auto split: if_splits)
  next
    case (8 c rc)
    then show ?case using D(8) [of c] assms(3) by (auto split: if_splits)
  qed (use D in \<open>auto split: if_splits\<close>)
qed

lemma unary_ok_leave:
  assumes "unary_ok pend chs nref ref opn res lp" "ref i = None"
  shows "unary_ok (pend(i := None)) chs nref ref (opn(i := False)) res lp"
  using assms by (auto simp: unary_ok_def)

lemma unary_ok_deliver:
  assumes "unary_ok pend chs nref ref opn res None" "pend i = Some ch" "rs_request_id r = requestID i"
  shows "unary_ok (pend(i := None)) chs nref ref opn res (Some (ch, r))"
proof -
  note D = unary_okD [OF assms(1)]
  have own: "ref j = Some ch \<Longrightarrow> j = i" "pend j = Some ch \<Longrightarrow> j = i" for j
    by (metis D(5) assms(2), metis D(2) assms(2))
  show ?thesis
  proof (rule unary_okI, goal_cases)
    case (3 j c)
    then show ?case using D(3) [of j c] own(1) [of j] D(1) [OF assms(2)] assms(2) by (cases "j = i") auto
  next
    case (6 c q)
    then have "c = ch" "q = r" by simp_all
    moreover have "(pend(i := None)) j \<noteq> Some ch" for j using own(2) [of j] by (cases "j = i") auto
    moreover have "ref j = Some ch \<longrightarrow> rs_request_id r = requestID j" for j
      using own(1) [of j] assms(3) by blast
    ultimately show ?case using D(1) [OF assms(2)] by blast
  qed (use D in \<open>auto split: if_splits\<close>)
qed

lemma unary_ok_send:
  assumes "unary_ok pend chs nref ref opn res (Some (ch, r))"
  shows "unary_ok pend (chs(ch \<mapsto> fresh_chan\<lparr>rc_buf := Some r\<rparr>)) nref ref opn res None"
proof -
  note D = unary_okD [OF assms]
  have own: "chs ch = Some fresh_chan" "pend k \<noteq> Some ch" "ref j = Some ch \<Longrightarrow> rs_request_id r = requestID j"
      for k j
    using D(6) [OF refl, of k j] by simp_all
  note own = own D(8) [OF own(1)]
  show ?thesis
  proof (rule unary_okI, goal_cases)
    case (1 i c)
    then show ?case using D(1) [of i c] own(2) by auto
  next
    case (3 i c)
    then show ?case using D(3) [of i c] own(1,3) by auto
  next
    case (8 c rc)
    then show ?case using D(8) [of c rc] own(4) by (auto split: if_splits)
  qed (use D in \<open>auto\<close>)
qed

lemma unary_ok_closeAll:
  assumes "unary_ok pend chs nref ref opn res lp"
  shows "unary_ok Map.empty (\<lambda>ch. if ch \<in> ran pend then Some (fresh_chan\<lparr>rc_closed := True\<rparr>) else chs ch)
           nref ref opn res lp"
proof -
  note D = unary_okD [OF assms]
  have own: "ch < nref" if "ch \<in> ran pend" for ch
    using that D(1,8) by (auto simp: ran_def)
  have own2: "ch \<notin> ran pend" if "lp = Some (ch, r)" for ch r
    using that D(6) by (auto simp: ran_def)
  have own3: "pend i \<noteq> Some ch" if "ch \<notin> ran pend" for i ch
    using that by (auto simp: ran_def)
  note own = own own2 own3
  show ?thesis
  proof (rule unary_okI, goal_cases)
    case (3 i c)
    then show ?case using D(3) [of i c] own(3) by (auto simp: fresh_chan_def)
  next
    case (6 c r)
    then show ?case using D(6) [of c r] own(2) by auto
  next
    case (8 c rc)
    then show ?case using D(8) [of c rc] own(1) by (auto split: if_splits)
  qed (use D in auto)
qed

subsection \<open>The unary invariant along the steps\<close>

lemma set_pc_sel [simp]:
  "seq (set_pc i pc s) = seq s" "pending (set_pc i pc s) = pending s"
  "pendingStream (set_pc i pc s) = pendingStream s" "closed (set_pc i pc s) = closed s"
  "chans (set_pc i pc s) = chans s" "regs (set_pc i pc s) = regs s"
  "nextRef (set_pc i pc s) = nextRef s" "loop (set_pc i pc s) = loop s"
  "closing (set_pc i pc s) = closing s" "wire (set_pc i pc s) = wire s"
  "panicked (set_pc i pc s) = panicked s"
  by (simp_all add: set_pc_def split: option.splits)

lemma calls_set_pc: "mget (calls s) i = Some c \<Longrightarrow>
    mget (calls (set_pc i pc s)) = (mget (calls s))(i \<mapsto> c\<lparr>c_pc := pc\<rparr>)"
  by (simp add: set_pc_def gomap_simps)

lemma u_set_pc:
  assumes "mget (calls s) i = Some c"
  shows "uref (set_pc i pc s) = (uref s)(i := if c_kind c = KStream then None else cref pc)"
    and "uopen (set_pc i pc s) = (uopen s)(i := c_kind c \<noteq> KStream \<and> may_be_pending pc)"
    and "ures (set_pc i pc s) = (ures s)(i := if c_kind c = KStream then None else result_of pc)"
    and "upend (set_pc i pc s) = upend s" "uloop (set_pc i pc s) = uloop s"
  using assms
  by (auto simp: fun_eq_iff uref_def uopen_def ures_def upend_def uloop_def calls_set_pc)

lemma u_calls:
  assumes "calls s' = calls s"
  shows "uref s' = uref s" "uopen s' = uopen s" "ures s' = ures s"
  using assms by (simp_all add: fun_eq_iff uref_def uopen_def ures_def)

lemma upend_mput: "(\<lambda>j. mget (mput (requestID i) ch m) (requestID j)) = (\<lambda>j. mget m (requestID j))(i \<mapsto> ch)"
  by (auto simp: fun_eq_iff gomap_simps)

lemma upend_mdel: "(\<lambda>j. mget (mdel (requestID i) m) (requestID j)) = (\<lambda>j. mget m (requestID j))(i := None)"
  by (auto simp: fun_eq_iff gomap_simps)

lemma unary_inv_cong:
  assumes "unary_inv s" "pending s' = pending s" "chans s' = chans s" "nextRef s' = nextRef s"
    "uref s' = uref s" "uopen s' = uopen s" "ures s' = ures s" "uloop s' = uloop s"
  shows "unary_inv s'"
  using assms by (simp add: unary_inv_def upend_def [abs_def])

definition table_inv :: "nat \<Rightarrow> agentConn \<Rightarrow> bool" where
  "table_inv n s \<longleftrightarrow>
     \<not> panicked s \<and> unat (seq s) \<le> n \<and> (\<forall>i c. mget (calls s) i = Some c \<longrightarrow> unat i \<le> unat (seq s)) \<and>
     mwf (pending s) \<and> mwf (pendingStream s) \<and>
     (\<forall>k ch. mget (pending s) k = Some ch \<longrightarrow> k \<in> range requestID) \<and>
     (closed s \<longrightarrow> pending s = [] \<and> pendingStream s = [])"

text \<open>A call is at a place that its kind of dispatch has.\<close>

fun pc_of_kind :: "callKind \<Rightarrow> callPc \<Rightarrow> bool" where
  "pc_of_kind k (Uploading _) = (k = KUpload)"
| "pc_of_kind k (Awaiting _) = (k \<noteq> KStream)"
| "pc_of_kind k (Leaving _) = (k \<noteq> KStream)"
| "pc_of_kind k (Consuming _) = (k = KStream)"
| "pc_of_kind k (CancelLock _ _) = (k = KStream)"
| "pc_of_kind k (CancelClosing _ _ _) = (k = KStream)"
| "pc_of_kind k (CancelSending _) = (k = KStream)"
| "pc_of_kind k _ = True"

definition kind_inv :: "agentConn \<Rightarrow> bool" where
  "kind_inv s \<longleftrightarrow> (\<forall>i c. mget (calls s) i = Some c \<longrightarrow> pc_of_kind (c_kind c) (c_pc c))"

lemma kind_inv_set_pc:
  "kind_inv s \<Longrightarrow> mget (calls s) i = Some c \<Longrightarrow> pc_of_kind (c_kind c) pc \<Longrightarrow> kind_inv (set_pc i pc s)"
  by (auto simp: kind_inv_def calls_set_pc)

lemma kind_inv_cong: "kind_inv s \<Longrightarrow> calls s' = calls s \<Longrightarrow> kind_inv s'"
  by (simp add: kind_inv_def)

definition base_inv :: "nat \<Rightarrow> agentConn \<Rightarrow> bool" where
  "base_inv n s \<longleftrightarrow> table_inv n s \<and> kind_inv s \<and> unary_inv s"

lemma base_inv_unary: "base_inv n s \<Longrightarrow> unary_inv s"
  by (simp add: base_inv_def)

lemma base_kind: "base_inv n s \<Longrightarrow> mget (calls s) i = Some c \<Longrightarrow> pc_of_kind (c_kind c) (c_pc c)"
  by (simp add: base_inv_def kind_inv_def)

lemma base_begin:
  assumes "base_inv n s" "Suc n < 2 ^ 64"
  shows "base_inv (Suc n) (begin_call k m p s)"
proof -
  let ?s' = "begin_call k m p s" and ?i = "seq s + 1"
  from assms have n: "unat (seq s) \<le> n" by (simp add: base_inv_def table_inv_def)
  with assms(2) have seq: "unat ?i = Suc (unat (seq s))"
    using unat_add_lem [of "seq s" 1] by simp
  have new: "mget (calls s) ?i = None"
    using assms(1) seq by (cases "mget (calls s) ?i") (auto simp: base_inv_def table_inv_def)
  have "uref ?s' = uref s" "uopen ?s' = uopen s" "ures ?s' = ures s"
    using new by (auto simp: fun_eq_iff uref_def uopen_def ures_def begin_call_def gomap_simps)
  then have "unary_inv ?s'"
    by (intro unary_inv_cong [OF base_inv_unary [OF assms(1)]]) (auto simp: begin_call_def uloop_def)
  moreover have "kind_inv ?s'"
    using assms(1) by (auto simp: base_inv_def kind_inv_def begin_call_def gomap_simps)
  moreover have "table_inv (Suc n) ?s'"
    using assms(1) n seq by (fastforce simp: base_inv_def table_inv_def begin_call_def gomap_simps)
  ultimately show ?thesis by (simp add: base_inv_def)
qed

lemma base_set_pc:
  assumes "base_inv n s" "mget (calls s) i = Some c" "pc_of_kind (c_kind c) pc"
    and "c_kind c \<noteq> KStream \<Longrightarrow> cref pc = cref (c_pc c) \<and> may_be_pending pc = may_be_pending (c_pc c) \<and> result_of pc = None"
  shows "base_inv n (set_pc i pc s)"
proof -
  have "table_inv n (set_pc i pc s)"
    using assms(1,2) by (fastforce simp: base_inv_def table_inv_def calls_set_pc)
  moreover have "kind_inv (set_pc i pc s)"
    using assms by (auto simp: base_inv_def intro: kind_inv_set_pc)
  moreover have "unary_inv (set_pc i pc s)"
  proof (cases "c_kind c = KStream")
    case True
    have "uref (set_pc i pc s) = uref s" "uopen (set_pc i pc s) = uopen s"
        "ures (set_pc i pc s) = ures s"
      using True assms(2) unfolding u_set_pc [OF assms(2)]
      by (simp_all add: fun_upd_idem uref_def uopen_def ures_def)
    then show ?thesis
      by (intro unary_inv_cong [OF base_inv_unary [OF assms(1)]]) (simp_all add: u_set_pc [OF assms(2)])
  next
    case False
    have "uref (set_pc i pc s) = uref s" "uopen (set_pc i pc s) = uopen s"
        "ures (set_pc i pc s) = (ures s)(i := None)"
      using False assms(2,4) unfolding u_set_pc [OF assms(2)]
      by (simp_all add: fun_upd_idem uref_def uopen_def)
    moreover have "unary_ok (upend s) (mget (chans s)) (nextRef s) (uref s) (uopen s) ((ures s)(i := None)) (uloop s)"
      using assms(1) by (auto simp: base_inv_def unary_inv_def unary_ok_def)
    ultimately show ?thesis by (simp add: unary_inv_def u_set_pc [OF assms(2)])
  qed
  ultimately show ?thesis by (simp add: base_inv_def)
qed

lemma base_inv_irrelevant [simp]:
  "base_inv n (s\<lparr>wire := w\<rparr>) = base_inv n s" "base_inv n (s\<lparr>regs := r\<rparr>) = base_inv n s"
  "base_inv n (s\<lparr>closing := cs\<rparr>) = base_inv n s"
  by (simp_all add: base_inv_def table_inv_def kind_inv_def unary_inv_def upend_def [abs_def]
      uref_def [abs_def] uopen_def [abs_def] ures_def [abs_def] uloop_def)

lemma base_inv_mono: "base_inv n s \<Longrightarrow> base_inv (Suc n) s"
  by (simp add: base_inv_def table_inv_def)

lemma base_inv_loop:
  "base_inv n s \<Longrightarrow> uloop (s\<lparr>loop := l\<rparr>) = uloop s \<Longrightarrow> base_inv n (s\<lparr>loop := l\<rparr>)"
  by (simp add: base_inv_def table_inv_def kind_inv_def unary_inv_def upend_def [abs_def]
      uref_def [abs_def] uopen_def [abs_def] ures_def [abs_def])

lemma base_inv_pendingStream:
  "base_inv n s \<Longrightarrow> mwf ps \<Longrightarrow> (closed s \<Longrightarrow> ps = []) \<Longrightarrow> base_inv n (s\<lparr>pendingStream := ps\<rparr>)"
  by (simp add: base_inv_def table_inv_def kind_inv_def unary_inv_def upend_def [abs_def]
      uref_def [abs_def] uopen_def [abs_def] ures_def [abs_def] uloop_def)

lemma base_inv_pendingStream_mdel:
  assumes "base_inv n s"
  shows "base_inv n (s\<lparr>pendingStream := mdel k (pendingStream s)\<rparr>)"
proof (rule base_inv_pendingStream [OF assms])
  show "mwf (mdel k (pendingStream s))" using assms by (auto simp: base_inv_def table_inv_def intro: gomap_wf)
  show "closed s \<Longrightarrow> mdel k (pendingStream s) = []" using assms by (auto simp: base_inv_def table_inv_def)
qed

lemma set_pc_wire: "set_pc i pc (s\<lparr>wire := w\<rparr>) = (set_pc i pc s)\<lparr>wire := w\<rparr>"
  by (simp add: set_pc_def split: option.splits)

lemma base_leaving:
  assumes "base_inv n s" "mget (calls s) i = Some c" "c_kind c \<noteq> KStream" "may_be_pending (c_pc c)"
    and "\<And>r. out = OutResult r \<Longrightarrow> rs_request_id r = requestID i"
  shows "base_inv n (set_pc i (Leaving out) s)"
proof -
  have "(uopen s)(i := True) = uopen s"
    by (rule fun_upd_idem) (simp add: uopen_def assms)
  moreover have "unary_ok (upend s) (mget (chans s)) (nextRef s) ((uref s)(i := None)) (uopen s)
      ((ures s)(i := result_of (Leaving out))) (uloop s)"
    by (rule unary_ok_leaving [OF base_inv_unary [OF assms(1), unfolded unary_inv_def]])
      (use assms(5) in \<open>cases out; auto\<close>)
  ultimately have "unary_inv (set_pc i (Leaving out) s)"
    using assms(3) by (simp add: unary_inv_def u_set_pc [OF assms(2)])
  moreover have "table_inv n (set_pc i (Leaving out) s)"
    using assms(1,2) by (fastforce simp: base_inv_def table_inv_def calls_set_pc)
  moreover have "kind_inv (set_pc i (Leaving out) s)"
    using assms(1-3) by (auto simp: base_inv_def intro: kind_inv_set_pc)
  ultimately show ?thesis by (simp add: base_inv_def)
qed

lemma base_register:
  assumes "base_inv n s" "register_call i s = Some s'"
  shows "base_inv n s'"
proof -
  from assms(2) obtain c where c: "mget (calls s) i = Some c" "c_pc c = Begun"
    by (auto simp: register_call_def split: option.splits if_splits)
  let ?ch = "nextRef s"
  show ?thesis
  proof (cases "closed s")
    case True
    with assms(2) c have "s' = set_pc i (Finished (OutErr ErrDisconnected)) s"
      by (simp add: register_call_def)
    with base_set_pc [OF assms(1) c(1)] c(2) show ?thesis by simp
  next
    case open_: False
    show ?thesis
    proof (cases "c_kind c = KStream")
      case True
      let ?r = "\<lparr>sr_ch = [], sr_done = False, sr_reliable = streamReliable (c_method c), sr_log = []\<rparr>"
      let ?s1 = "s\<lparr>nextRef := Suc ?ch\<rparr>\<lparr>pendingStream := mput (requestID i) ?ch (pendingStream s)\<rparr>"
      have s': "s' = set_pc i (Sending ?ch) (?s1\<lparr>regs := mput ?ch ?r (regs s)\<rparr>)"
        using assms(2) c open_ True by (simp add: register_call_def Let_def)
      have "base_inv n (s\<lparr>nextRef := Suc ?ch\<rparr>)"
        using assms(1)
        by (auto simp: base_inv_def table_inv_def kind_inv_def unary_inv_def upend_def [abs_def]
            uref_def [abs_def] uopen_def [abs_def] ures_def [abs_def] uloop_def)
          (auto simp: unary_ok_def less_SucI)
      then have "base_inv n ?s1"
        using open_ by (intro base_inv_pendingStream) (auto simp: base_inv_def table_inv_def intro: gomap_wf)
      then have "base_inv n (?s1\<lparr>regs := mput ?ch ?r (regs s)\<rparr>)" by simp
      moreover have "mget (calls (?s1\<lparr>regs := mput ?ch ?r (regs s)\<rparr>)) i = Some c" using c(1) by simp
      ultimately show ?thesis unfolding s' using True by (intro base_set_pc) auto
    next
      case False
      let ?s1 = "s\<lparr>nextRef := Suc ?ch, pending := mput (requestID i) ?ch (pending s),
          chans := mput ?ch fresh_chan (chans s)\<rparr>"
      have s': "s' = set_pc i (Sending ?ch) ?s1"
        using assms(2) c open_ False by (simp add: register_call_def Let_def fresh_chan_def)
      have c1: "mget (calls ?s1) i = Some c" using c(1) by simp
      have "\<not> uopen s i" using c by (simp add: uopen_def)
      from unary_ok_register [OF base_inv_unary [OF assms(1), unfolded unary_inv_def] this]
      have ok: "unary_ok ((upend s)(i \<mapsto> ?ch)) ((mget (chans s))(?ch \<mapsto> fresh_chan)) (Suc ?ch)
          ((uref s)(i \<mapsto> ?ch)) ((uopen s)(i := True)) (ures s) (uloop s)" .
      have "upend s' = (upend s)(i \<mapsto> ?ch)"
        by (simp add: s' upend_def [abs_def] upend_mput)
      moreover have "mget (chans s') = (mget (chans s))(?ch \<mapsto> fresh_chan)"
        by (simp add: s' gomap_simps)
      moreover have "uref s' = (uref s)(i \<mapsto> ?ch)" "uopen s' = (uopen s)(i := True)"
        unfolding s' u_set_pc [OF c1] using False u_calls [of ?s1 s] by simp_all
      moreover have "ures s' = ures s"
      proof -
        have "ures s' = (ures s)(i := None)"
          unfolding s' u_set_pc [OF c1] using False u_calls [of ?s1 s] by simp
        also have "\<dots> = ures s" using c by (intro fun_upd_idem) (simp add: ures_def)
        finally show ?thesis .
      qed
      moreover have "uloop s' = uloop s" "nextRef s' = Suc ?ch" by (simp_all add: s' uloop_def)
      ultimately have "unary_inv s'" using ok by (simp add: unary_inv_def)
      moreover have "table_inv n s'"
        using assms(1) c open_
        by (auto simp: s' base_inv_def table_inv_def calls_set_pc [OF c1] gomap_simps intro: gomap_wf)
      moreover have "kind_inv s'" unfolding s'
        using assms(1) by (intro kind_inv_set_pc [OF _ c1]) (simp_all add: base_inv_def kind_inv_def)
      ultimately show ?thesis by (simp add: base_inv_def)
    qed
  qed
qed

lemma base_send_request:
  assumes "base_inv n s" "send_request i ok s = Some s'"
  shows "base_inv n s'"
proof -
  from assms(2) obtain c ch where c: "mget (calls s) i = Some c" "c_pc c = Sending ch"
    by (auto simp: send_request_def split: option.splits callPc.splits)
  show ?thesis
  proof (cases ok)
    case True
    let ?pc = "case c_kind c of KUnary \<Rightarrow> Awaiting ch | KStream \<Rightarrow> Consuming ch | KUpload \<Rightarrow> Uploading ch"
    have "base_inv n (set_pc i ?pc s)"
      using c by (intro base_set_pc [OF assms(1) c(1)]) (auto split: callKind.splits)
    with assms(2) c True show ?thesis by (auto simp: send_request_def set_pc_wire)
  next
    case False
    show ?thesis
    proof (cases "c_kind c = KStream")
      case True
      with base_set_pc [OF assms(1) c(1), of "CancelLock ch (OutErr ErrSendCommand)"] assms(2) c \<open>\<not> ok\<close>
      show ?thesis by (auto simp: send_request_def)
    next
      case nostream: False
      with base_leaving [OF assms(1) c(1) nostream, of "OutErr ErrSendCommand"] assms(2) c \<open>\<not> ok\<close>
      show ?thesis by (auto simp: send_request_def split: callKind.splits)
    qed
  qed
qed

lemma base_await_recv:
  assumes "base_inv n s" "await_recv i s = Some s'"
  shows "base_inv n s'"
proof -
  from assms(2) obtain c ch rc where c: "mget (calls s) i = Some c" "c_pc c = Awaiting ch"
      "mget (chans s) ch = Some rc"
    by (auto simp: await_recv_def split: option.splits callPc.splits)
  have k: "c_kind c \<noteq> KStream" using base_kind [OF assms(1) c(1)] c(2) by simp
  show ?thesis
  proof (cases "rc_buf rc")
    case None
    with base_leaving [OF assms(1) c(1) k, of "OutErr ErrDisconnected"] assms(2) c show ?thesis
      by (auto simp: await_recv_def split: if_splits)
  next
    case (Some r)
    let ?s1 = "s\<lparr>chans := mput ch (rc\<lparr>rc_buf := None\<rparr>) (chans s)\<rparr>"
    have s': "s' = set_pc i (Leaving (OutResult r)) ?s1"
      using assms(2) c Some by (simp add: await_recv_def)
    have c1: "mget (calls ?s1) i = Some c" using c(1) by simp
    have "uref s i = Some ch" using c k by (simp add: uref_def)
    from unary_ok_recv [OF base_inv_unary [OF assms(1), unfolded unary_inv_def] this c(3) Some]
    have ok: "unary_ok (upend s) ((mget (chans s))(ch \<mapsto> rc\<lparr>rc_buf := None\<rparr>)) (nextRef s)
        ((uref s)(i := None)) (uopen s) ((ures s)(i \<mapsto> r)) (uloop s)" .
    have "uref s' = (uref s)(i := None)" "ures s' = (ures s)(i \<mapsto> r)"
      unfolding s' u_set_pc [OF c1] using k u_calls [of ?s1 s] by simp_all
    moreover have "uopen s' = uopen s"
      unfolding s' u_set_pc [OF c1] using k c u_calls [of ?s1 s]
      by (simp add: fun_upd_idem uopen_def)
    moreover have "upend s' = upend s" "uloop s' = uloop s" "nextRef s' = nextRef s"
        "mget (chans s') = (mget (chans s))(ch \<mapsto> rc\<lparr>rc_buf := None\<rparr>)"
      by (simp_all add: s' upend_def [abs_def] uloop_def gomap_simps)
    ultimately have "unary_inv s'" using ok by (simp add: unary_inv_def)
    moreover have "table_inv n s'"
      using assms(1) c by (fastforce simp: s' base_inv_def table_inv_def calls_set_pc [OF c1])
    moreover have "kind_inv s'" unfolding s'
      using assms(1) k by (intro kind_inv_set_pc [OF _ c1]) (simp_all add: base_inv_def kind_inv_def)
    ultimately show ?thesis by (simp add: base_inv_def)
  qed
qed

lemma base_leave:
  assumes "base_inv n s" "leave_call i s = Some s'"
  shows "base_inv n s'"
proof -
  from assms(2) obtain c out where c: "mget (calls s) i = Some c" "c_pc c = Leaving out"
    by (auto simp: leave_call_def split: option.splits callPc.splits)
  have k: "c_kind c \<noteq> KStream" using base_kind [OF assms(1) c(1)] c(2) by simp
  let ?s1 = "s\<lparr>pending := mdel (requestID i) (pending s)\<rparr>"
  have s': "s' = set_pc i (Finished out) ?s1" using assms(2) c by (simp add: leave_call_def)
  have c1: "mget (calls ?s1) i = Some c" using c(1) by simp
  have "uref s i = None" using c k by (simp add: uref_def)
  from unary_ok_leave [OF base_inv_unary [OF assms(1), unfolded unary_inv_def] this]
  have ok: "unary_ok ((upend s)(i := None)) (mget (chans s)) (nextRef s) (uref s)
      ((uopen s)(i := False)) (ures s) (uloop s)" .
  have "uref s' = uref s" "ures s' = ures s"
    unfolding s' u_set_pc [OF c1] using k c u_calls [of ?s1 s]
    by (cases out; simp add: fun_upd_idem uref_def ures_def)+
  moreover have "uopen s' = (uopen s)(i := False)"
    unfolding s' u_set_pc [OF c1] using u_calls [of ?s1 s] by simp
  moreover have "upend s' = (upend s)(i := None)"
    by (simp add: s' upend_def [abs_def] upend_mdel)
  moreover have "uloop s' = uloop s" "nextRef s' = nextRef s" "chans s' = chans s"
    by (simp_all add: s' uloop_def)
  ultimately have "unary_inv s'" using ok by (simp add: unary_inv_def)
  moreover have "table_inv n s'"
    using assms(1) c
    by (auto simp: s' base_inv_def table_inv_def calls_set_pc [OF c1] gomap_simps intro: gomap_wf)
  moreover have "kind_inv s'" unfolding s'
    using assms(1) by (intro kind_inv_set_pc [OF _ c1]) (simp_all add: base_inv_def kind_inv_def)
  ultimately show ?thesis by (simp add: base_inv_def)
qed

lemma base_stream_recv:
  assumes "base_inv n s" "stream_recv i s = Some s'"
  shows "base_inv n s'"
proof -
  from assms(2) obtain c ch r f fs where c: "mget (calls s) i = Some c" "c_pc c = Consuming ch"
    and s': "s' = s\<lparr>regs := mput ch (r\<lparr>sr_ch := fs\<rparr>) (regs s),
                   calls := mput i (c\<lparr>c_got := c_got c @ [f]\<rparr>) (calls s)\<rparr>"
    by (auto simp: stream_recv_def split: option.splits callPc.splits list.splits)
  have "uref s' = uref s" "uopen s' = uopen s" "ures s' = ures s"
    using c by (auto simp: s' fun_eq_iff uref_def uopen_def ures_def gomap_simps)
  then have "unary_inv s'"
    by (intro unary_inv_cong [OF base_inv_unary [OF assms(1)]]) (simp_all add: s' uloop_def)
  moreover have "table_inv n s'" "kind_inv s'"
    using assms(1) c by (fastforce simp: s' base_inv_def table_inv_def kind_inv_def gomap_simps)+
  ultimately show ?thesis by (simp add: base_inv_def)
qed

lemma close_reg_base: "base_inv n (close_reg ch s) = base_inv n s"
  by (simp add: close_reg_def split: option.splits)

lemma base_cancel_lock:
  assumes "base_inv n s" "cancel_lock i s = Some s'"
  shows "base_inv n s'"
proof -
  from assms(2) obtain c ch out where c: "mget (calls s) i = Some c" "c_pc c = CancelLock ch out"
    by (auto simp: cancel_lock_def split: option.splits callPc.splits)
  have k: "c_kind c = KStream" using base_kind [OF assms(1) c(1)] c(2) by simp
  define s1 where "s1 = (if mget (pendingStream s) (requestID i) = Some ch
      then s\<lparr>pendingStream := mdel (requestID i) (pendingStream s)\<rparr> else s)"
  have s1: "base_inv n s1" "mget (calls s1) i = Some c"
    using base_inv_pendingStream_mdel [OF assms(1)] assms(1) c(1) by (simp_all add: s1_def)
  have "\<exists>b. s' = set_pc i (CancelClosing ch b out) s1"
    using assms(2) c by (auto simp: cancel_lock_def Let_def s1_def)
  with base_set_pc [OF s1] k show ?thesis by auto
qed

lemma base_cancel_close:
  assumes "base_inv n s" "cancel_close i s = Some s'"
  shows "base_inv n s'"
proof -
  from assms(2) obtain c ch b out where c: "mget (calls s) i = Some c" "c_pc c = CancelClosing ch b out"
    by (auto simp: cancel_close_def split: option.splits callPc.splits)
  have k: "c_kind c = KStream" using base_kind [OF assms(1) c(1)] c(2) by simp
  have s1: "base_inv n (close_reg ch s)" "mget (calls (close_reg ch s)) i = Some c"
    using assms(1) c(1) by (simp_all add: close_reg_base close_reg_def split: option.splits)
  have "s' = set_pc i (if b then CancelSending out else Finished out) (close_reg ch s)"
    using assms(2) c by (simp add: cancel_close_def)
  with base_set_pc [OF s1] k show ?thesis by auto
qed

lemma base_cancel_send:
  assumes "base_inv n s" "cancel_send cp i ok s = Some s'" "Suc n < 2 ^ 64"
  shows "base_inv (Suc n) s'"
proof -
  from assms(2) obtain c out where c: "mget (calls s) i = Some c" "c_pc c = CancelSending out"
    by (auto simp: cancel_send_def split: option.splits callPc.splits)
  have k: "c_kind c = KStream" using base_kind [OF assms(1) c(1)] c(2) by simp
  have n: "unat (seq s) \<le> n" using assms(1) by (simp add: base_inv_def table_inv_def)
  with assms(3) have "unat (seq s + 1) = Suc (unat (seq s))"
    using unat_add_lem [of "seq s" 1] by simp
  with assms(1) n have "base_inv (Suc n) (s\<lparr>seq := seq s + 1\<rparr>)"
    by (auto simp: base_inv_def table_inv_def kind_inv_def unary_inv_def upend_def [abs_def]
        uref_def [abs_def] uopen_def [abs_def] ures_def [abs_def] uloop_def le_SucI)
  then have "base_inv (Suc n) (set_pc i (Finished out) (s\<lparr>seq := seq s + 1\<rparr>))"
    using k c(1) by (intro base_set_pc) auto
  with assms(2) c show ?thesis by (auto simp: cancel_send_def Let_def set_pc_wire)
qed

lemma start_delivery_base: "base_inv n s \<Longrightarrow> loop s = LIdle \<Longrightarrow> base_inv n (start_delivery reg f s)"
  unfolding start_delivery_def
  by (rule subst [of "s\<lparr>loop := LStream reg f\<rparr>\<lparr>regs := _\<rparr>"])
    (simp_all add: base_inv_loop uloop_def)

lemma base_deliver:
  assumes "base_inv n s" "deliver r s = Some s'"
  shows "base_inv n s'"
proof -
  from assms(2) have idle: "loop s = LIdle" by (auto simp: deliver_def split: if_splits)
  show ?thesis
  proof (cases "mget (pendingStream s) (rs_request_id r)")
    case (Some reg)
    with assms idle show ?thesis
      by (auto simp: deliver_def Let_def intro!: start_delivery_base base_inv_pendingStream_mdel)
  next
    case none: None
    show ?thesis
    proof (cases "mget (pending s) (rs_request_id r)")
      case None
      with none assms idle show ?thesis by (simp add: deliver_def Let_def)
    next
      case (Some ch)
      let ?k = "rs_request_id r"
      have s': "s' = s\<lparr>pending := mdel ?k (pending s), loop := LUnary ch r\<rparr>"
        using none Some assms(2) idle by (simp add: deliver_def Let_def)
      have "?k \<in> range requestID"
        using assms(1) Some by (auto simp: base_inv_def table_inv_def)
      then obtain i where i: "?k = requestID i" by blast
      have l: "uloop s = None" using idle by (simp add: uloop_def)
      have "upend s i = Some ch" using Some i by (simp add: upend_def)
      from unary_ok_deliver [OF base_inv_unary [OF assms(1), unfolded unary_inv_def l] this i]
      have ok: "unary_ok ((upend s)(i := None)) (mget (chans s)) (nextRef s) (uref s) (uopen s)
          (ures s) (Some (ch, r))" .
      have "upend s' = (upend s)(i := None)"
        by (simp add: s' i upend_def [abs_def] upend_mdel)
      moreover have "uloop s' = Some (ch, r)" "chans s' = chans s" "nextRef s' = nextRef s"
          "uref s' = uref s" "uopen s' = uopen s" "ures s' = ures s"
        by (simp_all add: s' uloop_def uref_def [abs_def] uopen_def [abs_def] ures_def [abs_def])
      ultimately have "unary_inv s'" using ok by (simp add: unary_inv_def)
      moreover have "table_inv n s'"
        using assms(1) by (auto simp: s' base_inv_def table_inv_def gomap_simps intro: gomap_wf)
      moreover have "kind_inv s'" using assms(1) by (simp add: s' base_inv_def kind_inv_def)
      ultimately show ?thesis by (simp add: base_inv_def)
    qed
  qed
qed

text \<open>The delivery of a unary result never finds its channel closed or full.\<close>

lemma unary_send_ready:
  assumes "base_inv n s" "loop s = LUnary ch r"
  shows "mget (chans s) ch = Some fresh_chan"
  using unary_okD(6) [OF base_inv_unary [OF assms(1), unfolded unary_inv_def], of ch r] assms(2)
  by (simp add: uloop_def)

lemma base_unary_send:
  assumes "base_inv n s" "unary_send s = Some s'"
  shows "base_inv n s'"
proof -
  from assms(2) obtain ch r where l: "loop s = LUnary ch r"
    by (auto simp: unary_send_def split: loopPc.splits)
  have s': "s' = s\<lparr>chans := mput ch (fresh_chan\<lparr>rc_buf := Some r\<rparr>) (chans s), loop := LIdle\<rparr>"
    using assms(2) unary_send_ready [OF assms(1) l] l by (simp add: unary_send_def fresh_chan_def)
  have "uloop s = Some (ch, r)" using l by (simp add: uloop_def)
  from unary_ok_send [OF base_inv_unary [OF assms(1), unfolded unary_inv_def this]]
  have "unary_inv s'"
    by (simp add: s' unary_inv_def uloop_def upend_def [abs_def] uref_def [abs_def]
        uopen_def [abs_def] ures_def [abs_def] gomap_simps)
  moreover have "table_inv n s'" "kind_inv s'"
    using assms(1) by (simp_all add: s' base_inv_def table_inv_def kind_inv_def)
  ultimately show ?thesis by (simp add: base_inv_def)
qed

lemma fold_close_chan:
  assumes "distinct (map snd ps)" "\<forall>ch \<in> snd ` set ps. mget (chans s) ch = Some fresh_chan"
  shows "\<exists>chs. fold (\<lambda>(_, ch). close_chan ch) ps s = s\<lparr>chans := chs\<rparr> \<and>
    mget chs = (\<lambda>ch. if ch \<in> snd ` set ps then Some (fresh_chan\<lparr>rc_closed := True\<rparr>) else mget (chans s) ch)"
  using assms
proof (induction ps arbitrary: s)
  case Nil
  then show ?case by (intro exI [of _ "chans s"]) auto
next
  case (Cons p ps)
  obtain k ch where p: "p = (k, ch)" by (cases p)
  let ?s1 = "s\<lparr>chans := mput ch (fresh_chan\<lparr>rc_closed := True\<rparr>) (chans s)\<rparr>"
  have c: "close_chan ch s = ?s1"
    using Cons.prems(2) by (simp add: p close_chan_def fresh_chan_def)
  have "\<forall>ch \<in> snd ` set ps. mget (chans ?s1) ch = Some fresh_chan"
    using Cons.prems by (auto simp: p gomap_simps)
  with Cons.IH [of ?s1] Cons.prems(1) obtain chs where
    "fold (\<lambda>(_, ch). close_chan ch) ps ?s1 = ?s1\<lparr>chans := chs\<rparr>"
    "mget chs = (\<lambda>ch. if ch \<in> snd ` set ps then Some (fresh_chan\<lparr>rc_closed := True\<rparr>) else mget (chans ?s1) ch)"
    by auto
  then show ?case by (intro exI [of _ chs]) (auto simp: p c gomap_simps fun_eq_iff)
qed

lemma pending_refs:
  assumes "base_inv n s"
  shows "distinct (map snd (pending s))" and "snd ` set (pending s) = ran (upend s)"
proof -
  have wf: "mwf (pending s)" and keys: "\<forall>k ch. mget (pending s) k = Some ch \<longrightarrow> k \<in> range requestID"
    using assms by (simp_all add: base_inv_def table_inv_def)
  note D = unary_okD [OF base_inv_unary [OF assms, unfolded unary_inv_def]]
  have "inj_on snd (set (pending s))"
  proof (rule inj_onI)
    fix x y assume xy: "x \<in> set (pending s)" "y \<in> set (pending s)" "snd x = snd y"
    then have "mget (pending s) (fst x) = Some (snd x)" "mget (pending s) (fst y) = Some (snd x)"
      using wf by (metis mwf_mget_iff prod.collapse)+
    moreover from this keys obtain i j where "fst x = requestID i" "fst y = requestID j" by blast
    ultimately have "upend s i = Some (snd x)" "upend s j = Some (snd x)" by (simp_all add: upend_def)
    then have "i = j" by (rule D(2))
    with \<open>fst x = requestID i\<close> \<open>fst y = requestID j\<close> xy(3) show "x = y" by (simp add: prod_eq_iff)
  qed
  then show "distinct (map snd (pending s))"
    using wf by (simp add: mwf_def distinct_map)
  show "snd ` set (pending s) = ran (upend s)"
  proof (intro set_eqI iffI)
    fix ch assume "ch \<in> snd ` set (pending s)"
    then obtain k where "mget (pending s) k = Some ch" using wf by (auto simp: mwf_mget_iff)
    with keys show "ch \<in> ran (upend s)" by (auto simp: ran_def upend_def)
  next
    fix ch assume "ch \<in> ran (upend s)"
    then obtain i where "mget (pending s) (requestID i) = Some ch" by (auto simp: ran_def upend_def)
    then show "ch \<in> snd ` set (pending s)" using wf by (force simp: mwf_mget_iff [symmetric])
  qed
qed

lemma base_closeAll:
  assumes "base_inv n s"
  shows "base_inv n (closeAll s)"
proof -
  note D = unary_okD [OF base_inv_unary [OF assms, unfolded unary_inv_def]]
  have "\<forall>ch \<in> snd ` set (pending s). mget (chans (s\<lparr>closed := True\<rparr>)) ch = Some fresh_chan"
    unfolding pending_refs(2) [OF assms] using D(1) by (auto simp: ran_def)
  from fold_close_chan [OF pending_refs(1) [OF assms] this] obtain chs where
    f: "fold (\<lambda>(_, ch). close_chan ch) (pending s) (s\<lparr>closed := True\<rparr>) = s\<lparr>closed := True, chans := chs\<rparr>"
    and chs: "mget chs = (\<lambda>ch. if ch \<in> ran (upend s) then Some (fresh_chan\<lparr>rc_closed := True\<rparr>) else mget (chans s) ch)"
    unfolding pending_refs(2) [OF assms] by (auto cong: if_cong)
  let ?s' = "s\<lparr>closed := True, chans := chs, pending := [], pendingStream := [],
      closing := closing s @ map snd (pendingStream s)\<rparr>"
  have s': "closeAll s = ?s'" by (simp add: closeAll_def f)
  have "unary_inv ?s'"
    using unary_ok_closeAll [OF base_inv_unary [OF assms, unfolded unary_inv_def]]
    by (simp add: unary_inv_def chs uloop_def upend_def [abs_def] uref_def [abs_def]
        uopen_def [abs_def] ures_def [abs_def])
  moreover have "table_inv n ?s'" "kind_inv ?s'"
    using assms by (simp_all add: base_inv_def table_inv_def kind_inv_def)
  ultimately show ?thesis unfolding s' by (simp add: base_inv_def)
qed

lemma base_loop_idle: "base_inv n s \<Longrightarrow> loop s = LStream reg f \<Longrightarrow> base_inv n (s\<lparr>loop := LIdle\<rparr>)"
  by (rule base_inv_loop) (simp_all add: uloop_def)

lemma base_step:
  assumes "base_inv n s" "conn_step cp e s = Some s'" "Suc n < 2 ^ 64"
  shows "base_inv (Suc n) s'"
proof (cases e)
  case (Begin k m p)
  with assms show ?thesis by (auto intro: base_begin)
next
  case (CancelSend i ok)
  with assms show ?thesis by (auto intro: base_cancel_send)
next
  case (Chunk i d l ok)
  with assms show ?thesis
    by (auto simp: sendChunk_def base_inv_mono split: option.splits callPc.splits if_splits)
next
  case (StartAwait i)
  then obtain c ch where c: "mget (calls s) i = Some c" "c_pc c = Uploading ch" "s' = set_pc i (Awaiting ch) s"
    using assms(2) by (auto simp: start_await_def split: option.splits callPc.splits)
  then have "base_inv n s'"
    using base_kind [OF assms(1) c(1)] base_set_pc [OF assms(1) c(1), of "Awaiting ch"] by simp
  then show ?thesis by (rule base_inv_mono)
next
  case (AwaitCtx i)
  then obtain c ch where c: "mget (calls s) i = Some c" "c_pc c = Awaiting ch"
      "s' = set_pc i (Leaving (OutErr ErrContext)) s"
    using assms(2) by (auto simp: await_ctx_def split: option.splits callPc.splits)
  then have "base_inv n s'"
    using base_kind [OF assms(1) c(1)] base_leaving [OF assms(1) c(1), of "OutErr ErrContext"] by simp
  then show ?thesis by (rule base_inv_mono)
next
  case (Cancel i)
  then obtain c ch where c: "mget (calls s) i = Some c" "c_pc c = Consuming ch"
      "s' = set_pc i (CancelLock ch OutCancelled) s"
    using assms(2) by (auto simp: call_cancel_def split: option.splits callPc.splits)
  then have "base_inv n s'"
    using base_kind [OF assms(1) c(1)] base_set_pc [OF assms(1) c(1), of "CancelLock ch OutCancelled"] by simp
  then show ?thesis by (rule base_inv_mono)
next
  case (Progress p)
  with assms have "base_inv n s'"
    by (auto simp: deliverProgress_def split: if_splits option.splits intro: start_delivery_base)
  then show ?thesis by (rule base_inv_mono)
next
  case StreamSend
  with assms(2) obtain reg f r where s': "loop s = LStream reg f"
      "s' = s\<lparr>regs := mput reg (r\<lparr>sr_ch := sr_ch r @ [f]\<rparr>) (regs s), loop := LIdle\<rparr>"
    by (auto simp: stream_send_def split: loopPc.splits option.splits if_splits)
  have "base_inv n (s\<lparr>regs := mput reg (r\<lparr>sr_ch := sr_ch r @ [f]\<rparr>) (regs s)\<rparr>)" using assms(1) by simp
  from base_loop_idle [OF this] s' show ?thesis by (auto intro: base_inv_mono)
next
  case StreamSendDone
  with assms base_loop_idle [OF assms(1)] show ?thesis
    by (auto simp: stream_send_done_def split: loopPc.splits option.splits if_splits intro: base_inv_mono)
next
  case StreamDrop
  with assms base_loop_idle [OF assms(1)] show ?thesis
    by (auto simp: stream_drop_def split: loopPc.splits option.splits if_splits intro: base_inv_mono)
next
  case CloseNext
  with assms show ?thesis
    by (auto simp: close_next_def close_reg_base base_inv_mono split: list.splits)
qed (use assms in \<open>auto intro: base_inv_mono base_register base_send_request base_await_recv base_leave
      base_stream_recv base_cancel_lock base_cancel_close base_deliver base_unary_send base_closeAll\<close>)

subsection \<open>The stream invariant along the steps\<close>

definition sref :: "agentConn \<Rightarrow> 64 word \<Rightarrow> nat option" where
  "sref s i = (case mget (calls s) i of
     Some c \<Rightarrow> if c_kind c = KStream then cref (c_pc c) else None | None \<Rightarrow> None)"

definition sgot :: "agentConn \<Rightarrow> 64 word \<Rightarrow> streamFrame list" where
  "sgot s i = (case mget (calls s) i of Some c \<Rightarrow> c_got c | None \<Rightarrow> [])"

definition srel :: "agentConn \<Rightarrow> 64 word \<Rightarrow> bool" where
  "srel s i = (case mget (calls s) i of Some c \<Rightarrow> streamReliable (c_method c) | None \<Rightarrow> False)"

definition spend :: "agentConn \<Rightarrow> 64 word \<Rightarrow> nat option" where
  "spend s i = mget (pendingStream s) (requestID i)"

definition sloop :: "agentConn \<Rightarrow> (nat \<times> streamFrame) option" where
  "sloop s = (case loop s of LStream ch f \<Rightarrow> Some (ch, f) | _ \<Rightarrow> None)"

definition inflight :: "(nat \<times> streamFrame) option \<Rightarrow> nat \<Rightarrow> streamFrame list" where
  "inflight lp ch = (case lp of Some (c, f) \<Rightarrow> if c = ch then [f] else [] | None \<Rightarrow> [])"

text \<open>
  What a consumer has received, what is buffered for it and what is being delivered, against what
  the receive loop set out to deliver: in order, complete on a reliable stream that has not been
  torn down, and with nothing after a terminal frame.
\<close>

definition reg_ok :: "streamFrame list \<Rightarrow> bool \<Rightarrow> streamReg \<Rightarrow> streamFrame list \<Rightarrow> bool" where
  "reg_ok got rel r infl \<longleftrightarrow>
     subseq (got @ sr_ch r @ infl) (sr_log r) \<and>
     (rel \<and> \<not> sr_done r \<longrightarrow> got @ sr_ch r @ infl = sr_log r) \<and>
     (\<forall>f \<in> set (butlast (sr_log r)). \<not> sf_final f) \<and> length (sr_ch r) \<le> frameCap \<and>
     sr_reliable r = rel"

definition stream_ok :: "(64 word \<rightharpoonup> nat) \<Rightarrow> (nat \<rightharpoonup> streamReg) \<Rightarrow> nat \<Rightarrow> (64 word \<rightharpoonup> nat) \<Rightarrow>
    (64 word \<Rightarrow> streamFrame list) \<Rightarrow> (64 word \<Rightarrow> bool) \<Rightarrow> (nat \<times> streamFrame) option \<Rightarrow> bool" where
  "stream_ok pend rgs nref ref got rel lp \<longleftrightarrow>
     (\<forall>i ch. pend i = Some ch \<longrightarrow> (\<exists>r. rgs ch = Some r \<and> (\<forall>f \<in> set (sr_log r). \<not> sf_final f))) \<and>
     (\<forall>i j ch. pend i = Some ch \<longrightarrow> pend j = Some ch \<longrightarrow> i = j) \<and>
     (\<forall>i ch. ref i = Some ch \<longrightarrow> (\<exists>r. rgs ch = Some r \<and> reg_ok (got i) (rel i) r (inflight lp ch))) \<and>
     (\<forall>i j ch. ref i = Some ch \<longrightarrow> ref j = Some ch \<longrightarrow> i = j) \<and>
     (\<forall>ch r. rgs ch = Some r \<longrightarrow> ch < nref) \<and>
     (\<forall>ch f. lp = Some (ch, f) \<longrightarrow> rgs ch \<noteq> None)"

definition stream_inv :: "agentConn \<Rightarrow> bool" where
  "stream_inv s \<longleftrightarrow>
     stream_ok (spend s) (mget (regs s)) (nextRef s) (sref s) (sgot s) (srel s) (sloop s) \<and>
     (\<forall>k ch. mget (pendingStream s) k = Some ch \<longrightarrow> k \<in> range requestID) \<and>
     (\<forall>i c. mget (calls s) i = Some c \<longrightarrow> c_pc c = Begun \<longrightarrow> c_got c = [])"

lemma stream_okD:
  assumes "stream_ok pend rgs nref ref got rel lp"
  shows "pend i = Some ch \<Longrightarrow> \<exists>r. rgs ch = Some r \<and> (\<forall>f \<in> set (sr_log r). \<not> sf_final f)"
    and "pend i = Some ch \<Longrightarrow> pend j = Some ch \<Longrightarrow> i = j"
    and "ref i = Some ch \<Longrightarrow> \<exists>r. rgs ch = Some r \<and> reg_ok (got i) (rel i) r (inflight lp ch)"
    and "ref i = Some ch \<Longrightarrow> ref j = Some ch \<Longrightarrow> i = j"
    and "rgs ch = Some r \<Longrightarrow> ch < nref"
    and "lp = Some (ch, f) \<Longrightarrow> \<exists>r. rgs ch = Some r"
proof goal_cases
  case 1
  then show ?case using assms unfolding stream_ok_def by metis
next
  case 2
  then show ?case using assms unfolding stream_ok_def by metis
next
  case 3
  then show ?case using assms unfolding stream_ok_def by metis
next
  case 4
  then show ?case using assms unfolding stream_ok_def by metis
next
  case 5
  then show ?case using assms unfolding stream_ok_def by metis
next
  case 6
  then show ?case using assms unfolding stream_ok_def by (metis option.exhaust)
qed

lemma stream_okI:
  assumes "\<And>i ch. pend i = Some ch \<Longrightarrow> \<exists>r. rgs ch = Some r \<and> (\<forall>f \<in> set (sr_log r). \<not> sf_final f)"
    and "\<And>i j ch. pend i = Some ch \<Longrightarrow> pend j = Some ch \<Longrightarrow> i = j"
    and "\<And>i ch. ref i = Some ch \<Longrightarrow> \<exists>r. rgs ch = Some r \<and> reg_ok (got i) (rel i) r (inflight lp ch)"
    and "\<And>i j ch. ref i = Some ch \<Longrightarrow> ref j = Some ch \<Longrightarrow> i = j"
    and "\<And>ch r. rgs ch = Some r \<Longrightarrow> ch < nref"
    and "\<And>ch f. lp = Some (ch, f) \<Longrightarrow> \<exists>r. rgs ch = Some r"
  shows "stream_ok pend rgs nref ref got rel lp"
  unfolding stream_ok_def using assms by blast

lemma stream_ok_register:
  assumes "stream_ok pend rgs nref ref got rel lp" "got i = []" "rel i = b"
  shows "stream_ok (pend(i \<mapsto> nref))
           (rgs(nref \<mapsto> \<lparr>sr_ch = [], sr_done = False, sr_reliable = b, sr_log = []\<rparr>)) (Suc nref)
           (ref(i \<mapsto> nref)) got rel lp"
proof -
  note D = stream_okD [OF assms(1)]
  have n: "rgs nref = None" using D(5) [of nref] by (cases "rgs nref") auto
  have p: "pend j \<noteq> Some nref" for j using D(1) [of j nref] n by auto
  have r: "ref j \<noteq> Some nref" for j using D(3) [of j nref] n by auto
  have l: "inflight lp nref = []" using D(6) [of nref] n by (auto simp: inflight_def split: option.splits)
  show ?thesis
  proof (rule stream_okI, goal_cases)
    case (1 j ch)
    then show ?case using D(1) [of j ch] p by (auto split: if_splits)
  next
    case (2 j k ch)
    then show ?case using D(2) [of j ch k] p [of j] p [of k] by (auto split: if_splits)
  next
    case (3 j ch)
    then show ?case
      using D(3) [of j ch] r [of j] l assms(2,3) by (auto simp: reg_ok_def split: if_splits)
  next
    case (4 j k ch)
    then show ?case using D(4) [of j ch k] r [of j] r [of k] by (auto split: if_splits)
  next
    case (5 ch q)
    then show ?case using D(5) [of ch q] by (auto split: if_splits)
  next
    case (6 ch f)
    then show ?case using D(6) [of ch f] by (auto split: if_splits)
  qed
qed

text \<open>A step that rewrites one registration, and what its owner has received, in place.\<close>

lemma stream_ok_reg:
  assumes "stream_ok pend rgs nref ref got rel lp" "rgs ch = Some r"
    and "\<And>i. pend' i = Some ch \<Longrightarrow> \<forall>f \<in> set (sr_log r'). \<not> sf_final f"
    and "\<And>i c. pend' i = Some c \<Longrightarrow> pend i = Some c"
    and "\<And>i c. ref i = Some c \<Longrightarrow> c \<noteq> ch \<Longrightarrow> got' i = got i \<and> inflight lp' c = inflight lp c"
    and "\<And>i. ref i = Some ch \<Longrightarrow> reg_ok (got i) (rel i) r (inflight lp ch) \<Longrightarrow>
        reg_ok (got' i) (rel i) r' (inflight lp' ch)"
    and "\<And>c f. lp' = Some (c, f) \<Longrightarrow> c = ch \<or> lp = Some (c, f)"
  shows "stream_ok pend' (rgs(ch \<mapsto> r')) nref ref got' rel lp'"
proof -
  note D = stream_okD [OF assms(1)]
  show ?thesis
  proof (rule stream_okI, goal_cases)
    case (1 i c)
    then show ?case using D(1) [of i c] assms(3) [of i] assms(4) [of i c] by (auto split: if_splits)
  next
    case (2 i j c)
    then show ?case using D(2) [of i c j] assms(4) by blast
  next
    case (3 i c)
    then show ?case using D(3) [of i c] assms(2) assms(5) [of i c] assms(6) [of i] by (auto split: if_splits)
  next
    case (4 i j c)
    then show ?case using D(4) by blast
  next
    case (5 c q)
    then show ?case using D(5) [of c q] D(5) [OF assms(2)] by (auto split: if_splits)
  next
    case (6 c f)
    then show ?case using D(6) [of c f] assms(7) [of c f] by (auto split: if_splits)
  qed
qed

lemma s_set_pc:
  assumes "mget (calls s) i = Some c"
  shows "sref (set_pc i pc s) = (sref s)(i := if c_kind c = KStream then cref pc else None)"
    and "sgot (set_pc i pc s) = sgot s" "srel (set_pc i pc s) = srel s"
    and "sloop (set_pc i pc s) = sloop s" "spend (set_pc i pc s) = spend s"
  using assms by (auto simp: fun_eq_iff sref_def sgot_def srel_def sloop_def spend_def calls_set_pc)

lemma s_calls:
  assumes "calls s' = calls s"
  shows "sref s' = sref s" "sgot s' = sgot s" "srel s' = srel s"
  using assms by (simp_all add: fun_eq_iff sref_def sgot_def srel_def)

lemma stream_inv_weaken:
  assumes "stream_inv s" "regs s' = regs s" "nextRef s \<le> nextRef s'" "sloop s' = sloop s"
    and "\<And>k ch. mget (pendingStream s') k = Some ch \<Longrightarrow> mget (pendingStream s) k = Some ch"
    and "\<And>i ch. sref s' i = Some ch \<Longrightarrow> sref s i = Some ch \<and> sgot s' i = sgot s i \<and> srel s' i = srel s i"
    and "\<And>i c. mget (calls s') i = Some c \<Longrightarrow> c_pc c = Begun \<Longrightarrow> c_got c = []"
  shows "stream_inv s'"
proof -
  have ok: "stream_ok (spend s) (mget (regs s)) (nextRef s) (sref s) (sgot s) (srel s) (sloop s)"
    and keys: "\<forall>k ch. mget (pendingStream s) k = Some ch \<longrightarrow> k \<in> range requestID"
    using assms(1) by (simp_all add: stream_inv_def)
  note D = stream_okD [OF ok]
  have p: "spend s' i = Some ch \<Longrightarrow> spend s i = Some ch" for i ch
    using assms(5) by (simp add: spend_def)
  have "stream_ok (spend s') (mget (regs s')) (nextRef s') (sref s') (sgot s') (srel s') (sloop s')"
    unfolding assms(2,4)
  proof (rule stream_okI, goal_cases)
    case (1 i ch)
    from D(1) [OF p [OF this]] show ?case .
  next
    case (2 i j ch)
    from D(2) [OF p [OF this(1)] p [OF this(2)]] show ?case .
  next
    case (3 i ch)
    with D(3) [of i ch] assms(6) show ?case by auto
  next
    case (4 i j ch)
    with D(4) [of i ch j] assms(6) show ?case by blast
  next
    case (5 ch r)
    with D(5) [of ch r] assms(3) show ?case by simp
  next
    case (6 ch f)
    with D(6) show ?case by blast
  qed
  then show ?thesis using assms(5,7) keys unfolding stream_inv_def by blast
qed

lemma stream_set_pc:
  assumes "stream_inv s" "mget (calls s) i = Some c" "cref pc = None \<or> cref pc = cref (c_pc c)" "pc \<noteq> Begun"
  shows "stream_inv (set_pc i pc s)"
proof (rule stream_inv_weaken [OF assms(1)], goal_cases)
  case (5 j ch)
  then show ?case
    using assms(2,3) by (auto simp: s_set_pc split: if_splits) (auto simp: sref_def)
next
  case (6 j d)
  then show ?case
    using assms by (auto simp: calls_set_pc stream_inv_def split: if_splits)
qed (use assms(2) in \<open>simp_all add: s_set_pc\<close>)

lemma stream_frame:
  assumes "stream_inv s" "calls s' = calls s" "regs s' = regs s" "nextRef s \<le> nextRef s'"
    "sloop s' = sloop s" "\<And>k ch. mget (pendingStream s') k = Some ch \<Longrightarrow> mget (pendingStream s) k = Some ch"
  shows "stream_inv s'"
  using assms s_calls [of s' s]
  by (intro stream_inv_weaken [OF assms(1)]) (auto simp: stream_inv_def)

lemma stream_begin: "stream_inv s \<Longrightarrow> mget (calls s) (seq s + 1) = None \<Longrightarrow> stream_inv (begin_call k m p s)"
  by (rule stream_inv_weaken)
    (auto simp: begin_call_def sloop_def sref_def sgot_def srel_def gomap_simps stream_inv_def
      split: if_splits)

lemma stream_register:
  assumes "stream_inv s" "register_call i s = Some s'"
  shows "stream_inv s'"
proof -
  from assms(2) obtain c where c: "mget (calls s) i = Some c" "c_pc c = Begun"
    by (auto simp: register_call_def split: option.splits if_splits)
  let ?ch = "nextRef s"
  show ?thesis
  proof (cases "closed s")
    case True
    with assms(2) c have "s' = set_pc i (Finished (OutErr ErrDisconnected)) s"
      by (simp add: register_call_def)
    with stream_set_pc [OF assms(1) c(1)] show ?thesis by simp
  next
    case open_: False
    show ?thesis
    proof (cases "c_kind c = KStream")
      case False
      let ?s1 = "s\<lparr>nextRef := Suc ?ch, pending := mput (requestID i) ?ch (pending s),
          chans := mput ?ch fresh_chan (chans s)\<rparr>"
      have s': "s' = set_pc i (Sending ?ch) ?s1"
        using assms(2) c open_ False by (simp add: register_call_def Let_def fresh_chan_def)
      have c1: "mget (calls ?s1) i = Some c" using c(1) by simp
      have "stream_inv ?s1" by (rule stream_frame [OF assms(1)]) (simp_all add: sloop_def)
      then show ?thesis unfolding s'
        by (rule stream_inv_weaken)
          (use False c1 c assms(1) in \<open>auto simp: s_set_pc calls_set_pc stream_inv_def split: if_splits\<close>)
    next
      case True
      let ?r = "\<lparr>sr_ch = [], sr_done = False, sr_reliable = streamReliable (c_method c), sr_log = []\<rparr>"
      let ?s1 = "s\<lparr>nextRef := Suc ?ch, pendingStream := mput (requestID i) ?ch (pendingStream s),
          regs := mput ?ch ?r (regs s)\<rparr>"
      have s': "s' = set_pc i (Sending ?ch) ?s1"
        using assms(2) c open_ True by (simp add: register_call_def Let_def)
      have c1: "mget (calls ?s1) i = Some c" using c(1) by simp
      have got: "sgot s i = []" "srel s i = streamReliable (c_method c)"
        using c assms(1) by (simp_all add: sgot_def srel_def stream_inv_def)
      have "stream_ok ((spend s)(i \<mapsto> ?ch)) ((mget (regs s))(?ch \<mapsto> ?r)) (Suc ?ch) ((sref s)(i \<mapsto> ?ch))
          (sgot s) (srel s) (sloop s)"
        by (rule stream_ok_register) (use got assms(1) in \<open>simp_all add: stream_inv_def\<close>)
      moreover have "spend s' = (spend s)(i \<mapsto> ?ch)"
        by (simp add: s' spend_def [abs_def] upend_mput)
      moreover have "mget (regs s') = (mget (regs s))(?ch \<mapsto> ?r)" "nextRef s' = Suc ?ch"
        by (simp_all add: s' gomap_simps)
      moreover have "sref s' = (sref s)(i \<mapsto> ?ch)" "sgot s' = sgot s" "srel s' = srel s" "sloop s' = sloop s"
        unfolding s' s_set_pc [OF c1] using True s_calls [of ?s1 s] by (simp_all add: sloop_def)
      ultimately show ?thesis
        using assms(1) c by (auto simp: stream_inv_def s' calls_set_pc [OF c1] gomap_simps)
    qed
  qed
qed

lemma stream_close_reg:
  assumes "stream_inv s"
  shows "stream_inv (close_reg ch s)"
proof (cases "mget (regs s) ch")
  case None
  with assms show ?thesis by (simp add: close_reg_def)
next
  case (Some r)
  let ?s' = "s\<lparr>regs := mput ch (r\<lparr>sr_done := True\<rparr>) (regs s)\<rparr>"
  have ok: "stream_ok (spend s) (mget (regs s)) (nextRef s) (sref s) (sgot s) (srel s) (sloop s)"
    using assms by (simp add: stream_inv_def)
  have "stream_ok (spend s) ((mget (regs s))(ch \<mapsto> r\<lparr>sr_done := True\<rparr>)) (nextRef s) (sref s)
      (sgot s) (srel s) (sloop s)"
    by (rule stream_ok_reg [OF ok Some])
      (use stream_okD(1) [OF ok, of _ ch] Some in \<open>auto simp: reg_ok_def\<close>)
  with assms have "stream_inv ?s'"
    by (simp add: stream_inv_def s_calls [of ?s' s] spend_def [abs_def] sloop_def gomap_simps)
  with Some show ?thesis by (simp add: close_reg_def)
qed

lemma stream_stream_recv:
  assumes "stream_inv s" "stream_recv i s = Some s'" "kind_inv s"
  shows "stream_inv s'"
proof -
  from assms(2) obtain c ch r f fs where c: "mget (calls s) i = Some c" "c_pc c = Consuming ch"
      "mget (regs s) ch = Some r" "sr_ch r = f # fs"
    and s': "s' = s\<lparr>regs := mput ch (r\<lparr>sr_ch := fs\<rparr>) (regs s),
                   calls := mput i (c\<lparr>c_got := c_got c @ [f]\<rparr>) (calls s)\<rparr>"
    by (auto simp: stream_recv_def split: option.splits callPc.splits list.splits)
  have ok: "stream_ok (spend s) (mget (regs s)) (nextRef s) (sref s) (sgot s) (srel s) (sloop s)"
    using assms(1) by (simp add: stream_inv_def)
  have k: "c_kind c = KStream" using assms(3) c(1,2) by (force simp: kind_inv_def)
  have i: "sref s i = Some ch" "sgot s i = c_got c" using c k by (simp_all add: sref_def sgot_def)
  have "stream_ok (spend s) ((mget (regs s))(ch \<mapsto> r\<lparr>sr_ch := fs\<rparr>)) (nextRef s) (sref s)
      ((sgot s)(i := c_got c @ [f])) (srel s) (sloop s)"
  proof (rule stream_ok_reg [OF ok c(3)], goal_cases)
    case (1 j)
    then show ?case using stream_okD(1) [OF ok, of j ch] c(3) by auto
  next
    case (3 j d)
    then show ?case using i by auto
  next
    case (4 j)
    then have "j = i" using stream_okD(4) [OF ok i(1)] by auto
    with 4 i c(4) show ?case by (auto simp: reg_ok_def)
  qed auto
  moreover have "sref s' = sref s" "sgot s' = (sgot s)(i := c_got c @ [f])" "srel s' = srel s"
    using c by (auto simp: s' fun_eq_iff sref_def sgot_def srel_def gomap_simps)
  ultimately show ?thesis
    using assms(1) c by (auto simp: stream_inv_def s' spend_def [abs_def] sloop_def gomap_simps)
qed

lemma stream_start_delivery:
  assumes "stream_inv s" "spend s i = Some ch" "loop s = LIdle"
    and "s0 = (if sf_final f then s\<lparr>pendingStream := mdel (requestID i) (pendingStream s)\<rparr> else s)"
  shows "stream_inv (start_delivery ch f s0)"
proof -
  have ok: "stream_ok (spend s) (mget (regs s)) (nextRef s) (sref s) (sgot s) (srel s) (sloop s)"
    using assms(1) by (simp add: stream_inv_def)
  from stream_okD(1) [OF ok assms(2)] obtain r where
    r: "mget (regs s) ch = Some r" "\<forall>f \<in> set (sr_log r). \<not> sf_final f" by blast
  have lp: "sloop s = None" using assms(3) by (simp add: sloop_def)
  let ?pend = "if sf_final f then (spend s)(i := None) else spend s"
  have "stream_ok ?pend ((mget (regs s))(ch \<mapsto> r\<lparr>sr_log := sr_log r @ [f]\<rparr>)) (nextRef s) (sref s)
      (sgot s) (srel s) (Some (ch, f))"
  proof (rule stream_ok_reg [OF ok r(1)], goal_cases)
    case (1 j)
    then show ?case
      using stream_okD(2) [OF ok assms(2), of j] r(2) by (auto split: if_splits)
  next
    case (2 j d)
    then show ?case by (auto split: if_splits)
  next
    case (3 j d)
    then show ?case by (simp add: inflight_def lp)
  next
    case (4 j)
    then show ?case
      using r(2) by (auto simp: reg_ok_def inflight_def lp simp flip: append_assoc)
  next
    case (5 d g)
    then show ?case by simp
  qed
  moreover have "regs (start_delivery ch f s0) = mput ch (r\<lparr>sr_log := sr_log r @ [f]\<rparr>) (regs s)"
    using r(1) by (simp add: start_delivery_def assms(4))
  moreover have "spend (start_delivery ch f s0) = ?pend"
    by (auto simp: start_delivery_def assms(4) spend_def [abs_def] upend_mdel)
  moreover have "calls (start_delivery ch f s0) = calls s" "nextRef (start_delivery ch f s0) = nextRef s"
      "sloop (start_delivery ch f s0) = Some (ch, f)"
    by (simp_all add: start_delivery_def assms(4) sloop_def)
  ultimately show ?thesis
    using assms(1) s_calls [of "start_delivery ch f s0" s]
    by (auto simp: stream_inv_def gomap_simps start_delivery_def assms(4))
qed

lemma stream_deliver:
  assumes "stream_inv s" "deliver res s = Some s'"
  shows "stream_inv s'"
proof -
  from assms(2) have idle: "loop s = LIdle" by (auto simp: deliver_def split: if_splits)
  show ?thesis
  proof (cases "mget (pendingStream s) (rs_request_id res)")
    case (Some ch)
    with assms(1) obtain i where i: "rs_request_id res = requestID i" by (auto simp: stream_inv_def)
    let ?f = "\<lparr>sf_payload = rs_payload res, sf_code = rs_code res, sf_error = rs_error res, sf_final = True\<rparr>"
    have "s' = start_delivery ch ?f (s\<lparr>pendingStream := mdel (requestID i) (pendingStream s)\<rparr>)"
      using assms(2) Some i idle by (simp add: deliver_def Let_def)
    moreover have "spend s i = Some ch" using Some i by (simp add: spend_def)
    ultimately show ?thesis using stream_start_delivery [OF assms(1) _ idle, of i ch _ ?f] by simp
  next
    case None
    with assms idle show ?thesis
      by (auto simp: deliver_def Let_def sloop_def split: option.splits intro: stream_frame)
  qed
qed

lemma stream_progress:
  assumes "stream_inv s" "deliverProgress p s = Some s'"
  shows "stream_inv s'"
proof -
  from assms(2) have idle: "loop s = LIdle" by (auto simp: deliverProgress_def split: if_splits)
  show ?thesis
  proof (cases "mget (pendingStream s) (pg_request_id p)")
    case (Some ch)
    with assms(1) obtain i where i: "pg_request_id p = requestID i" by (auto simp: stream_inv_def)
    let ?f = "\<lparr>sf_payload = pg_payload p, sf_code = 0, sf_error = [], sf_final = False\<rparr>"
    have "s' = start_delivery ch ?f s" using assms(2) Some idle by (simp add: deliverProgress_def)
    moreover have "spend s i = Some ch" using Some i by (simp add: spend_def)
    ultimately show ?thesis using stream_start_delivery [OF assms(1) _ idle, of i ch _ ?f] by simp
  next
    case None
    with assms idle show ?thesis by (simp add: deliverProgress_def)
  qed
qed

lemma subseq_appendL: "subseq (xs @ ys) zs \<Longrightarrow> subseq xs zs"
  by (meson subseq_order.order_trans subseq_rev_drop_many subseq_order.order_refl)

text \<open>The three ways in which the delivery of a frame ends.\<close>

lemma stream_delivered:
  assumes "stream_inv s" "loop s = LStream ch f" "mget (regs s) ch = Some r"
    and "r' = r \<and> (sr_done r \<or> \<not> sr_reliable r) \<or> r' = r\<lparr>sr_ch := sr_ch r @ [f]\<rparr> \<and> length (sr_ch r) < frameCap"
  shows "stream_inv (s\<lparr>regs := mput ch r' (regs s), loop := LIdle\<rparr>)"
proof -
  let ?s' = "s\<lparr>regs := mput ch r' (regs s), loop := LIdle\<rparr>"
  have ok: "stream_ok (spend s) (mget (regs s)) (nextRef s) (sref s) (sgot s) (srel s) (sloop s)"
    using assms(1) by (simp add: stream_inv_def)
  have lp: "sloop s = Some (ch, f)" using assms(2) by (simp add: sloop_def)
  have "stream_ok (spend s) ((mget (regs s))(ch \<mapsto> r')) (nextRef s) (sref s) (sgot s) (srel s) None"
  proof (rule stream_ok_reg [OF ok assms(3)], goal_cases)
    case (1 j)
    then show ?case using stream_okD(1) [OF ok, of j ch] assms(3,4) by auto
  next
    case (3 j d)
    then show ?case by (simp add: inflight_def lp)
  next
    case (4 j)
    then have "subseq ((sgot s j @ sr_ch r) @ [f]) (sr_log r)" by (simp add: reg_ok_def inflight_def lp)
    then have "subseq (sgot s j @ sr_ch r) (sr_log r)" by (rule subseq_appendL)
    with 4 show ?case using assms(4) by (auto simp: reg_ok_def inflight_def lp)
  qed auto
  then show ?thesis
    using assms(1) s_calls [of ?s' s]
    by (simp add: stream_inv_def spend_def [abs_def] sloop_def gomap_simps)
qed

lemma stream_cancel_lock:
  assumes "stream_inv s" "cancel_lock i s = Some s'"
  shows "stream_inv s'"
proof -
  from assms(2) obtain c ch out where c: "mget (calls s) i = Some c" "c_pc c = CancelLock ch out"
    by (auto simp: cancel_lock_def split: option.splits callPc.splits)
  define s1 where "s1 = (if mget (pendingStream s) (requestID i) = Some ch
      then s\<lparr>pendingStream := mdel (requestID i) (pendingStream s)\<rparr> else s)"
  have "stream_inv s1"
    by (rule stream_frame [OF assms(1)]) (auto simp: s1_def sloop_def gomap_simps split: if_splits)
  moreover have "mget (calls s1) i = Some c" using c(1) by (simp add: s1_def)
  moreover have "\<exists>b. s' = set_pc i (CancelClosing ch b out) s1"
    using assms(2) c by (auto simp: cancel_lock_def Let_def s1_def)
  ultimately show ?thesis using stream_set_pc [of s1 i c] c(2) by auto
qed

lemma fold_close_chan_sel:
  "calls (fold (\<lambda>(_, ch). close_chan ch) ps s) = calls s \<and>
   regs (fold (\<lambda>(_, ch). close_chan ch) ps s) = regs s \<and>
   nextRef (fold (\<lambda>(_, ch). close_chan ch) ps s) = nextRef s \<and>
   loop (fold (\<lambda>(_, ch). close_chan ch) ps s) = loop s"
proof (induction ps arbitrary: s)
  case Nil
  show ?case by simp
next
  case (Cons p ps)
  have "calls (close_chan ch s) = calls s" "regs (close_chan ch s) = regs s"
      "nextRef (close_chan ch s) = nextRef s" "loop (close_chan ch s) = loop s" for ch
    by (simp_all add: close_chan_def split: option.splits)
  with Cons.IH show ?case by (simp add: case_prod_beta)
qed

lemma stream_closeAll: "stream_inv s \<Longrightarrow> stream_inv (closeAll s)"
  using fold_close_chan_sel [of "pending s" "s\<lparr>closed := True\<rparr>"]
  by (elim stream_frame) (simp_all add: closeAll_def sloop_def)

lemma stream_inv_irrelevant [simp]:
  "stream_inv (s\<lparr>wire := w\<rparr>) = stream_inv s" "stream_inv (s\<lparr>seq := q\<rparr>) = stream_inv s"
  "stream_inv (s\<lparr>chans := chs\<rparr>) = stream_inv s" "stream_inv (s\<lparr>pending := ps\<rparr>) = stream_inv s"
  "stream_inv (s\<lparr>closing := cs\<rparr>) = stream_inv s"
  by (simp_all add: stream_inv_def sref_def [abs_def] sgot_def [abs_def] srel_def [abs_def]
      spend_def [abs_def] sloop_def)

lemma stream_inv_same_regs:
  assumes "mget (regs s) ch = Some r"
  shows "stream_inv (s\<lparr>regs := mput ch r (regs s), loop := l\<rparr>) = stream_inv (s\<lparr>loop := l\<rparr>)"
proof -
  have "mget (mput ch r (regs s)) = mget (regs s)" using assms by (auto simp: gomap_simps fun_eq_iff)
  then show ?thesis
    by (simp add: stream_inv_def sref_def [abs_def] sgot_def [abs_def] srel_def [abs_def]
        spend_def [abs_def] sloop_def)
qed

lemma stream_step:
  assumes "stream_inv s" "base_inv n s" "conn_step cp e s = Some s'" "Suc n < 2 ^ 64"
  shows "stream_inv s'"
proof (cases e)
  case (Begin k m p)
  have n: "unat (seq s) \<le> n" using assms(2) by (simp add: base_inv_def table_inv_def)
  with assms(4) have "unat (seq s + 1) = Suc (unat (seq s))" using unat_add_lem [of "seq s" 1] by simp
  with assms(2) have "mget (calls s) (seq s + 1) = None"
    by (cases "mget (calls s) (seq s + 1)") (auto simp: base_inv_def table_inv_def)
  with Begin assms(1,3) show ?thesis by (auto intro: stream_begin)
next
  case (Register i)
  with assms show ?thesis by (auto intro: stream_register)
next
  case (Send i ok)
  with assms(1,3) show ?thesis
    by (auto simp: send_request_def set_pc_wire
        split: option.splits callPc.splits if_splits callKind.splits intro!: stream_set_pc)
next
  case (CancelLocked i)
  with assms show ?thesis by (auto intro: stream_cancel_lock)
next
  case (CancelClose i)
  with assms(3) obtain c ch b out where c: "mget (calls s) i = Some c" "c_pc c = CancelClosing ch b out"
      "s' = set_pc i (if b then CancelSending out else Finished out) (close_reg ch s)"
    by (auto simp: cancel_close_def split: option.splits callPc.splits)
  then have "mget (calls (close_reg ch s)) i = Some c" by (simp add: close_reg_def split: option.splits)
  with stream_close_reg [OF assms(1)] c show ?thesis by (auto intro!: stream_set_pc)
next
  case (StreamRecv i)
  with assms show ?thesis by (auto intro: stream_stream_recv simp: base_inv_def)
next
  case (Deliver r)
  with assms show ?thesis by (auto intro: stream_deliver)
next
  case (Progress p)
  with assms show ?thesis by (auto intro: stream_progress)
next
  case StreamSend
  with assms(1,3) show ?thesis
    by (auto simp: stream_send_def split: loopPc.splits option.splits if_splits intro!: stream_delivered)
next
  case CloseAll
  with assms show ?thesis by (auto intro: stream_closeAll)
next
  case CloseNext
  with assms(3) obtain ch rest where "s' = (close_reg ch s)\<lparr>closing := rest\<rparr>"
    by (auto simp: close_next_def split: list.splits)
  with stream_close_reg [OF assms(1), of ch] show ?thesis by simp
next
  case (CancelSend i ok)
  with assms(1,3) show ?thesis
    by (auto simp: cancel_send_def Let_def set_pc_wire split: option.splits callPc.splits if_splits
        intro!: stream_set_pc)
next
  case (Leave i)
  with assms(1,3) show ?thesis
    by (auto simp: leave_call_def split: option.splits callPc.splits intro!: stream_set_pc)
next
  case (AwaitRecv i)
  with assms(1,3) show ?thesis
    by (auto simp: await_recv_def split: option.splits callPc.splits if_splits intro!: stream_set_pc)
next
  case UnarySend
  with assms(1,3) show ?thesis
    by (auto simp: unary_send_def sloop_def split: option.splits loopPc.splits if_splits
        intro: stream_frame)
next
  case StreamSendDone
  with assms(3) obtain ch f r where "loop s = LStream ch f" "mget (regs s) ch = Some r" "sr_done r"
      "s' = s\<lparr>loop := LIdle\<rparr>"
    by (auto simp: stream_send_done_def split: loopPc.splits option.splits if_splits)
  with stream_delivered [OF assms(1), of ch f r r] show ?thesis by (simp add: stream_inv_same_regs)
next
  case StreamDrop
  with assms(3) obtain ch f r where "loop s = LStream ch f" "mget (regs s) ch = Some r" "\<not> sr_reliable r"
      "s' = s\<lparr>loop := LIdle\<rparr>"
    by (auto simp: stream_drop_def split: loopPc.splits option.splits if_splits)
  with stream_delivered [OF assms(1), of ch f r r] show ?thesis by (simp add: stream_inv_same_regs)
qed (use assms(1,3) in \<open>auto simp: sendChunk_def start_await_def await_ctx_def call_cancel_def
      split: option.splits callPc.splits if_splits intro!: stream_set_pc\<close>)

definition conn_inv :: "nat \<Rightarrow> agentConn \<Rightarrow> bool" where
  "conn_inv n s \<longleftrightarrow> base_inv n s \<and> stream_inv s"

lemma new_conn_inv: "conn_inv 0 newAgentConn"
  by (simp add: conn_inv_def base_inv_def table_inv_def kind_inv_def unary_inv_def unary_ok_def
      stream_inv_def stream_ok_def newAgentConn_def upend_def uref_def ures_def uloop_def
      spend_def sref_def sloop_def)

lemma conn_run_inv:
  "conn_run cp es s = Some s' \<Longrightarrow> conn_inv n s \<Longrightarrow> n + length es < 2 ^ 64 \<Longrightarrow> conn_inv (n + length es) s'"
proof (induction es arbitrary: s n)
  case Nil
  then show ?case by simp
next
  case (Cons e es)
  from Cons.prems(1) obtain s1 where s1: "conn_step cp e s = Some s1" "conn_run cp es s1 = Some s'"
    by (auto split: option.splits)
  have "Suc n < 2 ^ 64" using Cons.prems(3) by simp
  with base_step [OF _ s1(1)] stream_step [OF _ _ s1(1)] Cons.prems(2)
  have "conn_inv (Suc n) s1" by (auto simp: conn_inv_def)
  from Cons.IH [OF s1(2) this] Cons.prems(3) show ?case by simp
qed

lemma conn_reachable:
  assumes "conn_run cp es newAgentConn = Some s" "length es < 2 ^ 64"
  shows "conn_inv (length es) s"
  using conn_run_inv [OF assms(1) new_conn_inv] assms(2) by simp

section \<open>Properties\<close>

text \<open>
  (C6) No interleaving of dispatchers, receive loop, cancels and teardown panics on a closed channel
  or blocks the receive loop on a unary result: whenever a unary delivery has looked its channel
  up, the channel is open and empty, so the send goes through at once. (Request ids repeat only
  after 18446744073709551616 of them, so the runs are shorter than that.)
\<close>

theorem no_panic_no_block:
  assumes "conn_run cp es newAgentConn = Some s" "length es < 2 ^ 64"
  shows "\<not> panicked s \<and>
         (\<forall>ch r. loop s = LUnary ch r \<longrightarrow>
            (\<exists>s'. unary_send s = Some s' \<and> loop s' = LIdle \<and> \<not> panicked s'))"
proof -
  have inv: "base_inv (length es) s" using conn_reachable [OF assms] by (simp add: conn_inv_def)
  then have "\<not> panicked s" by (simp add: base_inv_def table_inv_def)
  moreover have "\<exists>s'. unary_send s = Some s' \<and> loop s' = LIdle \<and> \<not> panicked s'"
    if "loop s = LUnary ch r" for ch r
    using unary_send_ready [OF inv that] that \<open>\<not> panicked s\<close>
    by (simp add: unary_send_def fresh_chan_def)
  ultimately show ?thesis by blast
qed

definition demo_result :: agentResult where
  "demo_result = \<lparr>rs_request_id = ''1'', rs_code = 200, rs_payload = ''ok'', rs_error = [], rs_final = False\<rparr>"

definition demo_run :: "connEvent list" where
  "demo_run = [Begin KUnary ''containers.list'' [], Register 1, Send 1 True, Deliver demo_result,
     CloseAll, UnarySend, AwaitRecv 1, Leave 1]"

lemma requestID_1 [simp]: "requestID 1 = ''1''"
  by (simp add: requestID_def formatUint.simps)

lemmas conn_eval =
  newAgentConn_def begin_call_def register_call_def send_request_def set_pc_def deliver_def
  unary_send_def await_recv_def leave_call_def closeAll_def deliverProgress_def start_delivery_def
  stream_send_def stream_recv_def close_next_def close_reg_def close_chan_def Let_def

theorem no_panic_no_block_witness:
  "\<exists>s. conn_run (\<lambda>_. []) (take 5 demo_run) newAgentConn = Some s \<and> loop s = LUnary 0 demo_result \<and>
     \<not> panicked s \<and> (\<exists>s'. unary_send s = Some s' \<and> \<not> panicked s')"
proof -
  obtain s where s: "conn_run (\<lambda>_. []) (take 5 demo_run) newAgentConn = Some s" "loop s = LUnary 0 demo_result"
    by (auto simp: demo_run_def demo_result_def conn_eval)
  have "length (take 5 demo_run) < 2 ^ 64" by (simp add: demo_run_def)
  from no_panic_no_block [OF s(1) this] s show ?thesis by blast
qed

text \<open>
  (C7) A result reaches only the call it answers: whatever results the agent sends and whenever the
  calls end, a unary or upload call that returns a result returns one with its own request id.
\<close>

theorem result_reaches_own_call:
  assumes "conn_run cp es newAgentConn = Some s" "length es < 2 ^ 64"
    and "mget (calls s) i = Some c" "c_kind c \<noteq> KStream" "c_pc c = Finished (OutResult r)"
  shows "rs_request_id r = requestID i"
proof -
  have "unary_inv s" using conn_reachable [OF assms(1,2)] by (simp add: conn_inv_def base_inv_def)
  moreover have "ures s i = Some r" using assms(3-5) by (simp add: ures_def)
  ultimately show ?thesis using unary_okD(7) by (simp add: unary_inv_def)
qed

theorem result_reaches_own_call_witness:
  "\<exists>s c. conn_run (\<lambda>_. []) demo_run newAgentConn = Some s \<and> mget (calls s) 1 = Some c \<and>
     c_pc c = Finished (OutResult demo_result) \<and> rs_request_id demo_result = requestID 1"
proof -
  obtain s c where s: "conn_run (\<lambda>_. []) demo_run newAgentConn = Some s" "mget (calls s) 1 = Some c"
      "c_kind c \<noteq> KStream" "c_pc c = Finished (OutResult demo_result)"
    by (auto simp: demo_run_def demo_result_def conn_eval)
  have "length demo_run < 2 ^ 64" by (simp add: demo_run_def)
  from result_reaches_own_call [OF s(1) this s(2-4)] s show ?thesis by blast
qed




definition demo_stream :: "connEvent list" where
  "demo_stream = [Begin KStream ''fs.read'' [], Register 1, Send 1 True,
     Progress \<lparr>pg_request_id = ''1'', pg_payload = ''abc''\<rparr>, StreamSend, StreamRecv 1,
     Deliver demo_result]"


end
