(* ===== verification/ContainerEvents.thy ===== *)
theory ContainerEvents
  imports Ports GoNet AgentConn
begin

text \<open>
  The reaction of the controller to the lifecycle events of an agent's containers,
  \<^verbatim>\<open>pkg/controller/container_events.go\<close>. The connection is named by its agent's id and the answer of
  \<^verbatim>\<open>conn.dispatch\<close> is an input, as the decoder of the inspect payload is; the port store is the record
  of operations of \<open>Ports\<close>, and the lemmas hold for every store that meets its contract.
\<close>

section \<open>The handlers\<close>

text \<open>The body of the goroutine that an event starts, if it starts one.\<close>

definition handleContainerEvent :: "'s portStore option \<Rightarrow> string option \<Rightarrow> dockerEvent option \<Rightarrow>
    (string \<times> dockerEvent) option" where
  "handleContainerEvent store conn event =
     (case (store, conn, event) of
        (Some _, Some agentID, Some e) \<Rightarrow>
          if de_container_id e = [] then None
          else if de_type e \<in> {''die'', ''stop'', ''start''} then Some (agentID, e) else None
      | _ \<Rightarrow> None)"

definition containerMappings :: "'s portStore \<Rightarrow> string \<Rightarrow> string \<Rightarrow> 's \<Rightarrow>
    (port_error + (uint32, portMapping) gomap) \<times> 's" where
  "containerMappings ops agentID containerID s =
     (case ps_desired ops s of
        (Inl err, s') \<Rightarrow> (Inl err, s')
      | (Inr desired, s') \<Rightarrow>
          (Inr (filter (\<lambda>(port, mapping). AgentID mapping = agentID \<and> ContainerID mapping = containerID) desired), s'))"

fun suspendContainerMappings :: "'s portStore \<Rightarrow> (uint32, portMapping) gomap \<Rightarrow> 's \<Rightarrow> 's" where
  "suspendContainerMappings ops [] s = s"
| "suspendContainerMappings ops ((port, mapping) # rest) s =
     suspendContainerMappings ops rest (snd (ps_update ops port (mapping\<lparr>Suspended := True\<rparr>) s))"

definition pickNetworkIP :: "(string, string) gomap \<Rightarrow> string \<Rightarrow> string" where
  "pickNetworkIP networks oldHost =
     (if oldHost \<in> snd ` set networks then oldHost
      else if length networks = 1 then snd (hd networks)
      else (case find (\<lambda>name. mget networks name \<noteq> Some []) (sort (map fst networks)) of
              Some name \<Rightarrow> the (mget networks name)
            | None \<Rightarrow> []))"

definition resumedMapping :: "(string, string) gomap \<Rightarrow> portMapping \<Rightarrow> portMapping option" where
  "resumedMapping networks mapping =
     (case SplitHostPort (Target mapping) of
        Inl _ \<Rightarrow> None
      | Inr (host, targetPort) \<Rightarrow>
          (let newIP = pickNetworkIP networks host;
               mapping = (if newIP \<noteq> [] then mapping\<lparr>Target := JoinHostPort newIP targetPort\<rparr> else mapping)
           in Some (mapping\<lparr>Suspended := False\<rparr>)))"

fun resumeLoop :: "'s portStore \<Rightarrow> (string, string) gomap \<Rightarrow> (uint32, portMapping) gomap \<Rightarrow> 's \<Rightarrow> 's" where
  "resumeLoop ops networks [] s = s"
| "resumeLoop ops networks ((port, mapping) # rest) s =
     (case resumedMapping networks mapping of
        None \<Rightarrow> resumeLoop ops networks rest s
      | Some m \<Rightarrow> resumeLoop ops networks rest (snd (ps_update ops port m s)))"

definition resumeContainerMappings :: "'s portStore \<Rightarrow> (bytes \<Rightarrow> (string, string) gomap option) \<Rightarrow>
    (dispatch_error + agentResult) \<Rightarrow> (uint32, portMapping) gomap \<Rightarrow> 's \<Rightarrow> 's" where
  "resumeContainerMappings ops decode inspect ms s =
     (case inspect of
        Inl _ \<Rightarrow> s
      | Inr result \<Rightarrow>
          if rs_code result < 200 \<or> rs_code result \<ge> 300 then s
          else (case decode (rs_payload result) of
            None \<Rightarrow> s
          | Some networks \<Rightarrow> resumeLoop ops networks ms s))"

definition processContainerEvent :: "'s portStore option \<Rightarrow> (bytes \<Rightarrow> (string, string) gomap option) \<Rightarrow>
    (dispatch_error + agentResult) \<Rightarrow> string option \<Rightarrow> dockerEvent option \<Rightarrow> 's \<Rightarrow> 's" where
  "processContainerEvent store decode inspect conn event s =
     (case (store, conn, event) of
        (Some ops, Some agentID, Some e) \<Rightarrow>
          if de_container_id e = [] then s
          else (case containerMappings ops agentID (de_container_id e) s of
            (Inl _, s1) \<Rightarrow> s1
          | (Inr ms, s1) \<Rightarrow>
              if ms = [] then s1
              else if de_type e = ''die'' \<or> de_type e = ''stop''
              then suspendContainerMappings ops ms s1
              else if de_type e = ''start'' then resumeContainerMappings ops decode inspect ms s1
              else s1)
      | _ \<Rightarrow> s)"

section \<open>The choice of an address\<close>

lemma mwf_same_entries: "mwf n \<Longrightarrow> mwf n' \<Longrightarrow> mget n = mget n' \<Longrightarrow> set n = set n'"
  by (metis mwf_mget_iff subset_antisym subrelI)

lemma pickNetworkIP_order:
  assumes "mwf n" "mwf n'" "mget n = mget n'"
  shows "pickNetworkIP n h = pickNetworkIP n' h"
proof -
  have same: "set n = set n'" using mwf_same_entries [OF assms] .
  have d: "distinct n" "distinct n'" "distinct (map fst n)" "distinct (map fst n')"
    using assms(1,2) by (auto simp: mwf_def distinct_map)
  have len: "length n = length n'" using same d(1,2) by (metis distinct_card)
  have "sort (map fst n) = sort (map fst n')"
    using same d(3,4) by (intro sorted_distinct_set_unique) auto
  moreover have "length n = 1 \<Longrightarrow> hd n = hd n'"
    using same len by (cases n; cases n') (auto simp: Suc_length_conv)
  ultimately show ?thesis using same len assms(3) by (simp add: pickNetworkIP_def split: option.splits)
qed

lemma pickNetworkIP_own:
  assumes "mwf n" "pickNetworkIP n h = ip" "ip \<noteq> []"
  shows "ip \<in> snd ` set n"
proof (cases "h \<in> snd ` set n \<or> length n = 1")
  case True
  then show ?thesis using assms(2) by (cases n) (auto simp: pickNetworkIP_def split: if_splits)
next
  case False
  then obtain name where f: "find (\<lambda>name. mget n name \<noteq> Some []) (sort (map fst n)) = Some name"
      and ip: "ip = the (mget n name)"
    using assms(2,3) by (auto simp: pickNetworkIP_def split: option.splits if_splits)
  then have "name \<in> set (sort (map fst n))" by (metis find_Some_iff nth_mem)
  then have "name \<in> fst ` set n" by simp
  then obtain v where "mget n name = Some v" by (metis domIff dom_map_of_conv_image_fst not_None_eq)
  with ip show ?thesis by (metis image_eqI map_of_SomeD option.sel snd_conv)
qed

section \<open>What an event does to the table of exposed ports\<close>

text \<open>Both loops update the ports they are given by a function of the mapping read before.\<close>

fun updateAll :: "'s portStore \<Rightarrow> (portMapping \<Rightarrow> portMapping option) \<Rightarrow> (uint32, portMapping) gomap \<Rightarrow> 's \<Rightarrow> 's" where
  "updateAll ops f [] s = s"
| "updateAll ops f ((port, mapping) # rest) s =
     updateAll ops f rest (case f mapping of None \<Rightarrow> s | Some m \<Rightarrow> snd (ps_update ops port m s))"

lemma suspend_updateAll:
  "suspendContainerMappings ops ms s = updateAll ops (\<lambda>m. Some (m\<lparr>Suspended := True\<rparr>)) ms s"
  by (induction ops ms s rule: suspendContainerMappings.induct) auto

lemma resume_updateAll: "resumeLoop ops networks ms s = updateAll ops (resumedMapping networks) ms s"
  by (induction ops networks ms s rule: resumeLoop.induct) (auto split: option.splits)

lemma updateAll_None: "updateAll ops (\<lambda>m. None) ms s = s"
  by (induction ms) auto

text \<open>The mapping an event asks for.\<close>

definition event_effect :: "(bytes \<Rightarrow> (string, string) gomap option) \<Rightarrow> (dispatch_error + agentResult) \<Rightarrow>
    dockerEvent \<Rightarrow> portMapping \<Rightarrow> portMapping option" where
  "event_effect decode inspect e m =
     (if de_type e \<in> {''die'', ''stop''} then Some (m\<lparr>Suspended := True\<rparr>)
      else if de_type e = ''start'' then
        (case inspect of
           Inr result \<Rightarrow>
             (if 200 \<le> rs_code result \<and> rs_code result < 300
              then Option.bind (decode (rs_payload result)) (\<lambda>networks. resumedMapping networks m) else None)
         | Inl _ \<Rightarrow> None)
      else None)"

definition concerns :: "string \<Rightarrow> dockerEvent \<Rightarrow> portMapping \<Rightarrow> bool" where
  "concerns a e m \<longleftrightarrow> de_container_id e \<noteq> [] \<and> AgentID m = a \<and> ContainerID m = de_container_id e"

lemma processContainerEvent_updateAll:
  "processContainerEvent (Some ops) decode inspect (Some a) (Some e) s =
     (if de_container_id e = [] then s
      else (case ps_desired ops s of
              (Inl _, s1) \<Rightarrow> s1
            | (Inr ms, s1) \<Rightarrow> updateAll ops (event_effect decode inspect e) (filter (\<lambda>(p, m). concerns a e m) ms) s1))"
proof (cases "de_container_id e = [] \<or> isl (fst (ps_desired ops s))")
  case True
  then show ?thesis
    by (auto simp: processContainerEvent_def containerMappings_def split: prod.splits sum.splits)
next
  case False
  then obtain ms s1 where d: "ps_desired ops s = (Inr ms, s1)"
    by (cases "ps_desired ops s"; cases "fst (ps_desired ops s)") auto
  have c: "(\<lambda>(p, m). AgentID m = a \<and> ContainerID m = de_container_id e) = (\<lambda>(p, m). concerns a e m)"
    using False by (auto simp: concerns_def fun_eq_iff)
  have start: "resumeContainerMappings ops decode inspect xs s1 = updateAll ops (event_effect decode inspect e) xs s1"
    if "de_type e = ''start''" for xs
  proof -
    have "event_effect decode inspect e =
        (case inspect of Inl _ \<Rightarrow> (\<lambda>m. None) | Inr result \<Rightarrow>
           if rs_code result < 200 \<or> rs_code result \<ge> 300 then (\<lambda>m. None)
           else (case decode (rs_payload result) of None \<Rightarrow> (\<lambda>m. None) | Some n \<Rightarrow> resumedMapping n))"
      using that by (auto simp: event_effect_def fun_eq_iff split: sum.splits option.splits)
    then show ?thesis
      by (simp add: resumeContainerMappings_def resume_updateAll updateAll_None split: sum.splits option.splits)
  qed
  have other: "updateAll ops (event_effect decode inspect e) xs s1 = s1"
    if "de_type e \<notin> {''die'', ''stop'', ''start''}" for xs
  proof -
    have "event_effect decode inspect e = (\<lambda>m. None)" using that by (auto simp: event_effect_def)
    then show ?thesis by (simp add: updateAll_None)
  qed
  have stop: "suspendContainerMappings ops xs s1 = updateAll ops (event_effect decode inspect e) xs s1"
    if "de_type e \<in> {''die'', ''stop''}" for xs
  proof -
    have "event_effect decode inspect e = (\<lambda>m. Some (m\<lparr>Suspended := True\<rparr>))" using that by (auto simp: event_effect_def)
    then show ?thesis by (simp add: suspend_updateAll)
  qed
  show ?thesis
    using False d start stop other
    by (auto simp: processContainerEvent_def containerMappings_def c)
qed

context port_store
begin

lemma updateAll_post:
  assumes "inv s" "mwf ms"
  shows "inv (updateAll ops f ms s) \<and>
    (\<forall>p. view (updateAll ops f ms s) p = view s p \<or>
         (\<exists>m m'. mget ms p = Some m \<and> f m = Some m' \<and> view s p \<noteq> None \<and> view (updateAll ops f ms s) p = Some (stored m')))"
  using assms
proof (induction ms arbitrary: s)
  case Nil
  then show ?case by simp
next
  case (Cons e ms)
  obtain port mapping where e: "e = (port, mapping)" by (cases e)
  let ?s1 = "case f mapping of None \<Rightarrow> s | Some m \<Rightarrow> snd (ps_update ops port m s)"
  have new: "mget ms port = None" "mwf ms" using Cons.prems(2) e by simp_all
  have s1: "inv ?s1 \<and> (view ?s1 = view s \<or>
      (\<exists>m'. f mapping = Some m' \<and> view s port \<noteq> None \<and> view ?s1 = (view s)(port \<mapsto> stored m')))"
  proof (cases "f mapping")
    case (Some m')
    obtain r s2 where u: "ps_update ops port m' s = (r, s2)" by fastforce
    show ?thesis
      using inv_update [OF Cons.prems(1) u] update_ok [OF Cons.prems(1)] update_err [OF Cons.prems(1)] u Some
      by (cases r) fastforce+
  qed (use Cons.prems(1) in simp)
  from Cons.IH [of ?s1] s1 new
  have ih: "inv (updateAll ops f ms ?s1)"
    "\<And>p. view (updateAll ops f ms ?s1) p = view ?s1 p \<or>
         (\<exists>m m'. mget ms p = Some m \<and> f m = Some m' \<and> view ?s1 p \<noteq> None \<and>
            view (updateAll ops f ms ?s1) p = Some (stored m'))"
    by blast+
  have "view (updateAll ops f ms ?s1) p = view s p \<or>
        (\<exists>m m'. mget (e # ms) p = Some m \<and> f m = Some m' \<and> view s p \<noteq> None \<and>
            view (updateAll ops f ms ?s1) p = Some (stored m'))" for p
    using ih(2) [of p] s1 new by (cases "p = port") (auto simp: e)
  with ih(1) show ?case by (simp add: e)
qed

lemma processContainerEvent_post:
  assumes "inv s"
  shows "inv (processContainerEvent (Some ops) decode inspect (Some a) (Some e) s) \<and>
    (\<forall>p. view (processContainerEvent (Some ops) decode inspect (Some a) (Some e) s) p = view s p \<or>
      (\<exists>m m'. view s p = Some m \<and> concerns a e m \<and> event_effect decode inspect e m = Some m' \<and>
         view (processContainerEvent (Some ops) decode inspect (Some a) (Some e) s) p = Some (stored m')))"
proof (cases "de_container_id e = []")
  case True
  with assms show ?thesis by (simp add: processContainerEvent_updateAll)
next
  case False
  obtain r s1 where d: "ps_desired ops s = (r, s1)" by fastforce
  have s1: "inv s1" "view s1 = view s" using inv_desired [OF assms d] desired_view [OF assms d] by auto
  show ?thesis
  proof (cases r)
    case (Inl e)
    with False d s1 show ?thesis by (simp add: processContainerEvent_updateAll)
  next
    case (Inr ms)
    let ?ms = "filter (\<lambda>(p, m). concerns a e m) ms"
    from desired_ok [OF assms d [unfolded Inr]] have ms: "mwf ms" "mget ms = view s" by blast+
    have "mget ?ms p = Some m \<Longrightarrow> view s p = Some m \<and> concerns a e m" for p m
      using mget_filter [OF ms(1)] ms(2) by (auto split: option.splits if_splits)
    with updateAll_post [OF s1(1) mwf_filter [OF ms(1)], of "event_effect decode inspect e" "\<lambda>(p, m). concerns a e m"] s1(2)
    show ?thesis
      using False d Inr unfolding processContainerEvent_updateAll by simp blast
  qed
qed

end

section \<open>The in-memory store\<close>

lemma mem_updateAll:
  assumes "mwf ms" "\<And>p. mget ms p \<noteq> None \<Longrightarrow> mem_view s p \<noteq> None"
  shows "mem_view (updateAll memPortStoreOps f ms s) =
    (\<lambda>p. case mget ms p of None \<Rightarrow> mem_view s p
       | Some m \<Rightarrow> (case f m of None \<Rightarrow> mem_view s p | Some m' \<Rightarrow> Some m'))"
  using assms
proof (induction ms arbitrary: s)
  case Nil
  then show ?case by simp
next
  case (Cons e ms)
  obtain port mapping where e: "e = (port, mapping)" by (cases e)
  let ?s1 = "case f mapping of None \<Rightarrow> s | Some m \<Rightarrow> snd (mem_update port m s)"
  from Cons.prems(2) [of port] e obtain old where old: "mem_view s port = Some old" by auto
  then have s1: "mem_view ?s1 = (case f mapping of None \<Rightarrow> mem_view s | Some m' \<Rightarrow> (mem_view s)(port \<mapsto> m'))"
    by (simp add: mem_update_def gomap_simps split: option.splits)
  have "mem_view ?s1 p \<noteq> None" if "mget ms p \<noteq> None" for p
    using that Cons.prems(2) [of p] s1 by (auto simp: e split: option.splits if_splits)
  with Cons.IH [of ?s1] Cons.prems(1) s1 show ?case
    by (auto simp: e memPortStoreOps_def fun_eq_iff split: option.splits)
qed

lemma mem_processContainerEvent:
  assumes "mem_inv s"
  shows "mem_view (processContainerEvent (Some memPortStoreOps) decode inspect (Some a) (Some e) s) =
    (\<lambda>p. case mem_view s p of None \<Rightarrow> None
       | Some m \<Rightarrow> Some (if concerns a e m then (case event_effect decode inspect e m of None \<Rightarrow> m | Some m' \<Rightarrow> m') else m))"
proof -
  let ?ms = "filter (\<lambda>(p, m). concerns a e m) (mappings s)"
  have g: "mget ?ms p = (case mem_view s p of None \<Rightarrow> None | Some m \<Rightarrow> if concerns a e m then Some m else None)" for p
    using mget_filter [OF assms, of "\<lambda>(p, m). concerns a e m"] by (simp split: option.splits)
  have d: "ps_desired memPortStoreOps s = (Inr (mappings s), s)" by (simp add: memPortStoreOps_def mem_desired_def)
  show ?thesis
  proof (cases "de_container_id e = []")
    case True
    then show ?thesis
      by (auto simp: processContainerEvent_updateAll concerns_def fun_eq_iff split: option.splits)
  next
    case False
    have sub: "mem_view s p \<noteq> None" if "mget ?ms p \<noteq> None" for p using that g by (auto split: option.splits)
    have "mem_view (updateAll memPortStoreOps f ?ms s) = (\<lambda>p. case mget ?ms p of None \<Rightarrow> mem_view s p
       | Some m \<Rightarrow> (case f m of None \<Rightarrow> mem_view s p | Some m' \<Rightarrow> Some m'))" for f
      by (rule mem_updateAll [OF mwf_filter [OF assms]]) (rule sub)
    then show ?thesis
      using False d by (auto simp: processContainerEvent_updateAll g fun_eq_iff split: option.splits)
  qed
qed

lemma resumedMapping_same:
  assumes "SplitHostPort (Target m) = Inr (host, port)" "Target m = JoinHostPort host port"
    and "host \<in> snd ` set networks"
  shows "resumedMapping networks m = Some (m\<lparr>Suspended := False\<rparr>)"
  using assms by (cases m) (auto simp: resumedMapping_def pickNetworkIP_def Let_def)

section \<open>Properties\<close>

text \<open>
  (C13) A container event over any store that meets the contract, whichever of its calls fail: only the
  mappings of this agent's container can change, each to what the event asks for (suspended on die
  and stop; on a start that was inspected successfully resumed, at the container's address), and no port is
  ever exposed or withdrawn by an event.
\<close>

theorem processContainerEvent_correct:
  assumes "port_store ops view I stored" "I s"
    and "s' = processContainerEvent (Some ops) decode inspect (Some a) (Some e) s"
  shows "I s' \<and> dom (view s') = dom (view s) \<and>
    (\<forall>p m. view s p = Some m \<and> view s' p \<noteq> Some m \<longrightarrow>
       AgentID m = a \<and> ContainerID m = de_container_id e \<and>
       (\<exists>m'. event_effect decode inspect e m = Some m' \<and> view s' p = Some (stored m')))"
proof -
  note post = port_store.processContainerEvent_post [OF assms(1,2), of decode inspect a e, folded assms(3)]
  have "view s' p \<noteq> None \<longleftrightarrow> view s p \<noteq> None" for p using post by (metis option.distinct(1))
  moreover have "AgentID m = a \<and> ContainerID m = de_container_id e \<and>
       (\<exists>m'. event_effect decode inspect e m = Some m' \<and> view s' p = Some (stored m'))"
    if "view s p = Some m" "view s' p \<noteq> Some m" for p m
    using post that unfolding concerns_def by (metis option.inject)
  ultimately show ?thesis using post by (auto simp: dom_def)
qed

definition demo_mapping :: portMapping where
  "demo_mapping = \<lparr>AgentID = ''a'', Target = ''10.0.0.2:80'', ContainerID = ''c'', Suspended = False\<rparr>"

definition demo_ports :: memPortStore where
  "demo_ports = newMemPortStore\<lparr>mappings := [(1025, demo_mapping)]\<rparr>"

definition demo_inspect :: "dispatch_error + agentResult" where
  "demo_inspect = Inr \<lparr>rs_request_id = [], rs_code = 200, rs_payload = [], rs_error = [], rs_final = True\<rparr>"

lemma demo_ports_inv: "mem_inv demo_ports"
  by (simp add: demo_ports_def)

theorem processContainerEvent_correct_witness:
  "dom (mem_view (processContainerEvent (Some memPortStoreOps) (\<lambda>_. None) demo_inspect (Some ''a'')
      (Some \<lparr>de_type = ''die'', de_container_id = ''c''\<rparr>) demo_ports)) = dom (mem_view demo_ports)"
  using processContainerEvent_correct [OF mem.port_store_axioms demo_ports_inv refl] by blast

text \<open>
  (C14) Stopping and starting a container again. With the in-memory store the stop suspends exactly the
  container's mappings, and the start restores the table exactly when the container came back at
  the addresses that the targets name.
\<close>

theorem stop_start_restores:
  assumes "mem_inv s" "c \<noteq> []" "k \<in> {''die'', ''stop''}"
    and "inspect = Inr result" "200 \<le> rs_code result" "rs_code result < 300" "decode (rs_payload result) = Some networks"
    and "\<forall>p m. mem_view s p = Some m \<and> AgentID m = a \<and> ContainerID m = c \<longrightarrow> \<not> Suspended m \<and>
           (\<exists>host port. Target m = JoinHostPort host port \<and> plain_host host \<and> plain_port port \<and> host \<in> snd ` set networks)"
    and "stopped = processContainerEvent (Some memPortStoreOps) decode inspect (Some a)
           (Some \<lparr>de_type = k, de_container_id = c\<rparr>) s"
  shows "mem_view stopped = (\<lambda>p. map_option (\<lambda>m. if AgentID m = a \<and> ContainerID m = c then m\<lparr>Suspended := True\<rparr> else m)
            (mem_view s p)) \<and>
         mem_view (processContainerEvent (Some memPortStoreOps) decode inspect (Some a)
            (Some \<lparr>de_type = ''start'', de_container_id = c\<rparr>) stopped) = mem_view s"
proof -
  let ?e = "\<lparr>de_type = k, de_container_id = c\<rparr>" and ?f = "\<lparr>de_type = ''start'', de_container_id = c\<rparr>"
  have stop: "mem_view stopped = (\<lambda>p. map_option (\<lambda>m. if AgentID m = a \<and> ContainerID m = c then m\<lparr>Suspended := True\<rparr> else m)
            (mem_view s p))"
    unfolding assms(9) mem_processContainerEvent [OF assms(1)] using assms(2,3)
    by (auto simp: fun_eq_iff concerns_def event_effect_def split: option.splits)
  have inv: "mem_inv stopped"
    using mem.processContainerEvent_post [OF assms(1)] assms(9) by blast
  have restored: "resumedMapping networks (m\<lparr>Suspended := True\<rparr>) = Some m"
    if m: "mem_view s p = Some m" "AgentID m = a" "ContainerID m = c" for p m
  proof -
    from assms(8) m obtain host port where h: "\<not> Suspended m" "Target m = JoinHostPort host port" "plain_host host"
      "plain_port port" "host \<in> snd ` set networks" by blast
    with SplitHostPort_JoinHostPort [OF h(3,4)]
    have "resumedMapping networks (m\<lparr>Suspended := True\<rparr>) = Some (m\<lparr>Suspended := True, Suspended := False\<rparr>)"
      by (intro resumedMapping_same) simp_all
    with h(1) show ?thesis by (cases m) simp
  qed
  have "mem_view (processContainerEvent (Some memPortStoreOps) decode inspect (Some a) (Some ?f) stopped) p = mem_view s p" for p
    unfolding mem_processContainerEvent [OF inv] stop
    using assms(2,4-7) restored [of p] by (cases "mem_view s p") (auto simp: concerns_def event_effect_def)
  with stop show ?thesis by auto
qed

theorem stop_start_restores_witness:
  "mem_view (processContainerEvent (Some memPortStoreOps) (\<lambda>_. Some [(''bridge'', ''10.0.0.2'')]) demo_inspect (Some ''a'')
     (Some \<lparr>de_type = ''start'', de_container_id = ''c''\<rparr>)
     (processContainerEvent (Some memPortStoreOps) (\<lambda>_. Some [(''bridge'', ''10.0.0.2'')]) demo_inspect (Some ''a'')
        (Some \<lparr>de_type = ''die'', de_container_id = ''c''\<rparr>) demo_ports)) = [1025 \<mapsto> demo_mapping]"
proof -
  have "JoinHostPort ''10.0.0.2'' ''80'' = ''10.0.0.2:80''" by code_simp
  then have "\<exists>host port. Target demo_mapping = JoinHostPort host port \<and> plain_host host \<and> plain_port port \<and>
      host \<in> snd ` set [(''bridge'', ''10.0.0.2'')]"
    by (intro exI [of _ "''10.0.0.2''"] exI [of _ "''80''"]) (simp add: demo_mapping_def plain_host_def plain_port_def)
  then have "\<forall>p m. mem_view demo_ports p = Some m \<and> AgentID m = ''a'' \<and> ContainerID m = ''c'' \<longrightarrow> \<not> Suspended m \<and>
      (\<exists>host port. Target m = JoinHostPort host port \<and> plain_host host \<and> plain_port port \<and>
         host \<in> snd ` set [(''bridge'', ''10.0.0.2'')])"
    by (auto simp: demo_ports_def demo_mapping_def split: if_splits)
  from stop_start_restores [OF demo_ports_inv _ _ demo_inspect_def _ _ _ this refl, of "''die''" "\<lambda>_. Some [(''bridge'', ''10.0.0.2'')]"]
  have "mem_view (processContainerEvent (Some memPortStoreOps) (\<lambda>_. Some [(''bridge'', ''10.0.0.2'')]) demo_inspect (Some ''a'')
     (Some \<lparr>de_type = ''start'', de_container_id = ''c''\<rparr>)
     (processContainerEvent (Some memPortStoreOps) (\<lambda>_. Some [(''bridge'', ''10.0.0.2'')]) demo_inspect (Some ''a'')
        (Some \<lparr>de_type = ''die'', de_container_id = ''c''\<rparr>) demo_ports)) = mem_view demo_ports"
    by simp
  also have "mem_view demo_ports = [1025 \<mapsto> demo_mapping]" by (simp add: demo_ports_def)
  finally show ?thesis .
qed

end
