(* ===== verification/AgentEvents.thy ===== *)
theory AgentEvents
  imports ContainerEvents
begin

text \<open>
  The agent's watcher of Docker events, \<^verbatim>\<open>pkg/agent/events.go\<close>: what it forwards to the controller, and how
  it retries. The subscription's messages and errors, the clock and the context are inputs.
\<close>

section \<open>Definitions\<close>

record dockerMsg =
  dm_action :: string
  dm_actorID :: string

text \<open>What the \<^verbatim>\<open>select\<close> takes next: a message with the outcome of sending it, a closed or failed stream, or the
  end of the context. \<open>None\<close> when the script ends first.\<close>

datatype watchTurn = WatchMsg dockerMsg bool | WatchEnd | WatchCtx

definition sendDockerEvent :: "string \<Rightarrow> dockerMsg \<Rightarrow> agentEvent" where
  "sendDockerEvent nodeName m =
     \<lparr>ev_agent_id = nodeName, ev_kind = EvDocker \<lparr>de_type = dm_action m, de_container_id = dm_actorID m\<rparr>\<rparr>"

fun consumeDockerEvents :: "string \<Rightarrow> watchTurn list \<Rightarrow> bool \<Rightarrow> (bool \<times> bool \<times> agentEvent list) option" where
  "consumeDockerEvents nodeName [] received = None"
| "consumeDockerEvents nodeName (WatchCtx # ts) received = Some (received, True, [])"
| "consumeDockerEvents nodeName (WatchEnd # ts) received = Some (received, False, [])"
| "consumeDockerEvents nodeName (WatchMsg m ok # ts) received =
     map_option (\<lambda>(r, c, evs). (r, c, (if dm_actorID m = [] \<or> \<not> ok then [] else [sendDockerEvent nodeName m]) @ evs))
       (consumeDockerEvents nodeName ts True)"

text \<open>Durations in nanoseconds.\<close>

record dockerEventRetrySettings =
  rt_base :: nat
  rt_max :: nat
  rt_healthyAfter :: nat

definition dockerEventRetry :: dockerEventRetrySettings where
  "dockerEventRetry = \<lparr>rt_base = 1000000000, rt_max = 30000000000, rt_healthyAfter = 60000000000\<rparr>"

definition retryNext :: "dockerEventRetrySettings \<Rightarrow> nat \<Rightarrow> nat" where
  "retryNext retry delay =
     (if delay < rt_max retry then (if delay * 2 > rt_max retry then rt_max retry else delay * 2) else delay)"

datatype waitWinner = WaitCtx | WaitTimer

definition waitDockerEventRetry :: "waitWinner \<Rightarrow> bool" where
  "waitDockerEventRetry w = (case w of WaitCtx \<Rightarrow> False | WaitTimer \<Rightarrow> True)"

text \<open>
  One round of the loop: whether the context was done before it, the subscription, how long it
  lasted, and what ended the wait after it. The loop reports the delays it waited and the events it
  sent.
\<close>

record watchRound =
  wr_ctxDone :: bool
  wr_turns :: "watchTurn list"
  wr_lasted :: nat
  wr_wait :: waitWinner

fun dockerEventsLoop :: "dockerEventRetrySettings \<Rightarrow> string \<Rightarrow> watchRound list \<Rightarrow> nat \<Rightarrow>
    (nat list \<times> agentEvent list) option" where
  "dockerEventsLoop retry nodeName [] delay = None"
| "dockerEventsLoop retry nodeName (r # rs) delay =
     (if wr_ctxDone r then Some ([], [])
      else (case consumeDockerEvents nodeName (wr_turns r) False of
        None \<Rightarrow> None
      | Some (received, cancelled, evs) \<Rightarrow>
          if cancelled then Some ([], evs)
          else (let delay = (if received \<or> wr_lasted r \<ge> rt_healthyAfter retry then rt_base retry else delay) in
            if \<not> waitDockerEventRetry (wr_wait r) then Some ([delay], evs)
            else map_option (\<lambda>(ds, evs'). (delay # ds, evs @ evs'))
              (dockerEventsLoop retry nodeName rs (retryNext retry delay)))))"

definition runDockerEventsLoop :: "string \<Rightarrow> watchRound list \<Rightarrow> (nat list \<times> agentEvent list) option" where
  "runDockerEventsLoop nodeName rounds =
     dockerEventsLoop dockerEventRetry nodeName rounds (rt_base dockerEventRetry)"

text \<open>Without a Docker client the watcher returns at once.\<close>

definition watchDockerEvents :: "bool \<Rightarrow> string \<Rightarrow> watchRound list \<Rightarrow> (nat list \<times> agentEvent list) option" where
  "watchDockerEvents docker nodeName rounds =
     (if \<not> docker then Some ([], []) else runDockerEventsLoop nodeName rounds)"

section \<open>What is forwarded\<close>

text \<open>
  The messages of a subscription up to its end, and of those the ones that name a container and whose
  send succeeded.
\<close>

fun is_message :: "watchTurn \<Rightarrow> bool" where
  "is_message (WatchMsg m ok) = True"
| "is_message _ = False"

definition forwardable :: "watchTurn list \<Rightarrow> dockerMsg list" where
  "forwardable ts = [m. WatchMsg m ok \<leftarrow> takeWhile is_message ts, ok \<and> dm_actorID m \<noteq> []]"

lemma forwardable_simps [simp]:
  "forwardable [] = []" "forwardable (WatchCtx # ts) = []" "forwardable (WatchEnd # ts) = []"
  "forwardable (WatchMsg m ok # ts) = (if ok \<and> dm_actorID m \<noteq> [] then [m] else []) @ forwardable ts"
  by (simp_all add: forwardable_def)

lemma consumeDockerEvents_sent:
  "consumeDockerEvents nodeName ts received = Some (r, c, evs) \<Longrightarrow>
     evs = map (sendDockerEvent nodeName) (forwardable ts)"
  by (induction nodeName ts received arbitrary: r c evs rule: consumeDockerEvents.induct) auto

lemma retry_next:
  assumes "rt_base retry \<le> delay" "delay \<le> rt_max retry"
  shows "rt_base retry \<le> retryNext retry delay \<and> retryNext retry delay \<le> rt_max retry"
  using assms by (simp add: retryNext_def)

lemma dockerEventsLoop_post:
  assumes "dockerEventsLoop retry nodeName rounds delay = Some (ds, evs)"
    and "rt_base retry \<le> delay" "delay \<le> rt_max retry"
  shows "(\<exists>n \<le> length rounds. length ds \<le> n \<and>
      evs = map (sendDockerEvent nodeName) (concat (map (\<lambda>r. forwardable (wr_turns r)) (take n rounds)))) \<and>
    (\<forall>d \<in> set ds. rt_base retry \<le> d \<and> d \<le> rt_max retry)"
  using assms
proof (induction rounds arbitrary: delay ds evs)
  case (Cons r rs)
  show ?case
  proof (cases "wr_ctxDone r")
    case True
    with Cons.prems(1) show ?thesis by (auto intro: exI [of _ 0])
  next
    case False
    with Cons.prems(1) obtain received cancelled sent where
        c: "consumeDockerEvents nodeName (wr_turns r) False = Some (received, cancelled, sent)"
      by (auto split: option.splits)
    note sent = consumeDockerEvents_sent [OF c]
    let ?d = "if received \<or> wr_lasted r \<ge> rt_healthyAfter retry then rt_base retry else delay"
    have d: "rt_base retry \<le> ?d" "?d \<le> rt_max retry" using Cons.prems(2,3) by auto
    show ?thesis
    proof (cases "cancelled \<or> \<not> waitDockerEventRetry (wr_wait r)")
      case True
      with Cons.prems(1) False c have "evs = sent" "ds = [] \<or> ds = [?d]"
        by (auto simp: Let_def split: if_splits)
      with d sent show ?thesis by (auto intro!: exI [of _ 1])
    next
      case go: False
      with Cons.prems(1) False c obtain ds' evs' where
          rec: "dockerEventsLoop retry nodeName rs (retryNext retry ?d) = Some (ds', evs')"
            "ds = ?d # ds'" "evs = sent @ evs'" by (auto simp: Let_def)
      from Cons.IH [OF rec(1)] retry_next [OF d] obtain n where "n \<le> length rs" "length ds' \<le> n"
          "evs' = map (sendDockerEvent nodeName) (concat (map (\<lambda>r. forwardable (wr_turns r)) (take n rs)))"
          "\<forall>d \<in> set ds'. rt_base retry \<le> d \<and> d \<le> rt_max retry" by blast
      with rec(2,3) sent d show ?thesis by (intro conjI exI [of _ "Suc n"]) auto
    qed
  qed
qed simp

text \<open>
  The watcher sends, in order, the container events of the messages that named their container, of
  every subscription it went through, nothing else, and nothing without a Docker client; it waits
  at most once per subscription, between one and thirty seconds.
\<close>

theorem docker_events_forwarded:
  assumes "watchDockerEvents docker nodeName rounds = Some (ds, evs)"
  shows "(\<exists>n \<le> length rounds. length ds \<le> n \<and> (\<not> docker \<longrightarrow> n = 0) \<and>
      evs = map (sendDockerEvent nodeName) (concat (map (\<lambda>r. forwardable (wr_turns r)) (take n rounds)))) \<and>
    (\<forall>d \<in> set ds. 1000000000 \<le> d \<and> d \<le> 30000000000)"
proof (cases docker)
  case True
  with assms have "dockerEventsLoop dockerEventRetry nodeName rounds (rt_base dockerEventRetry) = Some (ds, evs)"
    by (simp add: watchDockerEvents_def runDockerEventsLoop_def)
  from dockerEventsLoop_post [OF this] True show ?thesis by (simp add: dockerEventRetry_def)
next
  case False
  with assms show ?thesis by (simp add: watchDockerEvents_def)
qed

end
