(* ===== verification/Registry.thy ===== *)
theory Registry
  imports Redis ContainerEvents
begin

text \<open>
  The registry of connected agents, the first half of \<^verbatim>\<open>pkg/controller/registry.go\<close>, and the Control RPC
  that fills it, \<^verbatim>\<open>pkg/controller/service.go\<close>. A connection is a number. The in-memory table and the
  directory in Redis are two steps of each operation, because the code leaves the mutex in between;
  the machine at the end interleaves these steps over any number of controllers that share a Redis.
\<close>

section \<open>The directory in Redis\<close>

definition mappingKeyPrefix :: string where
  "mappingKeyPrefix = ''hostlink:agent:''"

text \<open>Durations in nanoseconds.\<close>

definition mappingTTL :: nat where
  "mappingTTL = 45000000000"

definition mappingKey :: "string \<Rightarrow> string" where
  "mappingKey agentID = mappingKeyPrefix @ agentID"

text \<open>The Lua script: its result and the new value of the key.\<close>

definition dropMappingScript :: "string \<Rightarrow> string option \<Rightarrow> nat \<times> string option" where
  "dropMappingScript addr current = (if current = Some addr then (1, None) else (0, current))"

definition writeMapping :: "'r redisClient option \<Rightarrow> string \<Rightarrow> string \<Rightarrow> 'r \<Rightarrow> 'r" where
  "writeMapping redis selfAddr agentID r =
     (case redis of None \<Rightarrow> r | Some R \<Rightarrow> snd (rSet R (mappingKey agentID) selfAddr mappingTTL r))"

definition dropMapping :: "'r redisClient option \<Rightarrow> string \<Rightarrow> string \<Rightarrow> 'r \<Rightarrow> 'r" where
  "dropMapping redis selfAddr agentID r =
     (case redis of None \<Rightarrow> r | Some R \<Rightarrow> snd (rEval R (mappingKey agentID) (dropMappingScript selfAddr) r))"

definition refresh :: "'r redisClient option \<Rightarrow> string \<Rightarrow> string \<Rightarrow> 'r \<Rightarrow> 'r" where
  "refresh redis selfAddr agentID r = writeMapping redis selfAddr agentID r"

definition locate :: "'r redisClient option \<Rightarrow> string \<Rightarrow> 'r \<Rightarrow> (unit + string) \<times> 'r" where
  "locate redis agentID r =
     (case redis of
        None \<Rightarrow> (Inr [], r)
      | Some R \<Rightarrow>
          (case rGet R (mappingKey agentID) r of
             (Inl e, r') \<Rightarrow> (Inl e, r')
           | (Inr None, r') \<Rightarrow> (Inr [], r')
           | (Inr (Some addr), r') \<Rightarrow> (Inr addr, r')))"

section \<open>The table\<close>

type_synonym agents = "(string, nat) gomap"

definition add_local :: "string \<Rightarrow> nat \<Rightarrow> agents \<Rightarrow> nat option \<times> agents" where
  "add_local agentID c agents = (mget agents agentID, mput agentID c agents)"

definition add :: "'r redisClient option \<Rightarrow> string \<Rightarrow> string \<Rightarrow> nat \<Rightarrow> agents \<times> 'r \<Rightarrow> nat option \<times> agents \<times> 'r" where
  "add redis selfAddr agentID c = (\<lambda>(agents, r).
     (let (replaced, agents') = add_local agentID c agents in
      (replaced, agents', writeMapping redis selfAddr agentID r)))"

definition remove_local :: "string \<Rightarrow> nat \<Rightarrow> agents \<Rightarrow> bool \<times> agents" where
  "remove_local agentID c agents =
     (if mget agents agentID = Some c then (True, mdel agentID agents) else (False, agents))"

definition remove :: "'r redisClient option \<Rightarrow> string \<Rightarrow> string \<Rightarrow> nat \<Rightarrow> agents \<times> 'r \<Rightarrow> agents \<times> 'r" where
  "remove redis selfAddr agentID c = (\<lambda>(agents, r).
     (let (removed, agents') = remove_local agentID c agents in
      (agents', if removed then dropMapping redis selfAddr agentID r else r)))"

definition get :: "string \<Rightarrow> agents \<Rightarrow> nat option" where
  "get agentID agents = mget agents agentID"

text \<open>
  \<^verbatim>\<open>listAll\<close>. The list of a Go map is in no particular order; the keys of \<^verbatim>\<open>seen\<close> are collected in the
  order of their first occurrence. \<open>budget\<close> bounds the number of \<^verbatim>\<open>SCAN\<close> calls before the deadline.
\<close>

definition listAll :: "'r redisClient option \<Rightarrow> nat \<Rightarrow> agents \<Rightarrow> 'r \<Rightarrow> (unit + string list) \<times> 'r" where
  "listAll redis budget agents r =
     (case redis of
        None \<Rightarrow> (Inr (map fst agents), r)
      | Some R \<Rightarrow>
          (case scanLoop R mappingKeyPrefix 256 budget 0 [] r of
             (Inl e, r') \<Rightarrow> (Inl e, r')
           | (Inr keys, r') \<Rightarrow>
               (Inr (remdups (map (drop (length mappingKeyPrefix))
                  (filter (\<lambda>key. length key > length mappingKeyPrefix) keys))), r')))"

section \<open>The Control RPC\<close>

text \<open>
  The calls that an event makes on connections, in order. \<open>ActDeliver\<close> and \<open>ActProgress\<close> are calls of
  \<^verbatim>\<open>agentConn.deliver\<close> and \<^verbatim>\<open>deliverProgress\<close>, whose steps are those of \<open>AgentConn\<close>; \<open>ActContainer\<close> is the
  goroutine that \<open>handleContainerEvent\<close> starts.
\<close>

datatype ctlAct =
    ActRegister nat string
  | ActCloseAll nat
  | ActDeliver nat agentResult
  | ActProgress nat agentProgress
  | ActContainer string dockerEvent

record 'r ctl =
  ct_conn :: "(nat \<times> string) option"
  ct_agents :: agents
  ct_redis :: 'r

text \<open>\<open>fresh\<close> is the number of the connection that \<^verbatim>\<open>newAgentConn\<close> would make for this stream.\<close>

definition handleAgentEvent :: "'s portStore option \<Rightarrow> 'r redisClient option \<Rightarrow> string \<Rightarrow> nat \<Rightarrow> agentEvent \<Rightarrow>
    'r ctl \<Rightarrow> ctlAct list \<times> 'r ctl" where
  "handleAgentEvent store redis selfAddr fresh event w =
     (case ev_kind event of
        EvHello token \<Rightarrow>
          (case ct_conn w of
             Some _ \<Rightarrow> ([], w)
           | None \<Rightarrow>
               (let (replaced, agents', r') = add redis selfAddr (ev_agent_id event) fresh (ct_agents w, ct_redis w) in
                (ActRegister fresh (ev_agent_id event) # (case replaced of None \<Rightarrow> [] | Some c \<Rightarrow> [ActCloseAll c]),
                 w\<lparr>ct_conn := Some (fresh, ev_agent_id event), ct_agents := agents', ct_redis := r'\<rparr>)))
      | EvHeartbeat \<Rightarrow>
          ([], case ct_conn w of
                 None \<Rightarrow> w
               | Some (c, agentID) \<Rightarrow> w\<lparr>ct_redis := refresh redis selfAddr agentID (ct_redis w)\<rparr>)
      | EvDocker e \<Rightarrow>
          (case handleContainerEvent store (map_option snd (ct_conn w)) (Some e) of
             None \<Rightarrow> ([], w) | Some (agentID, e') \<Rightarrow> ([ActContainer agentID e'], w))
      | EvResult result \<Rightarrow>
          (case ct_conn w of None \<Rightarrow> ([], w) | Some (c, _) \<Rightarrow> ([ActDeliver c result], w))
      | EvProgress progress \<Rightarrow>
          (case ct_conn w of None \<Rightarrow> ([], w) | Some (c, _) \<Rightarrow> ([ActProgress c progress], w))
      | EvNone \<Rightarrow> ([], w))"

datatype recvRes = Recv agentEvent | RecvEOF | RecvErr bool

text \<open>
  The receive loop over the results of \<^verbatim>\<open>Recv\<close>; \<open>RecvErr done\<close> is an error with the context done or
  not. \<open>None\<close> while the stream is open, otherwise whether an error is returned. Other streams
  change the table and Redis between two events: \<open>env\<close> is what they did before each receive.
\<close>

fun Control_loop :: "'s portStore option \<Rightarrow> 'r redisClient option \<Rightarrow> string \<Rightarrow> nat \<Rightarrow>
    ((agents \<times> 'r \<Rightarrow> agents \<times> 'r) \<times> recvRes) list \<Rightarrow> 'r ctl \<Rightarrow> ctlAct list \<times> bool option \<times> 'r ctl" where
  "Control_loop store redis selfAddr fresh [] w = ([], None, w)"
| "Control_loop store redis selfAddr fresh ((env, res) # rest) w =
     (let (agents, r) = env (ct_agents w, ct_redis w); w = w\<lparr>ct_agents := agents, ct_redis := r\<rparr> in
      case res of
        RecvEOF \<Rightarrow> ([], Some False, w)
      | RecvErr ctxDone \<Rightarrow> ([], Some (\<not> ctxDone), w)
      | Recv event \<Rightarrow>
          (let (acts, w') = handleAgentEvent store redis selfAddr fresh event w;
               (acts', ret, w'') = Control_loop store redis selfAddr fresh rest w'
           in (acts @ acts', ret, w'')))"

definition Control :: "'s portStore option \<Rightarrow> 'r redisClient option \<Rightarrow> string \<Rightarrow> nat \<Rightarrow>
    ((agents \<times> 'r \<Rightarrow> agents \<times> 'r) \<times> recvRes) list \<Rightarrow> agents \<times> 'r \<Rightarrow> ctlAct list \<times> bool option \<times> agents \<times> 'r" where
  "Control store redis selfAddr fresh script = (\<lambda>(agents, r).
     (let (acts, ret, w) = Control_loop store redis selfAddr fresh script \<lparr>ct_conn = None, ct_agents = agents, ct_redis = r\<rparr> in
      case (ret, ct_conn w) of
        (Some _, Some (c, agentID)) \<Rightarrow>
          (acts @ [ActCloseAll c], ret, remove redis selfAddr agentID c (ct_agents w, ct_redis w))
      | _ \<Rightarrow> (acts, ret, ct_agents w, ct_redis w)))"

section \<open>The fleet: several controllers and one Redis\<close>

datatype directoryOp = WriteDir string string | DropDir string string

record 'r fleet =
  fl_agents :: "string \<Rightarrow> agents"
  fl_redis :: 'r
  fl_todo :: "directoryOp list"
  fl_held :: "(string \<times> string) set"

definition run_op :: "'r redisClient \<Rightarrow> directoryOp \<Rightarrow> 'r \<Rightarrow> 'r" where
  "run_op R d r =
     (case d of WriteDir pod a \<Rightarrow> writeMapping (Some R) pod a r | DropDir pod a \<Rightarrow> dropMapping (Some R) pod a r)"

text \<open>
  The steps: an agent's hello at a pod (the table now, the write later), the end of its stream, a
  heartbeat, one of the outstanding Redis commands in any order, and, in the relation with \<open>expiry\<close>,
  the expiry of a key. \<open>fl_held\<close> records which pods an agent has been connected to.
\<close>

inductive fleet_step :: "bool \<Rightarrow> 'r redisClient \<Rightarrow> ('r \<Rightarrow> keyspace) \<Rightarrow> 'r fleet \<Rightarrow> 'r fleet \<Rightarrow> bool"
  for expiry R kv where
  Connect: "fleet_step expiry R kv s
    (s\<lparr>fl_agents := (fl_agents s)(pod := snd (add_local a c (fl_agents s pod))),
       fl_todo := fl_todo s @ [WriteDir pod a], fl_held := insert (pod, a) (fl_held s)\<rparr>)"
| Disconnect: "remove_local a c (fl_agents s pod) = (removed, ags) \<Longrightarrow> fleet_step expiry R kv s
    (s\<lparr>fl_agents := (fl_agents s)(pod := ags), fl_todo := fl_todo s @ (if removed then [DropDir pod a] else [])\<rparr>)"
| Heartbeat: "(pod, a) \<in> fl_held s \<Longrightarrow> fleet_step expiry R kv s (s\<lparr>fl_todo := fl_todo s @ [WriteDir pod a]\<rparr>)"
| Perform: "fl_todo s = before @ d # after \<Longrightarrow>
    fleet_step expiry R kv s (s\<lparr>fl_redis := run_op R d (fl_redis s), fl_todo := before @ after\<rparr>)"
| Expire: "expiry \<Longrightarrow> kv r' = (kv (fl_redis s))(mappingKey a := None) \<Longrightarrow> fleet_step expiry R kv s (s\<lparr>fl_redis := r'\<rparr>)"

inductive fleet_reach :: "bool \<Rightarrow> 'r redisClient \<Rightarrow> ('r \<Rightarrow> keyspace) \<Rightarrow> 'r fleet \<Rightarrow> bool" for expiry R kv where
  init: "kv r = Map.empty \<Longrightarrow>
    fleet_reach expiry R kv \<lparr>fl_agents = (\<lambda>_. []), fl_redis = r, fl_todo = [], fl_held = {}\<rparr>"
| step: "fleet_reach expiry R kv s \<Longrightarrow> fleet_step expiry R kv s s' \<Longrightarrow> fleet_reach expiry R kv s'"

section \<open>Lemmas\<close>

lemma mappingKey_inject [simp]: "mappingKey a = mappingKey b \<longleftrightarrow> a = b"
  by (simp add: mappingKey_def)

lemma hasPrefix_mappingKey: "hasPrefix k mappingKeyPrefix \<longleftrightarrow> (\<exists>a. k = mappingKey a)"
  by (simp add: hasPrefix_iff mappingKey_def)

lemma drop_mappingKeys:
  "drop (length mappingKeyPrefix) ` {k \<in> mappingKey ` {a. P a}. length k > length mappingKeyPrefix} = {a. a \<noteq> [] \<and> P a}"
proof (intro set_eqI iffI)
  fix a
  assume "a \<in> {a. a \<noteq> [] \<and> P a}"
  then show "a \<in> drop (length mappingKeyPrefix) ` {k \<in> mappingKey ` {a. P a}. length k > length mappingKeyPrefix}"
    by (intro image_eqI [of _ _ "mappingKey a"]) (auto simp: mappingKey_def)
qed (auto simp: mappingKey_def)

context redis_client
begin

lemma writeMapping_kv: "kv (writeMapping (Some R) self a r) = kv r \<or>
    kv (writeMapping (Some R) self a r) = (kv r)(mappingKey a \<mapsto> self)"
proof -
  obtain x r' where s: "rSet R (mappingKey a) self mappingTTL r = (x, r')" by fastforce
  with set_ok set_err show ?thesis by (cases x) (auto simp: writeMapping_def)
qed

lemma dropMapping_kv: "kv (dropMapping (Some R) self a r) = kv r \<or>
    kv r (mappingKey a) = Some self \<and> kv (dropMapping (Some R) self a r) = (kv r)(mappingKey a := None)"
proof -
  obtain x r' where s: "rEval R (mappingKey a) (dropMappingScript self) r = (x, r')" by fastforce
  have "kv r' = kv r \<or> kv r' = (kv r)(mappingKey a := snd (dropMappingScript self (kv r (mappingKey a))))"
    using eval_ok eval_err s by (cases x) blast+
  with s show ?thesis by (auto simp: dropMapping_def dropMappingScript_def split: if_splits)
qed

lemma locate_post:
  assumes "locate (Some R) a r = (x, r')"
  shows "kv r' = kv r \<and> (\<forall>addr. x = Inr addr \<longrightarrow> addr = (case kv r (mappingKey a) of None \<Rightarrow> [] | Some v \<Rightarrow> v))"
proof -
  obtain y r1 where g: "rGet R (mappingKey a) r = (y, r1)" by fastforce
  note k = get_kv [OF g]
  show ?thesis
  proof (cases y)
    case (Inl e)
    with assms g k show ?thesis by (auto simp: locate_def)
  next
    case (Inr v)
    with get_ok g have "v = kv r (mappingKey a)" by blast
    with assms g k Inr show ?thesis by (auto simp: locate_def split: option.splits)
  qed
qed

lemma listAll_post:
  assumes "listAll (Some R) budget agents r = (Inr ids, r')"
  shows "distinct ids \<and> set ids = {a. a \<noteq> [] \<and> kv r (mappingKey a) \<noteq> None} \<and> kv r' = kv r"
proof -
  obtain y r1 where sc: "scanLoop R mappingKeyPrefix 256 budget 0 [] r = (y, r1)" by fastforce
  with assms obtain keys where keys: "y = Inr keys" by (cases y) (auto simp: listAll_def)
  have ids: "r' = r1" "ids = remdups (map (drop (length mappingKeyPrefix))
      (filter (\<lambda>key. length key > length mappingKeyPrefix) keys))"
    using assms sc keys by (auto simp: listAll_def)
  have "set keys = {k. kv r k \<noteq> None \<and> hasPrefix k mappingKeyPrefix}" using scan_full sc keys by blast
  also have "\<dots> = mappingKey ` {a. kv r (mappingKey a) \<noteq> None}" by (auto simp: hasPrefix_mappingKey)
  finally have "set keys = mappingKey ` {a. kv r (mappingKey a) \<noteq> None}" .
  then have "set ids = drop (length mappingKeyPrefix) `
      {k \<in> mappingKey ` {a. kv r (mappingKey a) \<noteq> None}. length k > length mappingKeyPrefix}"
    by (simp add: ids)
  also have "\<dots> = {a. a \<noteq> [] \<and> kv r (mappingKey a) \<noteq> None}" by (rule drop_mappingKeys)
  finally have "set ids = {a. a \<noteq> [] \<and> kv r (mappingKey a) \<noteq> None}" .
  with ids scanLoop_kv [OF sc] show ?thesis by simp
qed

end

section \<open>The directory over the runs of a fleet\<close>

definition fleet_inv :: "('r \<Rightarrow> keyspace) \<Rightarrow> 'r fleet \<Rightarrow> bool" where
  "fleet_inv kv s \<longleftrightarrow>
     (\<forall>a p. kv (fl_redis s) (mappingKey a) = Some p \<longrightarrow> (p, a) \<in> fl_held s) \<and>
     (\<forall>p a. WriteDir p a \<in> set (fl_todo s) \<longrightarrow> (p, a) \<in> fl_held s)"

context redis_client
begin

lemma run_op_kv:
  "kv (run_op R d r) k = kv r k \<or>
   (\<exists>pod a. d = WriteDir pod a \<and> k = mappingKey a \<and> kv (run_op R d r) k = Some pod) \<or>
   (\<exists>pod a. d = DropDir pod a \<and> k = mappingKey a \<and> kv r k = Some pod \<and> kv (run_op R d r) k = None)"
proof (cases d)
  case (WriteDir pod a)
  then show ?thesis using writeMapping_kv [of pod a r] by (cases "k = mappingKey a") (auto simp: run_op_def)
next
  case (DropDir pod a)
  then show ?thesis using dropMapping_kv [of pod a r] by (cases "k = mappingKey a") (auto simp: run_op_def)
qed

lemma fleet_step_inv:
  assumes "fleet_step expiry R kv s s'" "fleet_inv kv s"
  shows "fleet_inv kv s'"
  using assms(1)
proof cases
  case (Perform before d after)
  have todo: "WriteDir p a \<in> set (fl_todo s) \<Longrightarrow> (p, a) \<in> fl_held s" for p a
    using assms(2) by (simp add: fleet_inv_def)
  have "(p, a) \<in> fl_held s" if "kv (run_op R d (fl_redis s)) (mappingKey a) = Some p" for a p
    using run_op_kv [of d "fl_redis s" "mappingKey a"] that assms(2) todo Perform(2)
    by (auto simp: fleet_inv_def)
  with todo Perform show ?thesis by (auto simp: fleet_inv_def)
next
  case (Expire r' a)
  with assms(2) show ?thesis by (auto simp: fleet_inv_def split: if_splits)
qed (use assms(2) in \<open>auto simp: fleet_inv_def\<close>)

lemma fleet_reach_inv: "fleet_reach expiry R kv s \<Longrightarrow> fleet_inv kv s"
proof (induction rule: fleet_reach.induct)
  case (init r)
  then show ?case by (simp add: fleet_inv_def)
next
  case (step s s')
  then show ?case using fleet_step_inv by blast
qed

end

section \<open>The Control loop\<close>

fun is_hello :: "agentEvent \<Rightarrow> bool" where
  "is_hello e \<longleftrightarrow> (case ev_kind e of EvHello _ \<Rightarrow> True | _ \<Rightarrow> False)"

text \<open>The events received before the loop ended, and those from the first hello on.\<close>

fun events :: "('e \<times> recvRes) list \<Rightarrow> agentEvent list" where
  "events ((env, Recv e) # rest) = e # events rest"
| "events _ = []"

definition from_hello :: "agentEvent list \<Rightarrow> agentEvent list" where
  "from_hello evs = dropWhile (\<lambda>e. \<not> is_hello e) evs"

definition delivered :: "ctlAct list \<Rightarrow> (nat \<times> agentResult) list" where
  "delivered acts = [(c, r). ActDeliver c r \<leftarrow> acts]"

definition registered :: "ctlAct list \<Rightarrow> (nat \<times> string) list" where
  "registered acts = [(c, a). ActRegister c a \<leftarrow> acts]"

lemma delivered_simps [simp]:
  "delivered [] = []" "delivered (xs @ ys) = delivered xs @ delivered ys"
  "registered [] = []" "registered (xs @ ys) = registered xs @ registered ys"
  "delivered (a # xs) = (case a of ActDeliver c r \<Rightarrow> [(c, r)] | _ \<Rightarrow> []) @ delivered xs"
  "registered (a # xs) = (case a of ActRegister c r \<Rightarrow> [(c, r)] | _ \<Rightarrow> []) @ registered xs"
  by (simp_all add: delivered_def registered_def)

definition results_of :: "nat \<Rightarrow> agentEvent list \<Rightarrow> (nat \<times> agentResult) list" where
  "results_of c evs = [(c, r). EvResult r \<leftarrow> map ev_kind evs]"

lemma results_of_simps [simp]:
  "results_of c [] = []"
  "results_of c (e # es) = (case ev_kind e of EvResult r \<Rightarrow> [(c, r)] | _ \<Rightarrow> []) @ results_of c es"
  by (simp_all add: results_of_def)

lemma handleAgentEvent_registered:
  assumes "handleAgentEvent store redis self fresh e w = (acts, w')" "ct_conn w = Some (c, a)"
  shows "ct_conn w' = Some (c, a)" "registered acts = []" "delivered acts = results_of c [e]"
  using assms by (auto simp: handleAgentEvent_def split: agentEventKind.splits option.splits)

lemma handleAgentEvent_unregistered:
  assumes "handleAgentEvent store redis self fresh e w = (acts, w')" "ct_conn w = None"
  shows "delivered acts = []"
    "registered acts = (if is_hello e then [(fresh, ev_agent_id e)] else [])"
    "ct_conn w' = (if is_hello e then Some (fresh, ev_agent_id e) else None)"
  using assms
  by (auto simp: handleAgentEvent_def Let_def split: agentEventKind.splits option.splits prod.splits)

lemma Control_loop_registered:
  assumes "Control_loop store redis self fresh script w = (acts, ret, w')" "ct_conn w = Some (c, a)"
  shows "ct_conn w' = Some (c, a) \<and> registered acts = [] \<and> delivered acts = results_of c (events script)"
  using assms
proof (induction script arbitrary: w acts)
  case Nil
  then show ?case by simp
next
  case (Cons x script)
  obtain env res where x: "x = (env, res)" by (cases x)
  obtain agents r where en: "env (ct_agents w, ct_redis w) = (agents, r)" by fastforce
  let ?w = "w\<lparr>ct_agents := agents, ct_redis := r\<rparr>"
  show ?case
  proof (cases res)
    case (Recv e)
    obtain acts1 w1 where h: "handleAgentEvent store redis self fresh e ?w = (acts1, w1)" by fastforce
    obtain acts2 ret2 w2 where l: "Control_loop store redis self fresh script w1 = (acts2, ret2, w2)" by (metis prod_cases3)
    have h': "ct_conn w1 = Some (c, a)" "registered acts1 = []" "delivered acts1 = results_of c [e]"
      using handleAgentEvent_registered [OF h] Cons.prems(2) by auto
    have out: "acts = acts1 @ acts2" "w' = w2" using Cons.prems(1) x en Recv h l by (auto simp: Let_def)
    from Cons.IH [of w1 acts2] l h'(1) out Cons.prems(1) x en Recv h
    have "ct_conn w' = Some (c, a) \<and> registered acts2 = [] \<and> delivered acts2 = results_of c (events script)"
      by (auto simp: Let_def)
    with h' out x Recv show ?thesis by simp
  qed (use Cons.prems x en in \<open>auto simp: Let_def\<close>)
qed

lemma Control_loop_unregistered:
  assumes "Control_loop store redis self fresh script w = (acts, ret, w')" "ct_conn w = None"
  shows "delivered acts = results_of fresh (from_hello (events script)) \<and>
    (case from_hello (events script) of
       [] \<Rightarrow> registered acts = [] \<and> ct_conn w' = None
     | e # _ \<Rightarrow> registered acts = [(fresh, ev_agent_id e)] \<and> ct_conn w' = Some (fresh, ev_agent_id e))"
  using assms
proof (induction script arbitrary: w acts)
  case Nil
  then show ?case by (simp add: from_hello_def)
next
  case (Cons x script)
  obtain env res where x: "x = (env, res)" by (cases x)
  obtain agents r where en: "env (ct_agents w, ct_redis w) = (agents, r)" by fastforce
  let ?w = "w\<lparr>ct_agents := agents, ct_redis := r\<rparr>"
  show ?case
  proof (cases res)
    case (Recv e)
    obtain acts1 w1 where h: "handleAgentEvent store redis self fresh e ?w = (acts1, w1)" by fastforce
    obtain acts2 ret2 w2 where l: "Control_loop store redis self fresh script w1 = (acts2, ret2, w2)" by (metis prod_cases3)
    have h': "delivered acts1 = []" "registered acts1 = (if is_hello e then [(fresh, ev_agent_id e)] else [])"
        "ct_conn w1 = (if is_hello e then Some (fresh, ev_agent_id e) else None)"
      using handleAgentEvent_unregistered [OF h] Cons.prems(2) by auto
    have out: "acts = acts1 @ acts2" "w' = w2" "ret = ret2" using Cons.prems(1) x en Recv h l by (auto simp: Let_def)
    show ?thesis
    proof (cases "is_hello e")
      case True
      then have "ct_conn w1 = Some (fresh, ev_agent_id e)" using h'(3) by simp
      from Control_loop_registered [OF l this] h' out x Recv True show ?thesis
        by (auto simp: from_hello_def split: agentEventKind.splits)
    next
      case False
      with h'(3) have "ct_conn w1 = None" by simp
      note ih = Cons.IH [OF l [folded out(2,3)] this]
      have fh: "from_hello (events (x # script)) = from_hello (events script)"
        using x Recv False by (simp add: from_hello_def del: is_hello.simps)
      show ?thesis unfolding fh using ih h'(1,2) out(1) False
        by (simp del: is_hello.simps split: list.splits)
    qed
  qed (use Cons.prems x en in \<open>auto simp: Let_def from_hello_def\<close>)
qed


lemma Control_loop_error:
  "Control_loop store redis self fresh script w = (acts, ret, w') \<Longrightarrow> ret = Some True \<Longrightarrow> RecvErr False \<in> snd ` set script"
proof (induction script arbitrary: w acts)
  case (Cons x script)
  obtain env res where x: "x = (env, res)" by (cases x)
  show ?case
  proof (cases res)
    case (Recv e)
    with Cons.prems x obtain w1 acts1 where "Control_loop store redis self fresh script w1 = (acts1, ret, w')"
      by (auto simp: Let_def split: prod.splits)
    from Cons.IH [OF this Cons.prems(2)] show ?thesis by auto
  qed (use Cons.prems x in \<open>auto simp: Let_def split: prod.splits\<close>)
qed simp

section \<open>Properties\<close>

text \<open>
  (C19) The agent directory over any run of any number of controllers, with any order of their Redis
  commands, lost commands and expiring keys: an address that \<^verbatim>\<open>locate\<close> returns is that of a controller
  the agent did connect to, and the teardown of a connection at another controller never removes it.
\<close>

theorem directory_sound:
  assumes "redis_client R kv" "fleet_reach expiry R kv s"
    and "locate (Some R) a (fl_redis s) = (Inr addr, r')" "addr \<noteq> []"
  shows "(addr, a) \<in> fl_held s \<and> kv r' = kv (fl_redis s) \<and>
    (\<forall>pod b. pod \<noteq> addr \<longrightarrow> kv (run_op R (DropDir pod b) (fl_redis s)) (mappingKey a) = Some addr)"
proof -
  have at: "kv (fl_redis s) (mappingKey a) = Some addr"
    using redis_client.locate_post [OF assms(1,3)] assms(4) by (auto split: option.splits)
  have "(addr, a) \<in> fl_held s"
    using redis_client.fleet_reach_inv [OF assms(1,2)] at by (simp add: fleet_inv_def)
  moreover have "kv (run_op R (DropDir pod b) (fl_redis s)) (mappingKey a) = Some addr" if "pod \<noteq> addr" for pod b
    using redis_client.run_op_kv [OF assms(1), of "DropDir pod b" "fl_redis s" "mappingKey a"] at that by auto
  ultimately show ?thesis using redis_client.locate_post [OF assms(1,3)] by blast
qed

definition mini_empty :: miniRedis where
  "mini_empty = \<lparr>mini_store = [], failures = []\<rparr>"

definition fleet_start :: "miniRedis fleet" where
  "fleet_start = \<lparr>fl_agents = (\<lambda>_. []), fl_redis = mini_empty, fl_todo = [], fl_held = {}\<rparr>"

lemma fleet_start_reach: "fleet_reach False miniRedisClient (\<lambda>r. mget (mini_store r)) fleet_start"
  unfolding fleet_start_def by (rule fleet_reach.init) (simp add: mini_empty_def)

definition after_connect :: "string \<Rightarrow> string \<Rightarrow> nat \<Rightarrow> miniRedis fleet \<Rightarrow> miniRedis fleet" where
  "after_connect pod a c s = s\<lparr>fl_agents := (fl_agents s)(pod := snd (add_local a c (fl_agents s pod))),
       fl_todo := fl_todo s @ [WriteDir pod a], fl_held := insert (pod, a) (fl_held s)\<rparr>"

definition after_disconnect :: "string \<Rightarrow> string \<Rightarrow> nat \<Rightarrow> miniRedis fleet \<Rightarrow> miniRedis fleet" where
  "after_disconnect pod a c s = s\<lparr>fl_agents := (fl_agents s)(pod := snd (remove_local a c (fl_agents s pod))),
       fl_todo := fl_todo s @ (if fst (remove_local a c (fl_agents s pod)) then [DropDir pod a] else [])\<rparr>"

definition after_perform :: "nat \<Rightarrow> miniRedis fleet \<Rightarrow> miniRedis fleet" where
  "after_perform i s = s\<lparr>fl_redis := run_op miniRedisClient (fl_todo s ! i) (fl_redis s),
       fl_todo := take i (fl_todo s) @ drop (Suc i) (fl_todo s)\<rparr>"

lemmas fleet_eval = after_connect_def after_disconnect_def after_perform_def fleet_start_def mini_empty_def
  add_local_def remove_local_def run_op_def writeMapping_def dropMapping_def dropMappingScript_def locate_def get_def
  miniRedisClient_def mini_step_def mappingKey_def mappingKeyPrefix_def Let_def

lemma after_reach:
  assumes "fleet_reach False miniRedisClient (\<lambda>r. mget (mini_store r)) s"
  shows "fleet_reach False miniRedisClient (\<lambda>r. mget (mini_store r)) (after_connect pod a c s)"
    "fleet_reach False miniRedisClient (\<lambda>r. mget (mini_store r)) (after_disconnect pod a c s)"
    "i < length (fl_todo s) \<Longrightarrow> fleet_reach False miniRedisClient (\<lambda>r. mget (mini_store r)) (after_perform i s)"
  unfolding after_connect_def after_disconnect_def after_perform_def
  by (rule fleet_reach.step [OF assms], rule fleet_step.Connect)
    (rule fleet_reach.step [OF assms], rule fleet_step.Disconnect, simp,
     rule fleet_reach.step [OF assms], rule fleet_step.Perform, simp add: id_take_nth_drop [symmetric])

theorem directory_sound_witness:
  "(''pod-a'', ''x'') \<in> fl_held (after_perform 0 (after_connect ''pod-a'' ''x'' 1 fleet_start))"
proof -
  let ?s = "after_perform 0 (after_connect ''pod-a'' ''x'' 1 fleet_start)"
  have reach: "fleet_reach False miniRedisClient (\<lambda>r. mget (mini_store r)) ?s"
    by (rule after_reach(3) [OF after_reach(1) [OF fleet_start_reach]]) (simp add: after_connect_def)
  have "fst (locate (Some miniRedisClient) ''x'' (fl_redis ?s)) = Inr ''pod-a''" by (simp add: fleet_eval)
  then obtain r' where "locate (Some miniRedisClient) ''x'' (fl_redis ?s) = (Inr ''pod-a'', r')"
    by (metis prod.collapse)
  from directory_sound [OF miniR.redis_client_axioms reach this] show ?thesis by simp
qed

text \<open>
  (C21) The race in \<^verbatim>\<open>remove\<close>: because the table is updated before the directory, an agent that reconnects
  to the same controller while its old stream is being torn down can lose its entry. There is a run
  without any failure or expiry after which nothing is outstanding, the controller holds the
  agent's new connection, and the directory does not know the agent.
\<close>

theorem reconnect_can_lose_mapping:
  "\<exists>s. fleet_reach False miniRedisClient (\<lambda>r. mget (mini_store r)) s \<and> fl_todo s = [] \<and>
     get ''x'' (fl_agents s ''pod-a'') = Some 2 \<and> mget (mini_store (fl_redis s)) (mappingKey ''x'') = None"
proof -
  let ?s1 = "after_perform 0 (after_connect ''pod-a'' ''x'' 1 fleet_start)"
  let ?s2 = "after_connect ''pod-a'' ''x'' 2 (after_disconnect ''pod-a'' ''x'' 1 ?s1)"
  let ?s3 = "after_perform 0 (after_perform 1 ?s2)"
  have "length (fl_todo ?s2) = 2 \<and> length (fl_todo (after_perform 1 ?s2)) = 1" by (simp add: fleet_eval)
  moreover have "length (fl_todo (after_connect ''pod-a'' ''x'' 1 fleet_start)) = 1" by (simp add: fleet_eval)
  ultimately have n: "0 < length (fl_todo (after_connect ''pod-a'' ''x'' 1 fleet_start))" "1 < length (fl_todo ?s2)"
      "0 < length (fl_todo (after_perform 1 ?s2))" by linarith+
  have "fleet_reach False miniRedisClient (\<lambda>r. mget (mini_store r)) ?s3"
    by (rule after_reach(3) [OF after_reach(3) [OF after_reach(1) [OF after_reach(2)
          [OF after_reach(3) [OF after_reach(1) [OF fleet_start_reach] n(1)]]] n(2)] n(3)])
  moreover have "fl_todo ?s3 = [] \<and> get ''x'' (fl_agents ?s3 ''pod-a'') = Some 2 \<and>
      mget (mini_store (fl_redis ?s3)) (mappingKey ''x'') = None" by (simp add: fleet_eval)
  ultimately show ?thesis by blast
qed

text \<open>
  (C22) The life of a Control stream, whatever other streams do to the registry in between: the first
  hello, and only it, registers one connection, under the agent id it carries; exactly the results
  received from then on are delivered to it, in order; and when the stream ends the connection is
  closed and is no longer registered. An error is returned only for a failure that is neither
  the end of the stream nor a cancelled context.
\<close>

theorem control_lifecycle:
  assumes "Control store redis self fresh script (agents, r) = (acts, Some failed, agents', r')"
  shows "delivered acts = results_of fresh (from_hello (events script)) \<and>
    registered acts = (case from_hello (events script) of [] \<Rightarrow> [] | e # _ \<Rightarrow> [(fresh, ev_agent_id e)]) \<and>
    (\<forall>e rest. from_hello (events script) = e # rest \<longrightarrow>
       last acts = ActCloseAll fresh \<and> mget agents' (ev_agent_id e) \<noteq> Some fresh) \<and>
    (failed \<longrightarrow> RecvErr False \<in> snd ` set script)"
proof -
  let ?w = "\<lparr>ct_conn = None, ct_agents = agents, ct_redis = r\<rparr>"
  obtain acts1 ret w where l: "Control_loop store redis self fresh script ?w = (acts1, ret, w)" by (metis prod_cases3)
  note post = Control_loop_unregistered [OF l]
  have ret: "ret = Some failed" using assms l by (auto simp: Control_def split: option.splits prod.splits)
  note err = Control_loop_error [OF l]
  show ?thesis
  proof (cases "from_hello (events script)")
    case Nil
    with post assms l ret err show ?thesis by (auto simp: Control_def)
  next
    case (Cons e rest)
    with post have conn: "ct_conn w = Some (fresh, ev_agent_id e)" "registered acts1 = [(fresh, ev_agent_id e)]"
        "delivered acts1 = results_of fresh (from_hello (events script))" by auto
    have acts: "acts = acts1 @ [ActCloseAll fresh]"
      "(agents', r') = remove redis self (ev_agent_id e) fresh (ct_agents w, ct_redis w)"
      using assms l ret conn by (auto simp: Control_def)
    have "mget agents' (ev_agent_id e) \<noteq> Some fresh"
      using acts(2) by (auto simp: remove_def remove_local_def Let_def gomap_simps split: if_splits)
    with acts conn Cons ret err show ?thesis by auto
  qed
qed

definition demo_stream_events :: "((agents \<times> unit \<Rightarrow> agents \<times> unit) \<times> recvRes) list" where
  "demo_stream_events =
     [(id, Recv \<lparr>ev_agent_id = ''x'', ev_kind = EvHello ''token''\<rparr>),
      (id, Recv \<lparr>ev_agent_id = ''x'', ev_kind = EvResult \<lparr>rs_request_id = ''1'', rs_code = 200, rs_payload = [], rs_error = [], rs_final = True\<rparr>\<rparr>),
      (id, RecvEOF)]"

theorem control_lifecycle_witness:
  "\<exists>acts agents' r'. Control (None :: unit portStore option) None [] 5 demo_stream_events ([], ()) = (acts, Some False, agents', r') \<and>
     registered acts = [(5, ''x'')] \<and> mget agents' ''x'' \<noteq> Some 5"
proof -
  let ?c = "Control (None :: unit portStore option) None [] 5 demo_stream_events ([], ())"
  obtain acts agents' r' where c: "?c = (acts, Some False, agents', r')"
    by (simp add: Control_def demo_stream_events_def handleAgentEvent_def add_def add_local_def remove_def remove_local_def Let_def)
  have "from_hello (events demo_stream_events) = \<lparr>ev_agent_id = ''x'', ev_kind = EvHello ''token''\<rparr> # tl (events demo_stream_events)"
    by (simp add: from_hello_def demo_stream_events_def)
  with control_lifecycle [OF c] c show ?thesis by auto
qed

end
