(* ===== verification/Leases.thy ===== *)
theory Leases
  imports Registry
begin

text \<open>
  Time in the directory of agents: an entry is written with a time to live (\<^verbatim>\<open>mappingTTL\<close> of
  \<^verbatim>\<open>pkg/controller/registry.go\<close>), the agent's heartbeat (\<^verbatim>\<open>runSession\<close> of \<^verbatim>\<open>pkg/agent/agent.go\<close>, every 15 seconds)
  makes the controller write it again (\<^verbatim>\<open>refresh\<close>), and a heartbeat or a write can fail. The contract of a
  Redis with time is the locale \<open>timed_redis\<close>, which extends \<open>redis_client\<close> by what the documentation
  says of expiry; the lemmas about the lease of an entry are proved in it once.
\<close>

section \<open>A Redis with time\<close>

text \<open>\<open>elapse d\<close> lets \<open>d\<close> nanoseconds pass; \<open>ttl r k\<close> is the time a key has left, \<open>None\<close> when it never expires.\<close>

locale timed_redis = redis_client R kv
  for R :: "'r redisClient" and kv :: "'r \<Rightarrow> keyspace" +
  fixes elapse :: "nat \<Rightarrow> 'r \<Rightarrow> 'r"
    and ttl :: "'r \<Rightarrow> string \<Rightarrow> nat option"
  assumes elapse_kv: "kv (elapse d r) k =
      (case ttl r k of None \<Rightarrow> kv r k | Some t \<Rightarrow> if t \<le> d then None else kv r k)"
    and elapse_ttl: "ttl (elapse d r) k =
      (case ttl r k of None \<Rightarrow> None | Some t \<Rightarrow> if t \<le> d then None else Some (t - d))"
    and set_ttl: "rSet R k v t r = (Inr u, r') \<Longrightarrow> ttl r' = (ttl r)(k \<mapsto> t)"
    and set_err_ttl: "rSet R k v t r = (Inl e, r') \<Longrightarrow>
      kv r' = kv r \<and> ttl r' = ttl r \<or> kv r' = (kv r)(k \<mapsto> v) \<and> ttl r' = (ttl r)(k \<mapsto> t)"

section \<open>An entry and its heartbeats\<close>

definition heartbeatInterval :: nat where
  "heartbeatInterval = 15000000000"

datatype leaseEvent = Passes nat | Beat

text \<open>
  A holder between its registration and now: time passes, and heartbeats arrive and refresh the entry.
  \<open>lease_age\<close> is the time since the entry was last written with success.
\<close>

fun lease_run :: "'r redisClient \<Rightarrow> (nat \<Rightarrow> 'r \<Rightarrow> 'r) \<Rightarrow> string \<Rightarrow> string \<Rightarrow> leaseEvent list \<Rightarrow> 'r \<Rightarrow> 'r" where
  "lease_run R elapse addr agentID [] r = r"
| "lease_run R elapse addr agentID (Passes d # evs) r = lease_run R elapse addr agentID evs (elapse d r)"
| "lease_run R elapse addr agentID (Beat # evs) r =
     lease_run R elapse addr agentID evs (refresh (Some R) addr agentID r)"

fun lease_age :: "'r redisClient \<Rightarrow> (nat \<Rightarrow> 'r \<Rightarrow> 'r) \<Rightarrow> string \<Rightarrow> string \<Rightarrow> leaseEvent list \<Rightarrow> 'r \<Rightarrow> nat \<Rightarrow> nat list" where
  "lease_age R elapse addr agentID [] r a = [a]"
| "lease_age R elapse addr agentID (Passes d # evs) r a =
     a # lease_age R elapse addr agentID evs (elapse d r) (a + d)"
| "lease_age R elapse addr agentID (Beat # evs) r a =
     a # lease_age R elapse addr agentID evs (refresh (Some R) addr agentID r)
           (if isl (fst (rSet R (mappingKey agentID) addr mappingTTL r)) then a else 0)"

context timed_redis
begin

text \<open>The entry is there and has at least the rest of a full lease left.\<close>

definition leased :: "string \<Rightarrow> string \<Rightarrow> nat \<Rightarrow> 'r \<Rightarrow> bool" where
  "leased addr agentID a r \<longleftrightarrow>
     kv r (mappingKey agentID) = Some addr \<and>
     (\<exists>t. ttl r (mappingKey agentID) = Some t \<and> mappingTTL \<le> t + a \<and> t \<le> mappingTTL)"

lemma leased_passes:
  assumes "leased addr agentID a r" "a + d < mappingTTL"
  shows "leased addr agentID (a + d) (elapse d r)"
  using assms by (auto simp: leased_def elapse_kv elapse_ttl)

lemma leased_refresh:
  assumes "leased addr agentID a r"
  shows "leased addr agentID (if isl (fst (rSet R (mappingKey agentID) addr mappingTTL r)) then a else 0)
    (refresh (Some R) addr agentID r)"
proof (cases "rSet R (mappingKey agentID) addr mappingTTL r")
  case (Pair x r')
  show ?thesis
  proof (cases x)
    case (Inl e)
    with Pair set_err_ttl [of "mappingKey agentID" addr mappingTTL r e r'] assms show ?thesis
      by (auto simp: leased_def refresh_def writeMapping_def)
  next
    case (Inr u)
    with Pair set_ttl [of "mappingKey agentID" addr mappingTTL r u r'] set_ok [of "mappingKey agentID" addr mappingTTL r u r']
    show ?thesis by (auto simp: leased_def refresh_def writeMapping_def)
  qed
qed

lemma lease_kept:
  assumes "leased addr agentID a r" "\<forall>x\<in>set (lease_age R elapse addr agentID evs r a). x < mappingTTL"
  shows "leased addr agentID (last (lease_age R elapse addr agentID evs r a)) (lease_run R elapse addr agentID evs r)"
  using assms
proof (induction evs arbitrary: r a)
  case (Cons ev evs)
  show ?case
  proof (cases ev)
    case (Passes d)
    have "a + d \<in> set (lease_age R elapse addr agentID evs (elapse d r) (a + d))"
      by (cases evs; cases "hd evs") auto
    with Cons.prems(2) Passes have "a + d < mappingTTL" by auto
    from Cons.IH [OF leased_passes [OF Cons.prems(1) this]] Cons.prems(2) Passes show ?thesis
      by (cases evs; cases "hd evs") auto
  next
    case Beat
    from Cons.IH [OF leased_refresh [OF Cons.prems(1)]] Cons.prems(2) Beat show ?thesis
      by (cases evs; cases "hd evs") auto
  qed
qed simp

lemma leased_locate:
  assumes "leased addr agentID a r" "locate (Some R) agentID r = (Inr found, r')"
  shows "found = addr"
  using assms get_ok [of "mappingKey agentID" r]
  by (auto simp: locate_def leased_def split: prod.splits sum.splits option.splits)

lemma written_leased:
  assumes "rSet R (mappingKey agentID) addr mappingTTL r = (Inr u, r')"
  shows "leased addr agentID 0 r'"
  using set_ttl [OF assms] set_ok [OF assms] by (auto simp: leased_def)

text \<open>Without heartbeats the entry is gone when a full lease has passed.\<close>

lemma lease_expires:
  assumes "leased addr agentID a r" "mappingTTL \<le> d" "locate (Some R) agentID (elapse d r) = (Inr found, r')"
  shows "found = []"
proof -
  have "kv (elapse d r) (mappingKey agentID) = None"
    using assms(1,2) by (auto simp: leased_def elapse_kv)
  with assms(3) get_ok [of "mappingKey agentID" "elapse d r"] show ?thesis
    by (auto simp: locate_def split: prod.splits sum.splits option.splits)
qed

end

section \<open>Heartbeats on time\<close>

text \<open>\<open>n\<close> heartbeats, one per interval, and which of their writes succeed; \<open>steady\<close> says no two in a row fail.\<close>

definition heartbeats :: "nat \<Rightarrow> leaseEvent list" where
  "heartbeats n = concat (replicate n [Passes heartbeatInterval, Beat])"

fun beats :: "'r redisClient \<Rightarrow> (nat \<Rightarrow> 'r \<Rightarrow> 'r) \<Rightarrow> string \<Rightarrow> string \<Rightarrow> nat \<Rightarrow> 'r \<Rightarrow> bool list" where
  "beats R elapse addr agentID 0 r = []"
| "beats R elapse addr agentID (Suc n) r =
     (\<not> isl (fst (rSet R (mappingKey agentID) addr mappingTTL (elapse heartbeatInterval r)))) #
     beats R elapse addr agentID n (refresh (Some R) addr agentID (elapse heartbeatInterval r))"

fun steady :: "bool list \<Rightarrow> bool" where
  "steady [] = True"
| "steady [b] = True"
| "steady (b # c # bs) = ((b \<or> c) \<and> steady (c # bs))"

lemma steady_ages:
  assumes "steady ((a = 0) # beats R elapse addr agentID n r)" "a = 0 \<or> a = heartbeatInterval"
  shows "\<forall>x\<in>set (lease_age R elapse addr agentID (heartbeats n) r a). x \<le> 2 * heartbeatInterval"
  using assms
proof (induction n arbitrary: r a)
  case (Suc n)
  let ?r = "elapse heartbeatInterval r"
  let ?ok = "\<not> isl (fst (rSet R (mappingKey agentID) addr mappingTTL ?r))"
  let ?a = "if ?ok then 0 else a + heartbeatInterval"
  have h: "heartbeats (Suc n) = Passes heartbeatInterval # Beat # heartbeats n"
    by (simp add: heartbeats_def)
  have pos: "0 < heartbeatInterval" by (simp add: heartbeatInterval_def)
  from Suc.prems(1) have st: "a = 0 \<or> ?ok" "steady (?ok # beats R elapse addr agentID n (refresh (Some R) addr agentID ?r))"
    by auto
  then have "steady ((?a = 0) # beats R elapse addr agentID n (refresh (Some R) addr agentID ?r))"
    using pos by auto
  moreover have "?a = 0 \<or> ?a = heartbeatInterval" using st(1) by auto
  ultimately have "\<forall>x\<in>set (lease_age R elapse addr agentID (heartbeats n) (refresh (Some R) addr agentID ?r) ?a).
      x \<le> 2 * heartbeatInterval"
    by (rule Suc.IH)
  then show ?case using Suc.prems(2) unfolding h by auto
qed (auto simp: heartbeats_def)

section \<open>A small Redis with time\<close>

record timedRedis =
  tr_base :: miniRedis
  tr_ttl :: "string \<Rightarrow> nat option"

definition timedRedisClient :: "timedRedis redisClient" where
  "timedRedisClient =
     \<lparr>rGet = (\<lambda>k r. apsnd (\<lambda>b. r\<lparr>tr_base := b\<rparr>) (rGet miniRedisClient k (tr_base r))),
      rMGet = (\<lambda>ks r. apsnd (\<lambda>b. r\<lparr>tr_base := b\<rparr>) (rMGet miniRedisClient ks (tr_base r))),
      rSet = (\<lambda>k v t r. case rSet miniRedisClient k v t (tr_base r) of
                (x, b) \<Rightarrow> (x, r\<lparr>tr_base := b, tr_ttl := (if isl x then tr_ttl r else (tr_ttl r)(k \<mapsto> t))\<rparr>)),
      rSetNX = (\<lambda>k v r. case rSetNX miniRedisClient k v (tr_base r) of
                (x, b) \<Rightarrow> (x, r\<lparr>tr_base := b, tr_ttl := (if x = Inr True then (tr_ttl r)(k := None) else tr_ttl r)\<rparr>)),
      rSetXX = (\<lambda>k v r. case rSetXX miniRedisClient k v (tr_base r) of
                (x, b) \<Rightarrow> (x, r\<lparr>tr_base := b, tr_ttl := (if x = Inr True then (tr_ttl r)(k := None) else tr_ttl r)\<rparr>)),
      rDel = (\<lambda>k r. case rDel miniRedisClient k (tr_base r) of
                (x, b) \<Rightarrow> (x, r\<lparr>tr_base := b, tr_ttl := (if isl x then tr_ttl r else (tr_ttl r)(k := None))\<rparr>)),
      rScan = (\<lambda>c pfx count r. apsnd (\<lambda>b. r\<lparr>tr_base := b\<rparr>) (rScan miniRedisClient c pfx count (tr_base r))),
      rPublish = (\<lambda>ch msg r. apsnd (\<lambda>b. r\<lparr>tr_base := b\<rparr>) (rPublish miniRedisClient ch msg (tr_base r))),
      rEval = (\<lambda>k f r. apsnd (\<lambda>b. r\<lparr>tr_base := b\<rparr>) (rEval miniRedisClient k f (tr_base r)))\<rparr>"

definition timed_elapse :: "nat \<Rightarrow> timedRedis \<Rightarrow> timedRedis" where
  "timed_elapse d r =
     r\<lparr>tr_base := (tr_base r)\<lparr>mini_store :=
         filter (\<lambda>(k, v). case tr_ttl r k of None \<Rightarrow> True | Some t \<Rightarrow> d < t) (mini_store (tr_base r))\<rparr>,
       tr_ttl := (\<lambda>k. case tr_ttl r k of None \<Rightarrow> None | Some t \<Rightarrow> if t \<le> d then None else Some (t - d))\<rparr>"

definition timed_kv :: "timedRedis \<Rightarrow> keyspace" where
  "timed_kv r = mget (mini_store (tr_base r))"

lemma timed_scanLoop:
  "scanLoop timedRedisClient pfx count budget c acc r =
     apsnd (\<lambda>b. r\<lparr>tr_base := b\<rparr>) (scanLoop miniRedisClient pfx count budget c acc (tr_base r))"
proof (induction budget arbitrary: c acc r)
  case (Suc budget)
  then show ?case
    by (cases "rScan miniRedisClient c pfx count (tr_base r)")
      (auto simp: timedRedisClient_def split: sum.splits)
qed simp

lemma mget_filter_key: "mget (filter (\<lambda>(k, v). P k) m) k = (if P k then mget m k else None)"
  by (induction m) auto

lemma mini_unchanged:
  "rSet miniRedisClient k v t b = (Inl e, b') \<Longrightarrow> mini_store b' = mini_store b"
  by (auto simp: miniRedisClient_def mini_step_def Let_def split: if_splits)

interpretation timedR: timed_redis timedRedisClient timed_kv timed_elapse tr_ttl
proof (unfold_locales, goal_cases)
  case (17 pfx count budget r ks r')
  then obtain b where "scanLoop miniRedisClient pfx count budget 0 [] (tr_base r) = (Inr ks, b)"
    by (auto simp: timed_scanLoop apsnd_def map_prod_def split: prod.splits)
  then show ?case using miniR.scan_full by (simp add: timed_kv_def)
next
  case (9 k v r b r')
  then obtain x where x: "rSetXX miniRedisClient k v (tr_base r) = (Inr b, x)" "tr_base r' = x"
    by (auto simp: timedRedisClient_def split: prod.splits)
  from miniR.setxx_ok [OF x(1)] x(2) show ?case by (simp add: timed_kv_def)
next
  case (18 d r k)
  show ?case
    by (auto simp: timed_kv_def timed_elapse_def mget_filter_key split: option.split)
qed (auto simp: timedRedisClient_def timed_kv_def timed_elapse_def apsnd_def map_prod_def
      dest: miniR.get_kv miniR.get_ok miniR.mget_kv miniR.mget_ok miniR.set_ok miniR.set_err miniR.setnx_ok miniR.setnx_err
        miniR.setxx_ok miniR.setxx_err miniR.del_ok miniR.del_err miniR.publish_kv miniR.eval_ok miniR.eval_err miniR.scan_kv
        mini_unchanged
      split: prod.splits)

section \<open>Property\<close>

lemma heartbeats_kept: "2 * heartbeatInterval < mappingTTL"
  by (simp add: heartbeatInterval_def mappingTTL_def)

text \<open>
  (C20) An agent stays in the directory while its heartbeats get through, and leaves it when they stop.
  Over any Redis that keeps the contract of expiry: a controller has written the entry of an agent
  with success, and then time passes and heartbeats refresh it, some of which may fail. If the entry
  was never left unwritten for the full 45 seconds, then every lookup that succeeds finds the
  controller's address; if nothing refreshes it from then on, every lookup that succeeds after
  another 45 seconds finds nothing. In particular, with a heartbeat every 15 seconds the entry
  survives any number of them as long as no two in a row fail.
\<close>

theorem mapping_lease:
  assumes "timed_redis R kv elapse ttl" "rSet R (mappingKey agentID) addr mappingTTL r0 = (Inr u, r)"
  shows "((\<forall>x\<in>set (lease_age R elapse addr agentID evs r 0). x < mappingTTL) \<longrightarrow>
      (\<forall>found r'. locate (Some R) agentID (lease_run R elapse addr agentID evs r) = (Inr found, r') \<longrightarrow> found = addr) \<and>
      (\<forall>d found r'. mappingTTL \<le> d \<longrightarrow>
         locate (Some R) agentID (elapse d (lease_run R elapse addr agentID evs r)) = (Inr found, r') \<longrightarrow> found = [])) \<and>
    (steady (beats R elapse addr agentID n r) \<longrightarrow>
      (\<forall>found r'. locate (Some R) agentID (lease_run R elapse addr agentID (heartbeats n) r) = (Inr found, r') \<longrightarrow> found = addr))"
proof -
  note written = timed_redis.written_leased [OF assms]
  note kept = timed_redis.lease_kept [OF assms(1) written]
  have "\<forall>x\<in>set (lease_age R elapse addr agentID (heartbeats n) r 0). x < mappingTTL"
    if "steady (beats R elapse addr agentID n r)"
  proof -
    have "steady ((0 = (0::nat)) # beats R elapse addr agentID n r)"
      using that by (cases "beats R elapse addr agentID n r") simp_all
    then show ?thesis using steady_ages [of 0 R elapse addr agentID n r] heartbeats_kept by fastforce
  qed
  then show ?thesis
    using timed_redis.leased_locate [OF assms(1) kept] timed_redis.lease_expires [OF assms(1) kept] by blast
qed

text \<open>Three heartbeats of which the second fails; the lookup finds the holder.\<close>

theorem mapping_lease_witness:
  "let r = \<lparr>tr_base = \<lparr>mini_store = [(mappingKey ''a'', ''p'')], failures = [False, True, False]\<rparr>,
            tr_ttl = [mappingKey ''a'' \<mapsto> mappingTTL]\<rparr>
   in steady (beats timedRedisClient timed_elapse ''p'' ''a'' 3 r) \<and>
      fst (locate (Some timedRedisClient) ''a'' (lease_run timedRedisClient timed_elapse ''p'' ''a'' (heartbeats 3) r)) = Inr ''p''"
proof -
  define r where "r = \<lparr>tr_base = \<lparr>mini_store = [(mappingKey ''a'', ''p'')], failures = [False, True, False]\<rparr>,
            tr_ttl = [mappingKey ''a'' \<mapsto> mappingTTL]\<rparr>"
  have w: "rSet timedRedisClient (mappingKey ''a'') ''p'' mappingTTL
      \<lparr>tr_base = \<lparr>mini_store = [], failures = [False, False, True, False]\<rparr>, tr_ttl = Map.empty\<rparr> = (Inr (), r)"
    by (simp add: r_def timedRedisClient_def miniRedisClient_def mini_step_def)
  have s: "steady (beats timedRedisClient timed_elapse ''p'' ''a'' 3 r)"
    by (simp add: numeral_3_eq_3 r_def timedRedisClient_def miniRedisClient_def mini_step_def
        refresh_def writeMapping_def timed_elapse_def)
  have "\<exists>found r'. locate (Some timedRedisClient) ''a''
      (lease_run timedRedisClient timed_elapse ''p'' ''a'' (heartbeats 3) r) = (Inr found, r')"
    by (simp add: heartbeats_def numeral_3_eq_3 r_def timedRedisClient_def miniRedisClient_def mini_step_def
        refresh_def writeMapping_def timed_elapse_def locate_def heartbeatInterval_def mappingTTL_def)
  with mapping_lease [OF timedR.timed_redis_axioms w, of "[]" 3] s show ?thesis
    unfolding r_def [symmetric] Let_def by fastforce
qed

end
