(* ===== verification/GoPath.thy ===== *)
theory GoPath
  imports Prelude
begin

text \<open>
  \<^verbatim>\<open>path/filepath\<close> on Unix, as its documentation defines it: \<^verbatim>\<open>Clean\<close> works on the elements of a path,
  dropping empty ones and \<^verbatim>\<open>.\<close>, and letting \<^verbatim>\<open>..\<close> take away the element before it (or nothing at
  the root). \<^verbatim>\<open>ToSlash\<close> and \<^verbatim>\<open>FromSlash\<close> are the identity there.
\<close>

section \<open>Definitions\<close>

abbreviation slash :: char where
  "slash \<equiv> CHR ''/''"

definition cleanStep :: "bool \<Rightarrow> string list \<Rightarrow> string \<Rightarrow> string list" where
  "cleanStep rooted out elem =
     (if elem = [] \<or> elem = ''.'' then out
      else if elem = ''..'' then
        (if out \<noteq> [] \<and> last out \<noteq> ''..'' then butlast out else if rooted then out else out @ [''..''])
      else out @ [elem])"

fun joinSlash :: "string list \<Rightarrow> string" where
  "joinSlash [] = []"
| "joinSlash [x] = x"
| "joinSlash (x # y # ys) = x @ slash # joinSlash (y # ys)"

definition isRooted :: "string \<Rightarrow> bool" where
  "isRooted path \<longleftrightarrow> path \<noteq> [] \<and> hd path = slash"

definition cleanElems :: "string \<Rightarrow> string list" where
  "cleanElems path = foldl (cleanStep (isRooted path)) [] (splitOn slash path)"

definition Clean :: "string \<Rightarrow> string" where
  "Clean path =
     (if isRooted path then slash # joinSlash (cleanElems path)
      else if cleanElems path = [] then ''.'' else joinSlash (cleanElems path))"

definition Join :: "string list \<Rightarrow> string" where
  "Join elems = (let es = dropWhile (\<lambda>e. e = []) elems in if es = [] then [] else Clean (joinSlash es))"

text \<open>\<^verbatim>\<open>Dir\<close>: all but what follows the last separator, cleaned.\<close>

definition Dir :: "string \<Rightarrow> string" where
  "Dir path = Clean (rev (dropWhile (\<lambda>c. c \<noteq> slash) (rev path)))"

section \<open>Rooted paths\<close>

text \<open>A plain element names something in its directory.\<close>

definition plainElem :: "string \<Rightarrow> bool" where
  "plainElem e \<longleftrightarrow> e \<noteq> [] \<and> e \<noteq> ''.'' \<and> e \<noteq> ''..'' \<and> slash \<notin> set e"

definition absPath :: "string list \<Rightarrow> string" where
  "absPath es = slash # joinSlash es"

lemma foldl_cleanStep_plain:
  "list_all plainElem out \<Longrightarrow> \<forall>e \<in> set es. slash \<notin> set e \<Longrightarrow> list_all plainElem (foldl (cleanStep True) out es)"
proof (induction es arbitrary: out)
  case (Cons e es)
  have "list_all plainElem (cleanStep True out e)"
    using Cons.prems by (auto simp: cleanStep_def plainElem_def list_all_iff dest: in_set_butlastD)
  with Cons show ?case by simp
qed simp

lemma cleanElems_plain: "isRooted path \<Longrightarrow> list_all plainElem (cleanElems path)"
  unfolding cleanElems_def using foldl_cleanStep_plain [of "[]" "splitOn slash path"] splitOn_parts by auto

lemma cleanStep_plain: "plainElem e \<Longrightarrow> cleanStep r out e = out @ [e]"
  by (auto simp: cleanStep_def plainElem_def)

lemma foldl_cleanStep_append: "list_all plainElem es \<Longrightarrow> foldl (cleanStep r) out es = out @ es"
  by (induction es arbitrary: out) (auto simp: cleanStep_plain)

lemma splitOn_joinSlash:
  "es \<noteq> [] \<Longrightarrow> \<forall>e \<in> set es. slash \<notin> set e \<Longrightarrow> splitOn slash (joinSlash es) = es"
  by (induction es rule: joinSlash.induct) (auto simp: splitOn_no_sep splitOn_append)

lemma splitOn_absPath:
  assumes "list_all plainElem es"
  shows "splitOn slash (absPath es) = (if es = [] then [[], []] else [] # es)"
  using assms splitOn_joinSlash [of es] by (auto simp: absPath_def list_all_iff plainElem_def)

lemma isRooted_absPath [simp]: "isRooted (absPath es)"
  by (simp add: absPath_def isRooted_def)

lemma cleanStep_empty [simp]: "cleanStep r out [] = out"
  by (simp add: cleanStep_def)

lemma foldl_absPath:
  assumes "list_all plainElem es"
  shows "foldl (cleanStep r) out (splitOn slash (absPath es)) = out @ es"
  unfolding splitOn_absPath [OF assms] using foldl_cleanStep_append [OF assms] by simp

lemma cleanElems_absPath: "list_all plainElem es \<Longrightarrow> cleanElems (absPath es) = es"
  unfolding cleanElems_def using foldl_absPath [of es True "[]"] by simp

lemma Clean_rooted: "isRooted path \<Longrightarrow> Clean path = absPath (cleanElems path)"
  by (simp add: Clean_def absPath_def)

lemma Clean_absPath: "list_all plainElem es \<Longrightarrow> Clean (absPath es) = absPath es"
  by (simp add: Clean_rooted cleanElems_absPath)

lemma absPath_inject:
  assumes "list_all plainElem es" "list_all plainElem fs" "absPath es = absPath fs"
  shows "es = fs"
  using assms cleanElems_absPath by metis

lemma joinSlash_append:
  "es \<noteq> [] \<Longrightarrow> fs \<noteq> [] \<Longrightarrow> joinSlash (es @ fs) = joinSlash es @ slash # joinSlash fs"
proof (induction es rule: joinSlash.induct)
  case (2 x)
  then show ?case by (cases fs) auto
qed auto

text \<open>Joining two absolute paths appends their elements.\<close>

lemma splitOn_append_sep: "splitOn c (xs @ c # ys) = splitOn c xs @ splitOn c ys"
proof (induction xs)
  case (Cons x xs)
  then show ?case by (cases "splitOn c xs") auto
qed simp

lemma Join_absPath:
  assumes "list_all plainElem es" "list_all plainElem fs"
  shows "Join [absPath es, absPath fs] = absPath (es @ fs)"
proof -
  have j: "Join [absPath es, absPath fs] = Clean (absPath es @ slash # absPath fs)"
    by (simp add: Join_def absPath_def)
  have root: "isRooted (absPath es @ slash # absPath fs)" by (simp add: absPath_def isRooted_def)
  have split: "splitOn slash (absPath es @ slash # absPath fs) = splitOn slash (absPath es) @ splitOn slash (absPath fs)"
    by (rule splitOn_append_sep)
  have "cleanElems (absPath es @ slash # absPath fs) = es @ fs"
    unfolding cleanElems_def split using root assms by (simp add: foldl_absPath)
  with j root show ?thesis by (simp add: Clean_rooted)
qed

text \<open>The parent directory drops the last element.\<close>

lemma dropWhile_rev_last:
  "slash \<notin> set e \<Longrightarrow> rev (dropWhile (\<lambda>c. c \<noteq> slash) (rev (p @ slash # e))) = p @ [slash]"
proof -
  assume "slash \<notin> set e"
  then have "dropWhile (\<lambda>c. c \<noteq> slash) (rev e @ slash # rev p) = slash # rev p"
    by (subst dropWhile_append2) auto
  then show ?thesis by simp
qed

lemma Dir_absPath:
  assumes "list_all plainElem es" "plainElem e"
  shows "Dir (absPath (es @ [e])) = absPath es"
proof (cases "es = []")
  case True
  then have "rev (dropWhile (\<lambda>c. c \<noteq> slash) (rev (absPath (es @ [e])))) = [slash]"
    using dropWhile_rev_last [of e "[]"] assms(2) by (simp add: absPath_def plainElem_def)
  then show ?thesis using True by (simp add: Dir_def) code_simp
next
  case False
  have "absPath (es @ [e]) = absPath es @ slash # e"
    using False by (simp add: absPath_def joinSlash_append)
  then have d: "Dir (absPath (es @ [e])) = Clean (absPath es @ [slash])"
    using dropWhile_rev_last [of e "absPath es"] assms(2) by (simp add: Dir_def plainElem_def)
  have root: "isRooted (absPath es @ [slash])" by (simp add: absPath_def isRooted_def)
  have "cleanElems (absPath es @ [slash]) = es"
    unfolding cleanElems_def using splitOn_append_sep [of slash "absPath es" "[]"] root assms(1)
    by (simp add: foldl_absPath)
  with d root show ?thesis by (simp add: Clean_rooted)
qed

end
