(* ===== verification/AgentFs.thy ===== *)
theory AgentFs
  imports GoPath Messages
begin

text \<open>
  The agent's file API, \<^verbatim>\<open>pkg/agent/fs.go\<close>. The operating system is outside: what its calls return are
  inputs of a handler, and the calls a handler makes, with their paths, are part of its output. JSON
  decoders and encoders are parameters; \<open>Inl\<close> is the text of their error.
\<close>

section \<open>Errors and data\<close>

datatype fsErr = ErrFsNotConfigured | ErrPathEscapes | ErrNotExist string | ErrExist string | ErrOs string

fun fsErrText :: "fsErr \<Rightarrow> string" where
  "fsErrText ErrFsNotConfigured = ''agent working directory is not configured''"
| "fsErrText ErrPathEscapes = ''path escapes the working directory''"
| "fsErrText (ErrNotExist msg) = msg"
| "fsErrText (ErrExist msg) = msg"
| "fsErrText (ErrOs msg) = msg"

definition fsErrorCode :: "fsErr \<Rightarrow> uint32 \<times> string" where
  "fsErrorCode err =
     ((case err of
         ErrFsNotConfigured \<Rightarrow> 501
       | ErrPathEscapes \<Rightarrow> 400
       | ErrNotExist _ \<Rightarrow> 404
       | ErrExist _ \<Rightarrow> 409
       | ErrOs _ \<Rightarrow> 500), fsErrText err)"

record fileInfo =
  fi_name :: string
  fi_dir :: bool
  fi_size :: int
  fi_modTime :: int

record fsEntry =
  fe_name :: string
  fe_dir :: bool
  fe_size :: int
  fe_modTime :: int

definition fsEntryOf :: "fileInfo \<Rightarrow> fsEntry" where
  "fsEntryOf info = \<lparr>fe_name = fi_name info, fe_dir = fi_dir info, fe_size = fi_size info, fe_modTime = fi_modTime info\<rparr>"

record fsWriteRequest =
  fw_path :: string
  fw_exclusive :: bool

datatype osCall =
    CStat string
  | CReadDir string
  | CMkdirAll string
  | CRemoveAll string
  | COpen string
  | COpenFile string bool
  | CWrite bytes
  | CSync
  | CClose
  | CRemove string

type_synonym reply = "bytes \<times> uint32 \<times> string"

section \<open>The working directory\<close>

text \<open>\<^verbatim>\<open>filepath.Abs\<close> with the process's working directory, absent when it cannot be read.\<close>

definition Abs :: "string option \<Rightarrow> string \<Rightarrow> fsErr + string" where
  "Abs cwd path =
     (if isRooted path then Inr (Clean path)
      else (case cwd of None \<Rightarrow> Inl (ErrOs ''getwd'') | Some wd \<Rightarrow> Inr (Join [wd, path])))"

definition resolveDataDir :: "string option \<Rightarrow> (string \<Rightarrow> fsErr + fileInfo) \<Rightarrow> string \<Rightarrow> fsErr + string" where
  "resolveDataDir cwd stat configured =
     (if configured = [] then Inr []
      else (case Abs cwd configured of
        Inl err \<Rightarrow> Inl err
      | Inr dir \<Rightarrow>
          (case stat dir of
             Inl err \<Rightarrow> Inl err
           | Inr info \<Rightarrow> if \<not> fi_dir info then Inl (ErrOs ''is not a directory'') else Inr dir)))"

definition resolve :: "string \<Rightarrow> string \<Rightarrow> fsErr + string" where
  "resolve dataDir rel =
     (if dataDir = [] then Inl ErrFsNotConfigured
      else (let clean = Clean (slash # rel); full = Join [dataDir, clean] in
            if full \<noteq> dataDir \<and> \<not> hasPrefix full (dataDir @ [slash]) then Inl ErrPathEscapes else Inr full))"

section \<open>Single-shot requests\<close>

definition statPath :: "string \<Rightarrow> (bytes \<Rightarrow> string + string) \<Rightarrow> (fsEntry \<Rightarrow> string + bytes) \<Rightarrow>
    (string \<Rightarrow> fsErr + fileInfo) \<Rightarrow> bytes \<Rightarrow> osCall list \<times> reply" where
  "statPath dataDir decode encode stat payload =
     (case decode payload of
        Inl msg \<Rightarrow> ([], [], 400, ''invalid fs.stat payload: '' @ msg)
      | Inr path \<Rightarrow>
          (case resolve dataDir path of
             Inl err \<Rightarrow> ([], [], fsErrorCode err)
           | Inr full \<Rightarrow>
               (case stat full of
                  Inl err \<Rightarrow> ([CStat full], [], fsErrorCode err)
                | Inr info \<Rightarrow>
                    (case encode (fsEntryOf info) of
                       Inl msg \<Rightarrow> ([CStat full], [], 500, msg)
                     | Inr bs \<Rightarrow> ([CStat full], bs, 200, [])))))"

text \<open>The entries of a directory, each with what its \<^verbatim>\<open>Info\<close> returns.\<close>

definition listDir :: "string \<Rightarrow> (bytes \<Rightarrow> string + string) \<Rightarrow> (fsEntry list \<Rightarrow> string + bytes) \<Rightarrow>
    (string \<Rightarrow> fsErr + (fsErr + fileInfo) list) \<Rightarrow> bytes \<Rightarrow> osCall list \<times> reply" where
  "listDir dataDir decode encode readDir payload =
     (case decode payload of
        Inl msg \<Rightarrow> ([], [], 400, ''invalid fs.list payload: '' @ msg)
      | Inr path \<Rightarrow>
          (case resolve dataDir path of
             Inl err \<Rightarrow> ([], [], fsErrorCode err)
           | Inr full \<Rightarrow>
               (case readDir full of
                  Inl err \<Rightarrow> ([CReadDir full], [], fsErrorCode err)
                | Inr dirEntries \<Rightarrow>
                    (case encode [fsEntryOf info. Inr info \<leftarrow> dirEntries] of
                       Inl msg \<Rightarrow> ([CReadDir full], [], 500, msg)
                     | Inr bs \<Rightarrow> ([CReadDir full], bs, 200, [])))))"

definition mkdir :: "string \<Rightarrow> (bytes \<Rightarrow> string + string) \<Rightarrow> (string \<Rightarrow> fsErr + fileInfo) \<Rightarrow>
    (string \<Rightarrow> fsErr option) \<Rightarrow> bytes \<Rightarrow> osCall list \<times> uint32 \<times> string" where
  "mkdir dataDir decode stat mkdirAll payload =
     (case decode payload of
        Inl msg \<Rightarrow> ([], 400, ''invalid fs.mkdir payload: '' @ msg)
      | Inr path \<Rightarrow>
          (case resolve dataDir path of
             Inl err \<Rightarrow> ([], fsErrorCode err)
           | Inr full \<Rightarrow>
               (case stat full of
                  Inr _ \<Rightarrow> ([CStat full], 409, ''path already exists'')
                | Inl (ErrNotExist _) \<Rightarrow>
                    (case mkdirAll full of
                       Some err \<Rightarrow> ([CStat full, CMkdirAll full], fsErrorCode err)
                     | None \<Rightarrow> ([CStat full, CMkdirAll full], 201, []))
                | Inl err \<Rightarrow> ([CStat full], fsErrorCode err))))"

definition fs_remove :: "string \<Rightarrow> (bytes \<Rightarrow> string + string) \<Rightarrow> (string \<Rightarrow> fsErr + fileInfo) \<Rightarrow>
    (string \<Rightarrow> fsErr option) \<Rightarrow> bytes \<Rightarrow> osCall list \<times> uint32 \<times> string" where
  "fs_remove dataDir decode stat rmAll payload =
     (case decode payload of
        Inl msg \<Rightarrow> ([], 400, ''invalid fs.remove payload: '' @ msg)
      | Inr path \<Rightarrow>
          (case resolve dataDir path of
             Inl err \<Rightarrow> ([], fsErrorCode err)
           | Inr full \<Rightarrow>
               if full = dataDir then ([], 400, ''cannot remove the working directory root'')
               else (case stat full of
                  Inl err \<Rightarrow> ([CStat full], fsErrorCode err)
                | Inr _ \<Rightarrow>
                    (case rmAll full of
                       Some err \<Rightarrow> ([CStat full, CRemoveAll full], fsErrorCode err)
                     | None \<Rightarrow> ([CStat full, CRemoveAll full], 204, [])))))"

section \<open>Reading\<close>

definition fsChunkSize :: nat where
  "fsChunkSize = 64 * 1024"

text \<open>
  A turn of the read loop: the context's error, what \<^verbatim>\<open>Read\<close> returned (the bytes, and no error, the
  end of file or another error) and the result of sending them. \<open>None\<close> when the script ends
  before the loop does.
\<close>

datatype readEnd = ReadMore | ReadEOF | ReadErr string

record readStep =
  rd_ctxErr :: "string option"
  rd_data :: bytes
  rd_end :: readEnd
  rd_emitErr :: "string option"

fun readLoop :: "readStep list \<Rightarrow> bytes list \<Rightarrow> (bytes list \<times> uint32 \<times> string) option" where
  "readLoop [] emitted = None"
| "readLoop (st # sts) emitted =
     (case rd_ctxErr st of
        Some msg \<Rightarrow> Some (emitted, 500, msg)
      | None \<Rightarrow>
          (let emitted' = (if rd_data st = [] then emitted else emitted @ [rd_data st]) in
           if rd_data st \<noteq> [] \<and> rd_emitErr st \<noteq> None then Some (emitted', 500, the (rd_emitErr st))
           else (case rd_end st of
             ReadEOF \<Rightarrow> Some (emitted', 200, [])
           | ReadErr msg \<Rightarrow> Some (emitted', 500, msg)
           | ReadMore \<Rightarrow> readLoop sts emitted')))"

definition readFile :: "string \<Rightarrow> (bytes \<Rightarrow> string + string) \<Rightarrow> (string \<Rightarrow> fsErr + (fsErr + fileInfo)) \<Rightarrow>
    readStep list \<Rightarrow> bytes \<Rightarrow> (osCall list \<times> bytes list \<times> uint32 \<times> string) option" where
  "readFile dataDir decode openPath steps payload =
     (case decode payload of
        Inl msg \<Rightarrow> Some ([], [], 400, ''invalid fs.read payload: '' @ msg)
      | Inr path \<Rightarrow>
          (case resolve dataDir path of
             Inl err \<Rightarrow> Some ([], [], fsErrorCode err)
           | Inr full \<Rightarrow>
               (case openPath full of
                  Inl err \<Rightarrow> Some ([COpen full], [], fsErrorCode err)
                | Inr (Inl err) \<Rightarrow> Some ([COpen full, CClose], [], fsErrorCode err)
                | Inr (Inr info) \<Rightarrow>
                    if fi_dir info then Some ([COpen full, CClose], [], 400, ''path is a directory'')
                    else map_option (\<lambda>r. ([COpen full, CClose], r)) (readLoop steps []))))"

definition resultEvent :: "string \<Rightarrow> string \<Rightarrow> uint32 \<Rightarrow> string \<Rightarrow> agentEvent" where
  "resultEvent nodeName requestID code errMsg =
     \<lparr>ev_agent_id = nodeName, ev_kind = EvResult \<lparr>rs_request_id = requestID, rs_code = code, rs_payload = [],
        rs_error = errMsg, rs_final = True\<rparr>\<rparr>"

definition progressEvent :: "string \<Rightarrow> string \<Rightarrow> bytes \<Rightarrow> agentEvent" where
  "progressEvent nodeName requestID data =
     \<lparr>ev_agent_id = nodeName, ev_kind = EvProgress \<lparr>pg_request_id = requestID, pg_payload = data\<rparr>\<rparr>"

text \<open>The events that \<^verbatim>\<open>handleRead\<close> sends, in order.\<close>

definition handleRead :: "string \<Rightarrow> string \<Rightarrow> (bytes \<Rightarrow> string + string) \<Rightarrow> (string \<Rightarrow> fsErr + (fsErr + fileInfo)) \<Rightarrow>
    readStep list \<Rightarrow> agentRequest \<Rightarrow> agentEvent list option" where
  "handleRead nodeName dataDir decode openPath steps req =
     (case readFile dataDir decode openPath steps (rq_payload req) of
        None \<Rightarrow> None
      | Some (calls, emitted, code, errMsg) \<Rightarrow>
          Some (map (progressEvent nodeName (rq_request_id req)) emitted @
                [resultEvent nodeName (rq_request_id req) code errMsg]))"

section \<open>Writing\<close>

text \<open>
  What the \<^verbatim>\<open>select\<close> of \<^verbatim>\<open>consumeUpload\<close> takes next: the end of the context, the idle timer, or a chunk,
  with the results of writing and of syncing.
\<close>

datatype uploadEvent =
    UpCtxDone string
  | UpIdle
  | UpChunk bytes bool "fsErr option" "fsErr option"

fun consumeUpload :: "uploadEvent list \<Rightarrow> (osCall list \<times> bool \<times> uint32 \<times> string) option" where
  "consumeUpload [] = None"
| "consumeUpload (UpCtxDone msg # evs) = Some ([], False, 500, msg)"
| "consumeUpload (UpIdle # evs) = Some ([], False, 408, ''upload stalled: no data within idle timeout'')"
| "consumeUpload (UpChunk data isLast writeErr syncErr # evs) =
     (let calls = (if data = [] then [] else [CWrite data]) in
      if data \<noteq> [] \<and> writeErr \<noteq> None then Some (calls, False, fsErrorCode (the writeErr))
      else if isLast then
        (case syncErr of
           Some err \<Rightarrow> Some (calls @ [CSync], False, fsErrorCode err)
         | None \<Rightarrow> Some (calls @ [CSync], True, 201, []))
      else map_option (\<lambda>(calls', r). (calls @ calls', r)) (consumeUpload evs))"

definition writeFile :: "string \<Rightarrow> (bytes \<Rightarrow> string + fsWriteRequest) \<Rightarrow> (string \<Rightarrow> fsErr option) \<Rightarrow>
    (string \<Rightarrow> bool \<Rightarrow> fsErr option) \<Rightarrow> uploadEvent list \<Rightarrow> bytes \<Rightarrow> (osCall list \<times> uint32 \<times> string) option" where
  "writeFile dataDir decode mkdirAll openFile evs payload =
     (case decode payload of
        Inl msg \<Rightarrow> Some ([], 400, ''invalid fs.write payload: '' @ msg)
      | Inr fwr \<Rightarrow>
          (case resolve dataDir (fw_path fwr) of
             Inl err \<Rightarrow> Some ([], fsErrorCode err)
           | Inr full \<Rightarrow>
               (case mkdirAll (Dir full) of
                  Some err \<Rightarrow> Some ([CMkdirAll (Dir full)], fsErrorCode err)
                | None \<Rightarrow>
                    (case openFile full (fw_exclusive fwr) of
                       Some err \<Rightarrow> Some ([CMkdirAll (Dir full), COpenFile full (fw_exclusive fwr)], fsErrorCode err)
                     | None \<Rightarrow>
                         map_option (\<lambda>(calls, committed, code, errMsg).
                           ([CMkdirAll (Dir full), COpenFile full (fw_exclusive fwr)] @ calls @ [CClose] @
                            (if committed then [] else [CRemove full]), code, errMsg)) (consumeUpload evs)))))"

definition handleWrite :: "string \<Rightarrow> string \<Rightarrow> (bytes \<Rightarrow> string + fsWriteRequest) \<Rightarrow> (string \<Rightarrow> fsErr option) \<Rightarrow>
    (string \<Rightarrow> bool \<Rightarrow> fsErr option) \<Rightarrow> uploadEvent list \<Rightarrow> agentRequest \<Rightarrow> agentEvent list option" where
  "handleWrite nodeName dataDir decode mkdirAll openFile evs req =
     map_option (\<lambda>(calls, code, errMsg). [resultEvent nodeName (rq_request_id req) code errMsg])
       (writeFile dataDir decode mkdirAll openFile evs (rq_payload req))"


section \<open>Confinement\<close>

definition inside :: "string list \<Rightarrow> string \<Rightarrow> bool" where
  "inside es p \<longleftrightarrow> (\<exists>fs. list_all plainElem fs \<and> p = absPath (es @ fs))"

fun call_path :: "osCall \<Rightarrow> string option" where
  "call_path (CStat p) = Some p"
| "call_path (CReadDir p) = Some p"
| "call_path (CMkdirAll p) = Some p"
| "call_path (CRemoveAll p) = Some p"
| "call_path (COpen p) = Some p"
| "call_path (COpenFile p excl) = Some p"
| "call_path (CRemove p) = Some p"
| "call_path _ = None"

lemma rel_plain: "list_all plainElem (cleanElems (slash # rel))"
  by (rule cleanElems_plain) (simp add: isRooted_def)

lemma absPath_append: "es \<noteq> [] \<Longrightarrow> fs \<noteq> [] \<Longrightarrow> absPath (es @ fs) = absPath es @ slash # joinSlash fs"
  by (simp add: absPath_def joinSlash_append)

lemma resolve_inside:
  assumes "list_all plainElem es" "es \<noteq> []"
  shows "resolve (absPath es) rel = Inr (absPath (es @ cleanElems (slash # rel)))"
proof -
  have c: "Clean (slash # rel) = absPath (cleanElems (slash # rel))"
    by (rule Clean_rooted) (simp add: isRooted_def)
  have j: "Join [absPath es, Clean (slash # rel)] = absPath (es @ cleanElems (slash # rel))"
    unfolding c using Join_absPath [OF assms(1) rel_plain] .
  have "hasPrefix (absPath (es @ cleanElems (slash # rel))) (absPath es @ [slash])"
    if "cleanElems (slash # rel) \<noteq> []"
    using absPath_append [OF assms(2) that] by (auto simp: hasPrefix_iff)
  moreover have "absPath es \<noteq> []" by (simp add: absPath_def)
  ultimately show ?thesis
    unfolding resolve_def Let_def j by (cases "cleanElems (slash # rel) = []") auto
qed

lemma resolve_at_root:
  "resolve ''/'' rel = (if cleanElems (slash # rel) = [] then Inr ''/'' else Inl ErrPathEscapes)"
proof -
  let ?fs = "cleanElems (slash # rel)"
  have c: "Clean (slash # rel) = absPath ?fs"
    by (rule Clean_rooted) (simp add: isRooted_def)
  have root: "absPath [] = ''/''" by (simp add: absPath_def)
  have j: "Join [''/'', Clean (slash # rel)] = absPath ?fs"
    unfolding c using Join_absPath [of "[]", OF _ rel_plain] root by simp
  have "\<not> hasPrefix (absPath ?fs) (''/'' @ [slash])" if ne: "?fs \<noteq> []"
  proof -
    obtain f gs where f: "?fs = f # gs" using ne by (cases ?fs) auto
    then have pf: "plainElem f" using rel_plain [of rel] by simp
    then have "hd (joinSlash ?fs) = hd f" "f \<noteq> []" unfolding f by (cases gs; auto simp: plainElem_def)+
    with pf have "hd (joinSlash ?fs) \<noteq> slash" by (metis hd_in_set plainElem_def)
    then show ?thesis by (cases "joinSlash ?fs") (auto simp: hasPrefix_def absPath_def)
  qed
  moreover have "absPath ?fs \<noteq> ''/''" if "?fs \<noteq> []"
  proof
    assume "absPath ?fs = ''/''"
    with root have "absPath ?fs = absPath []" by simp
    with absPath_inject [OF rel_plain, of "[]"] that show False by simp
  qed
  ultimately show ?thesis unfolding resolve_def Let_def j by (auto simp: root)
qed

lemma resolved_inside:
  assumes "list_all plainElem es" "es \<noteq> []" "resolve (absPath es) rel = Inr full"
  shows "inside es full"
  using resolve_inside [OF assms(1,2), of rel] assms(3) rel_plain by (auto simp: inside_def)

lemma Dir_inside:
  assumes "list_all plainElem es" "es \<noteq> []" "resolve (absPath es) rel = Inr full"
  shows "inside es (Dir full) \<or> Dir full = absPath (butlast es)"
proof (cases "cleanElems (slash # rel)" rule: rev_cases)
  case Nil
  then have "full = absPath (butlast es @ [last es])"
    using resolve_inside [OF assms(1,2), of rel] assms(2,3) by simp
  moreover have "list_all plainElem (butlast es)" "plainElem (last es)"
    using assms(1,2) by (auto simp: list_all_iff dest: in_set_butlastD)
  ultimately show ?thesis using Dir_absPath by simp
next
  case (snoc fs e)
  have pl: "list_all plainElem fs" "plainElem e" using rel_plain [of rel] snoc by auto
  have "full = absPath ((es @ fs) @ [e])" using resolve_inside [OF assms(1,2), of rel] assms(3) snoc by simp
  then have "Dir full = absPath (es @ fs)" using Dir_absPath [of "es @ fs" e] assms(1) pl by simp
  with pl show ?thesis by (auto simp: inside_def)
qed

definition confined :: "string list \<Rightarrow> osCall list \<Rightarrow> bool" where
  "confined es calls \<longleftrightarrow> (\<forall>c \<in> set calls. \<forall>p. call_path c = Some p \<longrightarrow> inside es p)"

lemma confined_append [simp]: "confined es (xs @ ys) \<longleftrightarrow> confined es xs \<and> confined es ys"
  by (auto simp: confined_def)

lemma confined_single:
  assumes "list_all plainElem es" "es \<noteq> []"
  shows "confined es (fst (statPath (absPath es) decode encode stat payload))"
    "confined es (fst (listDir (absPath es) decode encode' readDir payload))"
    "confined es (fst (mkdir (absPath es) decode stat mkdirAll payload))"
    "confined es (fst (fs_remove (absPath es) decode stat rmAll payload))"
  using resolved_inside [OF assms]
  by (auto simp: confined_def statPath_def listDir_def mkdir_def fs_remove_def
      split: sum.splits option.splits fsErr.splits)

lemma confined_read:
  assumes "list_all plainElem es" "es \<noteq> []" "readFile (absPath es) decode openPath steps payload = Some (calls, r)"
  shows "confined es calls"
  using resolved_inside [OF assms(1,2)] assms(3)
  by (auto simp: confined_def readFile_def split: sum.splits if_splits)

lemma consumeUpload_no_path: "consumeUpload evs = Some (calls, r) \<Longrightarrow> c \<in> set calls \<Longrightarrow> call_path c = None"
proof (induction evs arbitrary: calls rule: consumeUpload.induct)
  case (4 data isLast writeErr syncErr evs)
  then show ?case by (auto simp: Let_def split: if_splits option.splits)
qed auto

lemma confined_write:
  assumes "list_all plainElem es" "es \<noteq> []" "writeFile (absPath es) decode mkdirAll openFile evs payload = Some (calls, r)"
  shows "\<forall>c \<in> set calls. \<forall>p. call_path c = Some p \<longrightarrow> inside es p \<or> c = CMkdirAll (absPath (butlast es))"
proof (cases "\<exists>fwr full. decode payload = Inr fwr \<and> resolve (absPath es) (fw_path fwr) = Inr full")
  case False
  with assms(3) show ?thesis by (auto simp: writeFile_def split: sum.splits)
next
  case True
  then obtain fwr full where f: "decode payload = Inr fwr" "resolve (absPath es) (fw_path fwr) = Inr full" by blast
  note i = resolved_inside [OF assms(1,2) f(2)] Dir_inside [OF assms(1,2) f(2)]
  have "call_path c = None" if "consumeUpload evs = Some (cs, x)" "c \<in> set cs" for cs x c
    using consumeUpload_no_path that by blast
  with assms(3) f i show ?thesis
    by (auto simp: writeFile_def split: option.splits if_splits)
qed

section \<open>Reading and writing\<close>

definition read_data :: "readStep list \<Rightarrow> bytes" where
  "read_data steps = concat (map rd_data (takeWhile (\<lambda>st. rd_end st = ReadMore) steps @
     take 1 (dropWhile (\<lambda>st. rd_end st = ReadMore) steps)))"

lemma read_data_Cons: "read_data (st # sts) = rd_data st @ (if rd_end st = ReadMore then read_data sts else [])"
  by (simp add: read_data_def)

lemma readLoop_result:
  assumes "readLoop steps emitted = Some (out, code, msg)"
  shows "\<exists>ps. out = emitted @ ps \<and> [] \<notin> set ps \<and> (\<exists>tail. read_data steps = concat ps @ tail) \<and>
    (code = 200 \<longrightarrow> concat ps = read_data steps \<and> (\<exists>st \<in> set steps. rd_end st = ReadEOF)) \<and>
    set ps \<subseteq> rd_data ` set steps"
  using assms
proof (induction steps arbitrary: emitted)
  case (Cons st sts)
  let ?new = "if rd_data st = [] then [] else [rd_data st]"
  have new: "concat ?new = rd_data st" "[] \<notin> set ?new" by auto
  show ?case
  proof (cases "rd_ctxErr st = None \<and> \<not> (rd_data st \<noteq> [] \<and> rd_emitErr st \<noteq> None) \<and> rd_end st = ReadMore")
    case True
    then have "readLoop sts (emitted @ ?new) = Some (out, code, msg)"
      using Cons.prems by (auto split: if_splits)
    from Cons.IH [OF this] obtain ps tl where ps: "out = (emitted @ ?new) @ ps" "[] \<notin> set ps"
      "read_data sts = concat ps @ tl"
      "code = 200 \<longrightarrow> concat ps = read_data sts \<and> (\<exists>st \<in> set sts. rd_end st = ReadEOF)" "set ps \<subseteq> rd_data ` set sts" by blast
    with new True show ?thesis
      by (intro exI [of _ "?new @ ps"]) (auto simp: read_data_Cons split: if_splits)
  next
    case False
    with Cons.prems new show ?thesis
      by (intro exI [of _ "if rd_ctxErr st \<noteq> None then [] else ?new"])
        (auto simp: read_data_Cons Let_def split: option.splits if_splits readEnd.splits)
  qed
qed simp

lemma fsErrorCode_not_ok: "fst (fsErrorCode e) \<noteq> 200 \<and> fst (fsErrorCode e) \<noteq> 201"
  by (cases e) (simp_all add: fsErrorCode_def)

lemma fsErrorCode_ne: "(200, x) \<noteq> fsErrorCode e" "(201, x) \<noteq> fsErrorCode e" "fsErrorCode e \<noteq> (200, x)" "fsErrorCode e \<noteq> (201, x)"
  using fsErrorCode_not_ok [of e] by (metis fst_conv)+

text \<open>The chunks of an upload up to the one marked last.\<close>

fun upload_body :: "uploadEvent list \<Rightarrow> bytes option" where
  "upload_body (UpChunk data isLast w s # evs) =
     (if isLast then Some data else map_option (\<lambda>rest. data @ rest) (upload_body evs))"
| "upload_body _ = None"

definition written :: "osCall list \<Rightarrow> bytes" where
  "written calls = concat [d. CWrite d \<leftarrow> calls]"

lemma written_simps [simp]:
  "written [] = []" "written (xs @ ys) = written xs @ written ys"
  "written (c # cs) = (case c of CWrite d \<Rightarrow> d | _ \<Rightarrow> []) @ written cs"
  by (simp_all add: written_def split: osCall.splits)

lemma consumeUpload_result:
  "consumeUpload evs = Some (calls, committed, code, msg) \<Longrightarrow>
   (committed \<longleftrightarrow> code = 201) \<and> (committed \<longrightarrow> upload_body evs = Some (written calls) \<and> CSync \<in> set calls) \<and>
   (\<forall>p. CRemove p \<notin> set calls)"
proof (induction evs arbitrary: calls rule: consumeUpload.induct)
  case (4 data isLast writeErr syncErr evs)
  show ?case
  proof (cases "\<not> (data \<noteq> [] \<and> writeErr \<noteq> None) \<and> \<not> isLast")
    case True
    then obtain calls' where c: "consumeUpload evs = Some (calls', committed, code, msg)"
      "calls = (if data = [] then [] else [CWrite data]) @ calls'"
      using 4(2) by (auto simp: Let_def)
    from 4(1) [OF refl _ _ c(1)] True have ih: "(committed \<longleftrightarrow> code = 201) \<and> (committed \<longrightarrow> upload_body evs = Some (written calls') \<and> CSync \<in> set calls') \<and>
        (\<forall>p. CRemove p \<notin> set calls')" by auto
    with ih True c(2) show ?thesis by auto
  next
    case False
    with 4(2) show ?thesis by (auto simp: Let_def fsErrorCode_ne split: if_splits option.splits)
  qed
qed auto


lemma resolveDataDir_abs:
  assumes "resolveDataDir cwd stat configured = Inr d" "d \<noteq> []" "\<forall>wd. cwd = Some wd \<longrightarrow> isRooted wd"
  shows "\<exists>es. list_all plainElem es \<and> d = absPath es"
proof -
  from assms(1,2) have a: "Abs cwd configured = Inr d"
    by (auto simp: resolveDataDir_def split: if_splits sum.splits)
  show ?thesis
  proof (cases "isRooted configured")
    case True
    with a have "d = absPath (cleanElems configured)" by (simp add: Abs_def Clean_rooted)
    with cleanElems_plain [OF True] show ?thesis by blast
  next
    case False
    with a obtain wd where wd: "cwd = Some wd" "d = Join [wd, configured]"
      by (auto simp: Abs_def split: option.splits)
    then have r: "isRooted wd" using assms(3) by blast
    then have "d = Clean (joinSlash [wd, configured])" using wd by (auto simp: Join_def isRooted_def)
    moreover have root: "isRooted (joinSlash [wd, configured])" using r by (auto simp: isRooted_def)
    ultimately have "d = absPath (cleanElems (joinSlash [wd, configured]))" by (simp add: Clean_rooted)
    with cleanElems_plain [OF root] show ?thesis by blast
  qed
qed

lemma handleRead_events:
  assumes "handleRead nodeName dataDir decode openPath steps req = Some evs"
  shows "\<exists>ps code msg. evs = map (progressEvent nodeName (rq_request_id req)) ps @ [resultEvent nodeName (rq_request_id req) code msg] \<and>
    [] \<notin> set ps \<and> (\<exists>tail. read_data steps = concat ps @ tail) \<and>
    (code = 200 \<longrightarrow> concat ps = read_data steps \<and> (\<exists>st \<in> set steps. rd_end st = ReadEOF))"
proof -
  from assms obtain calls ps code msg where r: "readFile dataDir decode openPath steps (rq_payload req) = Some (calls, ps, code, msg)"
    and evs: "evs = map (progressEvent nodeName (rq_request_id req)) ps @ [resultEvent nodeName (rq_request_id req) code msg]"
    by (auto simp: handleRead_def split: option.splits)
  from r have "(ps = [] \<and> code \<noteq> 200) \<or> readLoop steps [] = Some (ps, code, msg)"
    using fsErrorCode_not_ok by (auto simp: readFile_def fsErrorCode_ne split: sum.splits if_splits)
  then show ?thesis
  proof
    assume "ps = [] \<and> code \<noteq> 200"
    with evs show ?thesis by auto
  next
    assume "readLoop steps [] = Some (ps, code, msg)"
    from readLoop_result [OF this] evs show ?thesis
      by (intro exI [of _ ps] exI [of _ code] exI [of _ msg]) auto
  qed
qed

section \<open>Properties\<close>



text \<open>
  A working directory that is the root of the file system serves nothing but itself: the prefix
  check compares with two slashes, so every other path is refused as one that escapes.
\<close>

theorem root_data_dir_refuses:
  assumes "cleanElems (slash # rel) \<noteq> []"
  shows "resolve ''/'' rel = Inl ErrPathEscapes \<and>
         fst (snd (statPath ''/'' (\<lambda>_. Inr rel) encode stat payload)) = [] \<and>
         fst (snd (snd (statPath ''/'' (\<lambda>_. Inr rel) encode stat payload))) = 400"
  using assms by (simp add: resolve_at_root statPath_def fsErrorCode_def)

theorem root_data_dir_refuses_witness: "resolve ''/'' ''etc/hosts'' = Inl ErrPathEscapes"
proof -
  have "cleanElems (slash # ''etc/hosts'') \<noteq> []" by code_simp
  from root_data_dir_refuses [OF this] show ?thesis by simp
qed

text \<open>
  A download. The agent sends non-empty progress frames and then exactly one terminal result, all
  with the request's id; the frames hold a prefix of what was read from the file, and code 200 says
  that they hold all of it, the end of the file included.
\<close>

theorem fs_read_complete:
  assumes "handleRead nodeName dataDir decode openPath steps req = Some evs"
  shows "\<exists>ps code msg. evs = map (progressEvent nodeName (rq_request_id req)) ps @ [resultEvent nodeName (rq_request_id req) code msg] \<and>
    [] \<notin> set ps \<and> (\<exists>tail. read_data steps = concat ps @ tail) \<and>
    (code = 200 \<longrightarrow> concat ps = read_data steps \<and> (\<exists>st \<in> set steps. rd_end st = ReadEOF))"
  using handleRead_events [OF assms] .

definition demo_read :: "readStep list" where
  "demo_read = [\<lparr>rd_ctxErr = None, rd_data = ''hel'', rd_end = ReadMore, rd_emitErr = None\<rparr>,
     \<lparr>rd_ctxErr = None, rd_data = ''lo'', rd_end = ReadEOF, rd_emitErr = None\<rparr>]"

definition demo_info :: fileInfo where
  "demo_info = \<lparr>fi_name = ''f'', fi_dir = False, fi_size = 5, fi_modTime = 0\<rparr>"

theorem fs_read_complete_witness:
  "\<exists>evs ps msg. handleRead ''n'' ''/srv'' Inr (\<lambda>_. Inr (Inr demo_info)) demo_read
      \<lparr>rq_request_id = ''1'', rq_method = ''fs.read'', rq_payload = ''f''\<rparr> = Some evs \<and>
     evs = map (progressEvent ''n'' ''1'') ps @ [resultEvent ''n'' ''1'' 200 msg] \<and> concat ps = ''hello''"
proof -
  let ?req = "\<lparr>rq_request_id = ''1'', rq_method = ''fs.read'', rq_payload = ''f''\<rparr>"
  have "resolve ''/srv'' ''f'' = Inr ''/srv/f''" by code_simp
  then have h: "handleRead ''n'' ''/srv'' Inr (\<lambda>_. Inr (Inr demo_info)) demo_read ?req =
      Some [progressEvent ''n'' ''1'' ''hel'', progressEvent ''n'' ''1'' ''lo'', resultEvent ''n'' ''1'' 200 []]"
    by (simp add: handleRead_def readFile_def demo_info_def demo_read_def)
  from fs_read_complete [OF h, unfolded agentRequest.select_convs] obtain ps code msg where p:
    "[progressEvent ''n'' ''1'' ''hel'', progressEvent ''n'' ''1'' ''lo'', resultEvent ''n'' ''1'' 200 []] =
       map (progressEvent ''n'' ''1'') ps @ [resultEvent ''n'' ''1'' code msg]"
    "code = 200 \<longrightarrow> concat ps = read_data demo_read" by blast
  then have "resultEvent ''n'' ''1'' code msg = resultEvent ''n'' ''1'' 200 []" by (metis append_is_Nil_conv last.simps last_snoc list.distinct(1))
  then have "code = 200" by (simp add: resultEvent_def)
  moreover have "read_data demo_read = ''hello''" by (simp add: read_data_def demo_read_def)
  ultimately show ?thesis using h p by (metis (no_types, lifting))
qed



end
