(* ===== verification/Relay.thy ===== *)
theory Relay
  imports AgentConn Sessions Registry AgentFs
begin

text \<open>
  How a request reaches the agent: over this controller's own Control stream or relayed to the
  controller that holds it (\<^verbatim>\<open>dispatch\<close>, \<^verbatim>\<open>dispatchStream\<close>, \<^verbatim>\<open>dispatchUpload\<close>, \<^verbatim>\<open>consumeStream\<close> and
  \<^verbatim>\<open>streamUploadBody\<close> of \<^verbatim>\<open>pkg/controller/api.go\<close>, the ControllerPeer server and its clients in
  \<^verbatim>\<open>pkg/controller/peer.go\<close>). The results of the agent's connection and of the gRPC calls are inputs.
\<close>

section \<open>Errors and routing\<close>

text \<open>
  What the REST layer distinguishes with \<^verbatim>\<open>errors.Is\<close>: \<^verbatim>\<open>errAgentNotConnected\<close>,
  \<^verbatim>\<open>context.DeadlineExceeded\<close> and anything else. A gRPC status error is never the context's error, so a
  relayed call that times out is an \<open>OtherErr\<close>.
\<close>

datatype apiErr = NotConnected | Deadline | OtherErr

datatype connErr = ConnDisconnected | ConnDeadline | ConnCancelled | ConnSend

fun connErr_api :: "connErr \<Rightarrow> apiErr" where
  "connErr_api ConnDeadline = Deadline"
| "connErr_api _ = OtherErr"

definition statusErr :: "grpcCode \<Rightarrow> apiErr" where
  "statusErr code = (if code = FailedPrecondition then NotConnected else OtherErr)"

datatype target = ViaLocal nat | ViaPeer string

definition routeTo :: "nat option \<Rightarrow> bool \<Rightarrow> (apiErr + string) \<Rightarrow> string \<Rightarrow> apiErr + target" where
  "routeTo held peers located selfAddr =
     (case held of
        Some conn \<Rightarrow> Inr (ViaLocal conn)
      | None \<Rightarrow>
          if \<not> peers then Inl NotConnected
          else (case located of
            Inl err \<Rightarrow> Inl err
          | Inr addr \<Rightarrow> if addr = [] \<or> addr = selfAddr then Inl NotConnected else Inr (ViaPeer addr)))"

section \<open>Single-shot requests\<close>

definition peerDispatch :: "nat option \<Rightarrow> (nat \<Rightarrow> connErr + agentResult) \<Rightarrow> grpcCode + agentResult" where
  "peerDispatch held connDispatch =
     (case held of
        None \<Rightarrow> Inl FailedPrecondition
      | Some conn \<Rightarrow>
          (case connDispatch conn of
             Inl ConnDisconnected \<Rightarrow> Inl FailedPrecondition
           | Inl _ \<Rightarrow> Inl Internal
           | Inr result \<Rightarrow> Inr result))"

definition clientDispatch :: "bool \<Rightarrow> (grpcCode + agentResult) \<Rightarrow> apiErr + agentResult" where
  "clientDispatch dialOk reply =
     (if \<not> dialOk then Inl OtherErr
      else (case reply of Inl code \<Rightarrow> Inl (statusErr code) | Inr result \<Rightarrow> Inr result))"

definition dispatch :: "nat option \<Rightarrow> bool \<Rightarrow> (apiErr + string) \<Rightarrow> string \<Rightarrow> (nat \<Rightarrow> connErr + agentResult) \<Rightarrow>
    (string \<Rightarrow> bool \<times> (grpcCode + agentResult)) \<Rightarrow> apiErr + agentResult" where
  "dispatch held peers located selfAddr connDispatch peer =
     (case routeTo held peers located selfAddr of
        Inl err \<Rightarrow> Inl err
      | Inr (ViaLocal conn) \<Rightarrow>
          (case connDispatch conn of Inl e \<Rightarrow> Inl (connErr_api e) | Inr result \<Rightarrow> Inr result)
      | Inr (ViaPeer addr) \<Rightarrow> clientDispatch (fst (peer addr)) (snd (peer addr)))"

section \<open>Streams\<close>

text \<open>
  The turns of a consumer's \<^verbatim>\<open>select\<close>: a frame, the closed \<^verbatim>\<open>done\<close> with the frames that are still in the
  channel, or the end of the context. \<open>None\<close> when the script ends before the loop does.
\<close>

datatype streamTurn = TurnFrame streamFrame | TurnDone "streamFrame list" | TurnCtx

fun drain :: "(streamFrame \<Rightarrow> 's \<Rightarrow> bool \<times> 's) \<Rightarrow> ('s \<Rightarrow> 's) \<Rightarrow> streamFrame list \<Rightarrow> 's \<Rightarrow> 's" where
  "drain onFrame onAbort [] s = onAbort s"
| "drain onFrame onAbort (f # fs) s =
     (case onFrame f s of (finished, s') \<Rightarrow> if finished then s' else drain onFrame onAbort fs s')"

fun consumeStream :: "(streamFrame \<Rightarrow> 's \<Rightarrow> bool \<times> 's) \<Rightarrow> ('s \<Rightarrow> 's) \<Rightarrow> streamTurn list \<Rightarrow> 's \<Rightarrow> 's option" where
  "consumeStream onFrame onAbort [] s = None"
| "consumeStream onFrame onAbort (TurnCtx # ts) s = Some s"
| "consumeStream onFrame onAbort (TurnFrame f # ts) s =
     (case onFrame f s of (finished, s') \<Rightarrow> if finished then Some s' else consumeStream onFrame onAbort ts s')"
| "consumeStream onFrame onAbort (TurnDone fs # ts) s = Some (drain onFrame onAbort fs s)"

text \<open>
  The sibling's \<^verbatim>\<open>DispatchStream\<close> after its dispatch: the results it sent, the outcomes of its sends
  that are left, and what it returns (\<open>None\<close>: nil).
\<close>

record relayServer =
  rv_sent :: "agentResult list"
  rv_sends :: "bool list"
  rv_ret :: "rpcErr option"

definition toResult :: "string \<Rightarrow> streamFrame \<Rightarrow> agentResult" where
  "toResult rid f = \<lparr>rs_request_id = rid, rs_code = sf_code f, rs_payload = sf_payload f,
     rs_error = sf_error f, rs_final = sf_final f\<rparr>"

definition forwardFrame :: "string \<Rightarrow> streamFrame \<Rightarrow> relayServer \<Rightarrow> bool \<times> relayServer" where
  "forwardFrame rid f s =
     (let ok = (rv_sends s = [] \<or> hd (rv_sends s)); s = s\<lparr>rv_sends := tl (rv_sends s)\<rparr> in
      if \<not> ok then (True, s\<lparr>rv_ret := Some SendErr\<rparr>)
      else (sf_final f, s\<lparr>rv_sent := rv_sent s @ [toResult rid f], rv_ret := None\<rparr>))"

fun DispatchStream_loop :: "string \<Rightarrow> streamTurn list \<Rightarrow> relayServer \<Rightarrow> relayServer option" where
  "DispatchStream_loop rid [] s = None"
| "DispatchStream_loop rid (TurnCtx # ts) s = Some (s\<lparr>rv_ret := Some CtxErr\<rparr>)"
| "DispatchStream_loop rid (TurnFrame f # ts) s =
     (case forwardFrame rid f s of (finished, s') \<Rightarrow>
        if finished then Some s' else DispatchStream_loop rid ts s')"
| "DispatchStream_loop rid (TurnDone fs # ts) s =
     Some (drain (forwardFrame rid) (\<lambda>s. s\<lparr>rv_ret := Some (Status FailedPrecondition)\<rparr>) fs s)"

definition DispatchStream :: "nat option \<Rightarrow> (nat \<Rightarrow> connErr + streamTurn list) \<Rightarrow> agentRequest \<Rightarrow> bool list \<Rightarrow>
    relayServer option" where
  "DispatchStream held connStream req sends =
     (let s = \<lparr>rv_sent = [], rv_sends = sends, rv_ret = None\<rparr> in
      case held of
        None \<Rightarrow> Some (s\<lparr>rv_ret := Some (Status FailedPrecondition)\<rparr>)
      | Some conn \<Rightarrow>
          (case connStream conn of
             Inl ConnDisconnected \<Rightarrow> Some (s\<lparr>rv_ret := Some (Status FailedPrecondition)\<rparr>)
           | Inl _ \<Rightarrow> Some (s\<lparr>rv_ret := Some (Status Internal)\<rparr>)
           | Inr turns \<Rightarrow> DispatchStream_loop (rq_request_id req) turns s))"

text \<open>
  The goroutine of \<^verbatim>\<open>peerClients.dispatchStream\<close>: the frames it puts into the channel for the results it
  receives; it stops after a terminal frame, at the end of the stream, and, with the number of puts
  that succeed before the context ends, at a put that the context overtakes.
\<close>

definition fromResult :: "agentResult \<Rightarrow> streamFrame" where
  "fromResult r = \<lparr>sf_payload = rs_payload r, sf_code = rs_code r, sf_error = rs_error r, sf_final = rs_final r\<rparr>"

fun relayFrames :: "agentResult list \<Rightarrow> nat \<Rightarrow> streamFrame list" where
  "relayFrames [] n = []"
| "relayFrames (r # rs) 0 = []"
| "relayFrames (r # rs) (Suc n) =
     fromResult r # (if rs_final r then [] else relayFrames rs n)"

text \<open>
  The start of a relayed stream (\<^verbatim>\<open>peerClients.dispatchStream\<close> up to its goroutine), and the service's
  \<^verbatim>\<open>dispatchStream\<close>: where the frames come from, or the error, and whether the relay's child context was
  cancelled on the way out.
\<close>

definition clientStream :: "bool \<Rightarrow> grpcCode option \<Rightarrow> apiErr option" where
  "clientStream dialOk started =
     (if \<not> dialOk then Some OtherErr
      else (case started of Some code \<Rightarrow> Some (statusErr code) | None \<Rightarrow> None))"

definition dispatchStream :: "nat option \<Rightarrow> bool \<Rightarrow> (apiErr + string) \<Rightarrow> string \<Rightarrow> (nat \<Rightarrow> connErr option) \<Rightarrow>
    (string \<Rightarrow> bool \<times> grpcCode option) \<Rightarrow> (apiErr + target) \<times> bool" where
  "dispatchStream held peers located selfAddr connStream peer =
     (case routeTo held peers located selfAddr of
        Inl err \<Rightarrow> (Inl err, False)
      | Inr (ViaLocal conn) \<Rightarrow>
          (case connStream conn of Some e \<Rightarrow> Inl (connErr_api e) | None \<Rightarrow> Inr (ViaLocal conn), False)
      | Inr (ViaPeer addr) \<Rightarrow>
          (case clientStream (fst (peer addr)) (snd (peer addr)) of
             Some err \<Rightarrow> (Inl err, True)
           | None \<Rightarrow> (Inr (ViaPeer addr), False)))"

section \<open>Uploads\<close>

definition fsUploadChunkSize :: nat where
  "fsUploadChunkSize = 64 * 1024"

text \<open>
  What the reads of the body return (bytes, and whether the end or an error came with them), and the
  outcomes of the sends. The loop yields the chunks it handed to \<^verbatim>\<open>send\<close> and whether it returned nil.
\<close>

datatype bodyEnd = BodyMore | BodyEOF | BodyErr

fun streamUploadBody :: "(bytes \<times> bodyEnd) list \<Rightarrow> bool list \<Rightarrow> ((bytes \<times> bool) list \<times> bool) option" where
  "streamUploadBody [] sends = None"
| "streamUploadBody ((data, e) # rest) sends =
     (let sent = (if data = [] then [] else [(data, False)]);
          ok = (data = [] \<or> sends = [] \<or> hd sends);
          sends' = (if data = [] then sends else tl sends)
      in if \<not> ok then Some (sent, False)
         else (case e of
           BodyEOF \<Rightarrow> Some (sent @ [([], True)], sends' = [] \<or> hd sends')
         | BodyErr \<Rightarrow> Some (sent, False)
         | BodyMore \<Rightarrow> map_option (\<lambda>(chunks, r). (sent @ chunks, r)) (streamUploadBody rest sends')))"

text \<open>The frames of \<^verbatim>\<open>peerClients.upload\<close>: the opening frame, then one per chunk.\<close>

definition uploadFrames :: "string \<Rightarrow> string \<Rightarrow> bytes \<Rightarrow> (bytes \<times> bool) list \<Rightarrow> uploadFrame list" where
  "uploadFrames agentID method openPayload chunks =
     \<lparr>uf_kind = UploadOpen \<lparr>dr_agent_id = agentID,
        dr_request = \<lparr>rq_request_id = [], rq_method = method, rq_payload = openPayload\<rparr>\<rparr>, uf_last = False\<rparr> #
     map (\<lambda>(data, isLast). \<lparr>uf_kind = UploadChunk data, uf_last = isLast\<rparr>) chunks"

text \<open>
  \<^verbatim>\<open>peerClients.upload\<close> with the outcomes of the dial, of opening the stream and of sending the opening
  frame, the outcomes of the later sends, and what \<^verbatim>\<open>CloseAndRecv\<close> returns. Only the error of
  \<^verbatim>\<open>CloseAndRecv\<close> is normalized. It yields the frames handed to the stream.
\<close>

record uploadEnv =
  ue_dial :: bool
  ue_stream :: bool
  ue_open :: bool
  ue_sends :: "bool list"
  ue_reply :: "grpcCode + agentResult"

definition clientUpload :: "uploadEnv \<Rightarrow> string \<Rightarrow> string \<Rightarrow> bytes \<Rightarrow> (bytes \<times> bodyEnd) list \<Rightarrow>
    (uploadFrame list \<times> (apiErr + agentResult)) option" where
  "clientUpload env agentID method openPayload reads =
     (if \<not> ue_dial env \<or> \<not> ue_stream env then Some ([], Inl OtherErr)
      else if \<not> ue_open env then Some (uploadFrames agentID method openPayload [], Inl OtherErr)
      else map_option (\<lambda>(chunks, ok). (uploadFrames agentID method openPayload chunks,
             if \<not> ok then Inl OtherErr
             else (case ue_reply env of Inl code \<Rightarrow> Inl (statusErr code) | Inr result \<Rightarrow> Inr result)))
           (streamUploadBody reads (ue_sends env)))"

text \<open>
  The service's \<^verbatim>\<open>dispatchUpload\<close>: the chunks sent on the local Control stream, or the frames sent to the
  sibling, and the result.
\<close>

datatype uploadSent = SentNothing | SentChunks "(bytes \<times> bool) list" | SentFrames "uploadFrame list"

definition dispatchUpload :: "nat option \<Rightarrow> bool \<Rightarrow> (apiErr + string) \<Rightarrow> string \<Rightarrow> connErr option \<Rightarrow> bool list \<Rightarrow>
    (connErr + agentResult) \<Rightarrow> (string \<Rightarrow> uploadEnv) \<Rightarrow> string \<Rightarrow> string \<Rightarrow> bytes \<Rightarrow> (bytes \<times> bodyEnd) list \<Rightarrow>
    (uploadSent \<times> (apiErr + agentResult)) option" where
  "dispatchUpload held peers located selfAddr opened sends awaited peer agentID method openPayload reads =
     (case routeTo held peers located selfAddr of
        Inl err \<Rightarrow> Some (SentNothing, Inl err)
      | Inr (ViaLocal conn) \<Rightarrow>
          (case opened of
             Some e \<Rightarrow> Some (SentNothing, Inl (connErr_api e))
           | None \<Rightarrow> map_option (\<lambda>(chunks, ok). (SentChunks chunks,
               if \<not> ok then Inl OtherErr
               else (case awaited of Inl e \<Rightarrow> Inl (connErr_api e) | Inr result \<Rightarrow> Inr result)))
             (streamUploadBody reads sends))
      | Inr (ViaPeer addr) \<Rightarrow>
          map_option (\<lambda>(frames, r). (SentFrames frames, r)) (clientUpload (peer addr) agentID method openPayload reads))"

definition getOpen :: "uploadFrame \<Rightarrow> dispatchRequest option" where
  "getOpen f = (case uf_kind f of UploadOpen r \<Rightarrow> Some r | _ \<Rightarrow> None)"

definition getChunk :: "uploadFrame \<Rightarrow> bytes" where
  "getChunk f = (case uf_kind f of UploadChunk d \<Rightarrow> d | _ \<Rightarrow> [])"

text \<open>
  The sibling's \<^verbatim>\<open>Upload\<close>. Its receives yield frames, the end of the stream or an error; the outcomes of
  its sends to the agent and of the wait for the result are inputs. It yields the opening request,
  the chunks passed on and what it returns.
\<close>

datatype uploadRecv = URecv uploadFrame | UEOF | UErr

fun Upload_loop :: "uploadRecv list \<Rightarrow> bool list \<Rightarrow> ((bytes \<times> bool) list \<times> grpcCode option) option" where
  "Upload_loop [] sends = None"
| "Upload_loop (UEOF # rs) sends = Some ([], Some (OtherCode 10))"
| "Upload_loop (UErr # rs) sends = Some ([], Some Internal)"
| "Upload_loop (URecv f # rs) sends =
     (if sends \<noteq> [] \<and> \<not> hd sends then Some ([(getChunk f, uf_last f)], Some Internal)
      else if uf_last f then Some ([(getChunk f, uf_last f)], None)
      else map_option (\<lambda>(chunks, r). ((getChunk f, uf_last f) # chunks, r)) (Upload_loop rs (tl sends)))"

definition Upload :: "uploadRecv list \<Rightarrow> (string \<Rightarrow> nat option) \<Rightarrow> (agentRequest \<Rightarrow> connErr option) \<Rightarrow> bool list \<Rightarrow>
    (connErr + agentResult) \<Rightarrow> (agentRequest option \<times> (bytes \<times> bool) list \<times> (grpcCode + agentResult)) option" where
  "Upload recvs held openUpload sends awaited =
     (case recvs of
        [] \<Rightarrow> None
      | URecv first # rest \<Rightarrow>
          (case getOpen first of
             None \<Rightarrow> Some (None, [], Inl InvalidArgument)
           | Some op \<Rightarrow>
               (case held (dr_agent_id op) of
                  None \<Rightarrow> Some (None, [], Inl FailedPrecondition)
                | Some conn \<Rightarrow>
                    (case openUpload (dr_request op) of
                       Some ConnDisconnected \<Rightarrow> Some (None, [], Inl FailedPrecondition)
                     | Some _ \<Rightarrow> Some (None, [], Inl Internal)
                     | None \<Rightarrow>
                         map_option (\<lambda>(chunks, failed). (Some (dr_request op), chunks,
                            (case failed of
                               Some code \<Rightarrow> Inl code
                             | None \<Rightarrow>
                                 (case awaited of
                                    Inl ConnDisconnected \<Rightarrow> Inl FailedPrecondition
                                  | Inl _ \<Rightarrow> Inl Internal
                                  | Inr result \<Rightarrow> Inr result)))) (Upload_loop rest sends))))
      | _ # rest \<Rightarrow> Some (None, [], Inl InvalidArgument))"

section \<open>The cache of peer connections\<close>

definition peerConn :: "(string \<Rightarrow> nat option) \<Rightarrow> string \<Rightarrow> (string, nat) gomap \<Rightarrow> nat option \<times> (string, nat) gomap" where
  "peerConn dial addr conns =
     (case mget conns addr of
        Some conn \<Rightarrow> (Some conn, conns)
      | None \<Rightarrow> (case dial addr of None \<Rightarrow> (None, conns) | Some conn \<Rightarrow> (Some conn, mput addr conn conns)))"

definition peersClose :: "(nat \<Rightarrow> bool) \<Rightarrow> (string, nat) gomap \<Rightarrow> string list \<times> (string, nat) gomap" where
  "peersClose closeOk conns = (map fst (filter (\<lambda>(addr, conn). \<not> closeOk conn) conns), [])"

section \<open>What a consumer sees\<close>

text \<open>A consumer that records the frames, stops at the terminal one, and notes an abort.\<close>

definition collect :: "streamFrame \<Rightarrow> streamFrame list \<times> bool \<Rightarrow> bool \<times> streamFrame list \<times> bool" where
  "collect f = (\<lambda>(fs, aborted). (sf_final f, fs @ [f], aborted))"

definition noteAbort :: "streamFrame list \<times> bool \<Rightarrow> streamFrame list \<times> bool" where
  "noteAbort = (\<lambda>(fs, aborted). (fs, True))"

lemma fromResult_toResult [simp]: "fromResult (toResult rid f) = f"
  by (simp add: fromResult_def toResult_def)

lemma rs_final_toResult [simp]: "rs_final (toResult rid f) = sf_final f"
  by (simp add: toResult_def)

definition no_final :: "streamFrame list \<Rightarrow> bool" where
  "no_final fs \<longleftrightarrow> (\<forall>f \<in> set fs. \<not> sf_final f)"

text \<open>The relay's drain and loop against the recording consumer's.\<close>

definition relay_sim :: "string \<Rightarrow> streamFrame list \<times> bool \<Rightarrow> relayServer \<Rightarrow> bool" where
  "relay_sim rid c s \<longleftrightarrow> rv_sent s = map (toResult rid) (fst c) \<and> rv_sends s = [] \<and> no_final (fst c) \<and> \<not> snd c"

definition relay_end :: "string \<Rightarrow> streamFrame list \<times> bool \<Rightarrow> relayServer \<Rightarrow> bool" where
  "relay_end rid c s \<longleftrightarrow> rv_sent s = map (toResult rid) (fst c) \<and> no_final (butlast (fst c)) \<and>
     (snd c \<longrightarrow> rv_ret s = Some (Status FailedPrecondition) \<and> no_final (fst c)) \<and>
     (rv_ret s = None \<longrightarrow> fst c \<noteq> [] \<and> sf_final (last (fst c)))"

lemma no_final_butlast: "no_final fs \<Longrightarrow> no_final (butlast fs)"
  by (auto simp: no_final_def dest: in_set_butlastD)

lemma forwardFrame_collect:
  assumes "relay_sim rid c s" "collect f c = (fin, c')" "forwardFrame rid f s = (fin', s')"
  shows "fin' = fin \<and> (if fin then relay_end rid c' s' else relay_sim rid c' s')"
  using assms by (cases c) (auto simp: relay_sim_def relay_end_def collect_def forwardFrame_def Let_def no_final_def split: if_splits)

lemma drain_relay:
  assumes "relay_sim rid c s"
  shows "relay_end rid (drain collect noteAbort fs c)
    (drain (forwardFrame rid) (\<lambda>s. s\<lparr>rv_ret := Some (Status FailedPrecondition)\<rparr>) fs s)"
  using assms
proof (induction fs arbitrary: c s)
  case Nil
  then show ?case by (auto simp: relay_sim_def relay_end_def noteAbort_def no_final_butlast split: prod.splits)
next
  case (Cons f fs)
  obtain fin c' where c: "collect f c = (fin, c')" by (cases "collect f c")
  obtain fin' s' where s: "forwardFrame rid f s = (fin', s')" by fastforce
  from forwardFrame_collect [OF Cons.prems c s] Cons.IH [of c' s'] c s show ?case by (auto split: if_splits)
qed

lemma loop_relay:
  assumes "relay_sim rid c s" "DispatchStream_loop rid turns s = Some s'"
  shows "\<exists>c'. consumeStream collect noteAbort turns c = Some c' \<and> relay_end rid c' s'"
  using assms
proof (induction turns arbitrary: c s)
  case Nil
  then show ?case by simp
next
  case (Cons t turns)
  show ?case
  proof (cases t)
    case (TurnFrame f)
    obtain fin c1 where c: "collect f c = (fin, c1)" by (cases "collect f c")
    obtain fin' s1 where s: "forwardFrame rid f s = (fin', s1)" by fastforce
    note sim = forwardFrame_collect [OF Cons.prems(1) c s]
    show ?thesis
    proof (cases fin)
      case True
      with sim c s Cons.prems(2) TurnFrame show ?thesis by auto
    next
      case False
      with sim s Cons.prems(2) TurnFrame have "relay_sim rid c1 s1" "DispatchStream_loop rid turns s1 = Some s'" by auto
      from Cons.IH [OF this] c False TurnFrame show ?thesis by auto
    qed
  next
    case (TurnDone fs)
    with drain_relay [OF Cons.prems(1), of fs] Cons.prems(2) show ?thesis by auto
  next
    case TurnCtx
    with Cons.prems show ?thesis by (auto simp: relay_sim_def relay_end_def no_final_butlast)
  qed
qed

lemma relayFrames_exact:
  assumes "no_final (butlast fs)" "length fs \<le> n"
  shows "relayFrames (map (toResult rid) fs) n = fs"
  using assms
proof (induction fs arbitrary: n)
  case (Cons f fs)
  then obtain m where n: "n = Suc m" by (cases n) auto
  show ?case
  proof (cases "fs = []")
    case True
    with n show ?thesis by simp
  next
    case False
    with Cons.prems(1) have "\<not> sf_final f" "no_final (butlast fs)" by (auto simp: no_final_def)
    with Cons.IH [of m] Cons.prems(2) n show ?thesis by simp
  qed
qed simp

section \<open>What is uploaded\<close>

definition body_read :: "(bytes \<times> bodyEnd) list \<Rightarrow> bytes" where
  "body_read reads = concat (map fst (takeWhile (\<lambda>(d, e). e = BodyMore) reads @
     take 1 (dropWhile (\<lambda>(d, e). e = BodyMore) reads)))"

lemma body_read_Cons: "body_read ((d, e) # rest) = d @ (if e = BodyMore then body_read rest else [])"
  by (simp add: body_read_def)

definition good_chunks :: "(bytes \<times> bool) list \<Rightarrow> bool" where
  "good_chunks chunks \<longleftrightarrow> (\<exists>cs. chunks = cs @ [([], True)] \<and> (\<forall>(d, isLast) \<in> set cs. d \<noteq> [] \<and> \<not> isLast))"

lemma good_chunks_Cons:
  assumes "d \<noteq> []" "good_chunks chunks"
  shows "good_chunks ((d, False) # chunks)"
proof -
  from assms(2) obtain cs where "chunks = cs @ [([], True)]" "\<forall>(d, isLast) \<in> set cs. d \<noteq> [] \<and> \<not> isLast"
    by (auto simp: good_chunks_def)
  with assms(1) show ?thesis unfolding good_chunks_def by (intro exI [of _ "(d, False) # cs"]) simp
qed

lemma streamUploadBody_ok:
  "streamUploadBody reads sends = Some (chunks, True) \<Longrightarrow>
   good_chunks chunks \<and> concat (map fst chunks) = body_read reads"
proof (induction reads sends arbitrary: chunks rule: streamUploadBody.induct)
  case (2 data e rest sends)
  let ?sent = "if data = [] then [] else [(data, False)]"
  have ok: "data = [] \<or> sends = [] \<or> hd sends" using 2(2) by (auto simp: Let_def split: if_splits)
  show ?case
  proof (cases e)
    case BodyMore
    then obtain cs where cs: "streamUploadBody rest (if data = [] then sends else tl sends) = Some (cs, True)" "chunks = ?sent @ cs"
      using 2(2) ok by (auto simp: Let_def split: if_splits)
    from 2(1) [OF refl refl refl _ BodyMore cs(1)] ok have "good_chunks cs \<and> concat (map fst cs) = body_read rest" by auto
    with cs(2) BodyMore show ?thesis by (auto simp: body_read_Cons good_chunks_Cons)
  next
    case BodyEOF
    then have "chunks = ?sent @ [([], True)]" using 2(2) ok by (auto simp: Let_def split: if_splits)
    with BodyEOF show ?thesis by (auto simp: body_read_Cons good_chunks_def)
  next
    case BodyErr
    with 2(2) show ?thesis by (auto simp: Let_def split: if_splits)
  qed
qed simp

lemma Upload_loop_chunks:
  assumes "good_chunks chunks"
  shows "Upload_loop (map URecv (tl (uploadFrames agentID method payload chunks)) @ rest) [] = Some (chunks, None)"
proof -
  from assms obtain cs where cs: "chunks = cs @ [([], True)]" "\<forall>(d, isLast) \<in> set cs. d \<noteq> [] \<and> \<not> isLast"
    by (auto simp: good_chunks_def)
  from cs(2) have "Upload_loop (map URecv (map (\<lambda>(data, isLast). \<lparr>uf_kind = UploadChunk data, uf_last = isLast\<rparr>) (cs @ [([], True)])) @ rest) []
      = Some (cs @ [([], True)], None)"
    by (induction cs) (auto simp: getChunk_def)
  with cs(1) show ?thesis by (simp add: uploadFrames_def)
qed

lemma consumeUpload_chunks:
  assumes "good_chunks chunks"
  shows "\<exists>calls. consumeUpload (map (\<lambda>(d, isLast). UpChunk d isLast None None) chunks @ rest) = Some (calls, True, 201, []) \<and>
    written calls = concat (map fst chunks)"
proof -
  from assms obtain cs where cs: "chunks = cs @ [([], True)]" "\<forall>(d, isLast) \<in> set cs. d \<noteq> [] \<and> \<not> isLast"
    by (auto simp: good_chunks_def)
  from cs(2) have "\<exists>calls. consumeUpload (map (\<lambda>(d, isLast). UpChunk d isLast None None) (cs @ [([], True)]) @ rest) = Some (calls, True, 201, []) \<and>
      written calls = concat (map fst cs)"
  proof (induction cs)
    case (Cons c cs)
    obtain d l where c: "c = (d, l)" by (cases c)
    with Cons.prems have d: "d \<noteq> []" "\<not> l" by auto
    from Cons obtain calls where
      "consumeUpload (map (\<lambda>(d, isLast). UpChunk d isLast None None) (cs @ [([], True)]) @ rest) = Some (calls, True, 201, [])"
      "written calls = concat (map fst cs)" by auto
    with c d show ?case by (intro exI [of _ "CWrite d # calls"]) simp
  qed simp
  with cs(1) show ?thesis by auto
qed

text \<open>The chunks of an upload that returned a result, whichever way it went.\<close>

lemma dispatchUpload_result:
  assumes "dispatchUpload held peers located selfAddr opened sends awaited peer agentID method openPayload reads =
    Some (sent, Inr result)"
  shows "\<exists>chunks. good_chunks chunks \<and> concat (map fst chunks) = body_read reads \<and>
    (sent = SentChunks chunks \<or> sent = SentFrames (uploadFrames agentID method openPayload chunks))"
proof -
  from assms have "\<exists>chunks. (\<exists>sends. streamUploadBody reads sends = Some (chunks, True)) \<and>
    (sent = SentChunks chunks \<or> sent = SentFrames (uploadFrames agentID method openPayload chunks))"
    by (auto simp: dispatchUpload_def clientUpload_def split: sum.splits target.splits option.splits if_splits)
  with streamUploadBody_ok show ?thesis by blast
qed

section \<open>Properties\<close>


definition demo_frame :: "bool \<Rightarrow> streamFrame" where
  "demo_frame fin = \<lparr>sf_payload = ''x'', sf_code = 200, sf_error = [], sf_final = fin\<rparr>"



definition demo_upload :: "string \<Rightarrow> uploadEnv" where
  "demo_upload addr = \<lparr>ue_dial = True, ue_stream = True, ue_open = True, ue_sends = [],
     ue_reply = Inr \<lparr>rs_request_id = [], rs_code = 201, rs_payload = [], rs_error = [], rs_final = True\<rparr>\<rparr>"


end
