(* ===== verification/AgentApi.thy ===== *)
theory AgentApi
  imports AgentFs
begin

text \<open>
  The wire contract of the agent request plane, \<^verbatim>\<open>pkg/agentapi/agentapi.go\<close>: the method names and the
  payload types. A Go map with string keys is an association list, a nil or empty slice the empty list,
  an optional pointer an \<open>option\<close>. The JSON encoding of the types is outside the model: encoders and
  decoders are parameters of the definitions that use them.
\<close>

section \<open>Methods\<close>

definition MethodImagesList :: string where
  "MethodImagesList = ''images.list''"
definition MethodImagesPull :: string where
  "MethodImagesPull = ''images.pull''"
definition MethodImagesRemove :: string where
  "MethodImagesRemove = ''images.remove''"
definition MethodFsStat :: string where
  "MethodFsStat = ''fs.stat''"
definition MethodFsList :: string where
  "MethodFsList = ''fs.list''"
definition MethodFsRead :: string where
  "MethodFsRead = ''fs.read''"
definition MethodFsWrite :: string where
  "MethodFsWrite = ''fs.write''"
definition MethodFsMkdir :: string where
  "MethodFsMkdir = ''fs.mkdir''"
definition MethodFsRemove :: string where
  "MethodFsRemove = ''fs.remove''"
definition MethodContainersList :: string where
  "MethodContainersList = ''containers.list''"
definition MethodContainersCreate :: string where
  "MethodContainersCreate = ''containers.create''"
definition MethodContainersInspect :: string where
  "MethodContainersInspect = ''containers.inspect''"
definition MethodContainersStart :: string where
  "MethodContainersStart = ''containers.start''"
definition MethodContainersStop :: string where
  "MethodContainersStop = ''containers.stop''"
definition MethodContainersRestart :: string where
  "MethodContainersRestart = ''containers.restart''"
definition MethodContainersRemove :: string where
  "MethodContainersRemove = ''containers.remove''"
definition MethodContainersLogs :: string where
  "MethodContainersLogs = ''containers.logs''"
definition MethodRequestCancel :: string where
  "MethodRequestCancel = ''request.cancel''"
definition MethodMetricsScrape :: string where
  "MethodMetricsScrape = ''metrics.scrape''"

lemmas method_defs = MethodImagesList_def MethodImagesPull_def MethodImagesRemove_def MethodFsStat_def
  MethodFsList_def MethodFsRead_def MethodFsWrite_def MethodFsMkdir_def MethodFsRemove_def
  MethodContainersList_def MethodContainersCreate_def MethodContainersInspect_def MethodContainersStart_def
  MethodContainersStop_def MethodContainersRestart_def MethodContainersRemove_def MethodContainersLogs_def
  MethodRequestCancel_def MethodMetricsScrape_def

section \<open>Images\<close>

record imageSummary =
  is_id :: string
  is_repoTags :: "string list"
  is_repoDigests :: "string list"
  is_created :: int
  is_size :: int
  is_labels :: "(string, string) gomap"

record registryAuth =
  ra_username :: string
  ra_password :: string
  ra_serverAddress :: string
  ra_identityToken :: string

record pullRequest =
  pr_image :: string
  pr_auth :: "registryAuth option"

record pullProgress =
  pp_id :: string
  pp_status :: string
  pp_progress :: string
  pp_current :: int
  pp_total :: int
  pp_error :: string

record removeRequest =
  rr_refs :: "string list"
  rr_force :: bool
  rr_noPrune :: bool

record deletedImage =
  di_untagged :: string
  di_deleted :: string

record removeError =
  re_ref :: string
  re_error :: string

record removeResult =
  rm_deleted :: "deletedImage list"
  rm_errors :: "removeError list"

section \<open>Containers\<close>

record containerPort =
  cp_ip :: string
  cp_privatePort :: "16 word"
  cp_publicPort :: "16 word"
  cp_protocol :: string

record containerSummary =
  cs_id :: string
  cs_names :: "string list"
  cs_image :: string
  cs_imageId :: string
  cs_command :: string
  cs_created :: int
  cs_ports :: "containerPort list"
  cs_labels :: "(string, string) gomap"
  cs_state :: string
  cs_status :: string

record portBinding =
  pb_containerPort :: string
  pb_protocol :: string
  pb_hostIp :: string
  pb_hostPort :: string

record containerCreateRequest =
  cc_name :: string
  cc_image :: string
  cc_cmd :: "string list"
  cc_entrypoint :: "string list"
  cc_env :: "string list"
  cc_workingDir :: string
  cc_labels :: "(string, string) gomap"
  cc_ports :: "portBinding list"
  cc_binds :: "string list"
  cc_networkMode :: string
  cc_pidMode :: string
  cc_restartPolicy :: string
  cc_maxRetryCount :: int
  cc_autoRemove :: bool

record containerCreateResult =
  cre_id :: string
  cre_warnings :: "string list"

record containerStopRequest =
  st_id :: string
  st_timeout :: "int option"

record containerRemoveRequest =
  cr_id :: string
  cr_force :: bool
  cr_removeVolumes :: bool

record containerLogsRequest =
  cl_id :: string
  cl_follow :: bool
  cl_tail :: string
  cl_since :: string
  cl_timestamps :: bool

record logFrame =
  lf_stream :: string
  lf_line :: string

record containerState =
  sta_status :: string
  sta_running :: bool
  sta_paused :: bool
  sta_restarting :: bool
  sta_oomKilled :: bool
  sta_dead :: bool
  sta_pid :: int
  sta_exitCode :: int
  sta_error :: string
  sta_startedAt :: string
  sta_finishedAt :: string

record containerDetail =
  cd_id :: string
  cd_name :: string
  cd_image :: string
  cd_imageId :: string
  cd_created :: string
  cd_state :: containerState
  cd_restartCount :: int
  cd_cmd :: "string list"
  cd_entrypoint :: "string list"
  cd_env :: "string list"
  cd_workingDir :: string
  cd_labels :: "(string, string) gomap"
  cd_networks :: "(string, string) gomap"
  cd_ports :: "containerPort list"
  cd_binds :: "string list"
  cd_restartPolicy :: string
  cd_autoRemove :: bool

section \<open>Requests\<close>

text \<open>The request payloads, one constructor per payload type; \<open>NoPayload\<close> is an empty payload.\<close>

datatype apiRequest =
    NoPayload
  | FsPathRequest string
  | FsWriteRequest fsWriteRequest
  | PullRequest pullRequest
  | RemoveRequest removeRequest
  | ContainerListRequest bool
  | ContainerCreateRequest containerCreateRequest
  | ContainerIDRequest string
  | ContainerStopRequest containerStopRequest
  | ContainerRemoveRequest containerRemoveRequest
  | ContainerLogsRequest containerLogsRequest
  | CancelRequest string

record metricsFrame =
  mf_exporter :: string
  mf_chunk :: bytes
  mf_done :: bool
  mf_error :: string

end
