(* ===== verification/AgentDocker.thy ===== *)
theory AgentDocker
  imports AgentApi GoNet
begin

text \<open>
  The agent's Docker requests: \<^verbatim>\<open>pkg/agent/commands.go\<close> and \<^verbatim>\<open>pkg/agent/containers.go\<close>. The Docker client is
  a parameter: the answers of the daemon are the fields of a record, and the calls a handler makes
  are part of its output. Encoders and decoders of JSON are parameters; \<open>Inl\<close> is the text of their error.
\<close>

section \<open>The Docker client\<close>

record dockerErr =
  de_text :: string
  de_notFound :: bool
  de_conflict :: bool
  de_invalid :: bool

definition dockerErrorCode :: "dockerErr \<Rightarrow> uint32" where
  "dockerErrorCode err =
     (if de_notFound err then 404 else if de_conflict err then 409 else if de_invalid err then 400 else 500)"

record dockerImage =
  dim_id :: string
  dim_repoTags :: "string list"
  dim_repoDigests :: "string list"
  dim_created :: int
  dim_size :: int
  dim_labels :: "(string, string) gomap"

record dockerPort =
  dp_ip :: string
  dp_private :: "16 word"
  dp_public :: "16 word"
  dp_type :: string

record dockerContainer =
  dc_id :: string
  dc_names :: "string list"
  dc_image :: string
  dc_imageId :: string
  dc_command :: string
  dc_created :: int
  dc_ports :: "dockerPort list"
  dc_labels :: "(string, string) gomap"
  dc_state :: string
  dc_status :: string

record hostBinding =
  hb_ip :: string
  hb_port :: string

record containerConfig =
  cfg_image :: string
  cfg_cmd :: "string list"
  cfg_entrypoint :: "string list"
  cfg_env :: "string list"
  cfg_workingDir :: string
  cfg_labels :: "(string, string) gomap"
  cfg_exposed :: "string list option"
  cfg_tty :: bool

record hostConfig =
  hc_binds :: "string list"
  hc_bindings :: "(string, hostBinding list) gomap option"
  hc_networkMode :: string
  hc_pidMode :: string
  hc_restartName :: string
  hc_restartMax :: int
  hc_autoRemove :: bool

text \<open>The network settings of an inspected container: the port map and the networks, an absent endpoint being nil.\<close>

record networkSettings =
  ns_ports :: "(string, hostBinding list) gomap"
  ns_networks :: "(string, string option) gomap"

record inspectResponse =
  ir_id :: string
  ir_name :: string
  ir_image :: string
  ir_created :: string
  ir_restartCount :: int
  ir_state :: "containerState option"
  ir_config :: "containerConfig option"
  ir_hostConfig :: "hostConfig option"
  ir_network :: "networkSettings option"

text \<open>
  What the decoder of a pull's output returns: a line, a line with an error, a decoding error or the
  end of the stream; and what reading a log stream returns, with the error that ended it.
\<close>

datatype pullMsg =
    PullLine string string "(int \<times> int \<times> string) option"
  | PullErrLine string string string
  | PullBad string
  | PullEnd

record logSource =
  ls_reads :: "bytes list"
  ls_err :: "string option"

record docker =
  dk_imageList :: "dockerErr + dockerImage list"
  dk_imageRemove :: "string \<Rightarrow> bool \<Rightarrow> bool \<Rightarrow> dockerErr + deletedImage list"
  dk_imagePull :: "string \<Rightarrow> string \<Rightarrow> dockerErr + pullMsg list"
  dk_list :: "bool \<Rightarrow> dockerErr + dockerContainer list"
  dk_create :: "containerConfig \<Rightarrow> hostConfig \<Rightarrow> string \<Rightarrow> dockerErr + string \<times> string list"
  dk_start :: "string \<Rightarrow> dockerErr option"
  dk_stop :: "string \<Rightarrow> int option \<Rightarrow> dockerErr option"
  dk_restart :: "string \<Rightarrow> int option \<Rightarrow> dockerErr option"
  dk_remove :: "string \<Rightarrow> bool \<Rightarrow> bool \<Rightarrow> dockerErr option"
  dk_inspect :: "string \<Rightarrow> dockerErr + inspectResponse"
  dk_logs :: "containerLogsRequest \<Rightarrow> dockerErr + logSource"

datatype dockerCall =
    DImageList
  | DImageRemove string bool bool
  | DImagePull string string
  | DList bool
  | DCreate containerConfig hostConfig string
  | DStart string
  | DStop string "int option"
  | DRestart string "int option"
  | DRemove string bool bool
  | DInspect string
  | DLogs containerLogsRequest

section \<open>Images\<close>

definition imageOf :: "dockerImage \<Rightarrow> imageSummary" where
  "imageOf s = \<lparr>is_id = dim_id s, is_repoTags = dim_repoTags s, is_repoDigests = dim_repoDigests s,
     is_created = dim_created s, is_size = dim_size s, is_labels = dim_labels s\<rparr>"

definition listImages :: "docker \<Rightarrow> (imageSummary list \<Rightarrow> string + bytes) \<Rightarrow> dockerCall list \<times> reply" where
  "listImages dk encode =
     (case dk_imageList dk of
        Inl err \<Rightarrow> ([DImageList], [], 500, de_text err)
      | Inr summaries \<Rightarrow>
          (case encode (map imageOf summaries) of
             Inl msg \<Rightarrow> ([DImageList], [], 500, msg)
           | Inr payload \<Rightarrow> ([DImageList], payload, 200, [])))"

fun removeLoop :: "docker \<Rightarrow> bool \<Rightarrow> bool \<Rightarrow> string list \<Rightarrow> removeResult \<Rightarrow> removeResult" where
  "removeLoop dk force prune [] result = result"
| "removeLoop dk force prune (ref # refs) result =
     removeLoop dk force prune refs
       (case dk_imageRemove dk ref force prune of
          Inl err \<Rightarrow> result\<lparr>rm_errors := rm_errors result @ [\<lparr>re_ref = ref, re_error = de_text err\<rparr>]\<rparr>
        | Inr responses \<Rightarrow> result\<lparr>rm_deleted := rm_deleted result @ responses\<rparr>)"

definition removeImages :: "docker \<Rightarrow> (bytes \<Rightarrow> string + removeRequest) \<Rightarrow> (removeResult \<Rightarrow> string + bytes) \<Rightarrow>
    bytes \<Rightarrow> dockerCall list \<times> reply" where
  "removeImages dk decode encode payload =
     (case decode payload of
        Inl msg \<Rightarrow> ([], [], 400, ''invalid images.remove payload: '' @ msg)
      | Inr rr \<Rightarrow>
          if rr_refs rr = [] then ([], [], 400, ''images.remove: at least one reference is required'')
          else (let force = rr_force rr; prune = (\<not> rr_noPrune rr);
                    result = removeLoop dk force prune (rr_refs rr) \<lparr>rm_deleted = [], rm_errors = []\<rparr>;
                    calls = map (\<lambda>ref. DImageRemove ref force prune) (rr_refs rr)
                in case encode result of
                     Inl msg \<Rightarrow> (calls, [], 500, msg)
                   | Inr bs \<Rightarrow> (calls, bs, 200, [])))"

text \<open>
  Base64 with the URL alphabet and padding (\<^verbatim>\<open>base64.URLEncoding\<close>), and the registry token. The
  encoder of the credentials is the parameter.
\<close>

definition b64char :: "nat \<Rightarrow> char" where
  "b64char n =
     (if n < 26 then char_of (65 + n)
      else if n < 52 then char_of (97 + (n - 26))
      else if n < 62 then char_of (48 + (n - 52))
      else if n = 62 then CHR ''-'' else CHR ''_'')"

fun base64URL :: "bytes \<Rightarrow> string" where
  "base64URL [] = []"
| "base64URL [a] =
     (let x = of_char a :: nat in [b64char (x div 4), b64char (x mod 4 * 16), CHR ''='', CHR ''=''])"
| "base64URL [a, b] =
     (let x = of_char a :: nat; y = of_char b :: nat in
      [b64char (x div 4), b64char (x mod 4 * 16 + y div 16), b64char (y mod 16 * 4), CHR ''=''])"
| "base64URL (a # b # c # rest) =
     (let x = of_char a :: nat; y = of_char b :: nat; z = of_char c :: nat in
      [b64char (x div 4), b64char (x mod 4 * 16 + y div 16), b64char (y mod 16 * 4 + z div 64), b64char (z mod 64)] @
      base64URL rest)"

definition encodeRegistryAuth :: "(registryAuth \<Rightarrow> string + bytes) \<Rightarrow> registryAuth \<Rightarrow> string + string" where
  "encodeRegistryAuth encode auth = (case encode auth of Inl msg \<Rightarrow> Inl msg | Inr buf \<Rightarrow> Inr (base64URL buf))"

definition progressOf :: "string \<Rightarrow> string \<Rightarrow> (int \<times> int \<times> string) option \<Rightarrow> pullProgress" where
  "progressOf pid status prog =
     (case prog of
        None \<Rightarrow> \<lparr>pp_id = pid, pp_status = status, pp_progress = [], pp_current = 0, pp_total = 0, pp_error = []\<rparr>
      | Some (current, tot, text) \<Rightarrow>
          \<lparr>pp_id = pid, pp_status = status, pp_progress = text, pp_current = current, pp_total = tot, pp_error = []\<rparr>)"

fun pullLoop :: "pullMsg list \<Rightarrow> (pullProgress list \<times> uint32 \<times> string) option" where
  "pullLoop [] = None"
| "pullLoop (PullEnd # msgs) = Some ([], 200, [])"
| "pullLoop (PullBad msg # msgs) = Some ([], 502, msg)"
| "pullLoop (PullErrLine pid status err # msgs) =
     Some ([\<lparr>pp_id = pid, pp_status = status, pp_progress = [], pp_current = 0, pp_total = 0, pp_error = err\<rparr>], 502, err)"
| "pullLoop (PullLine pid status prog # msgs) =
     map_option (\<lambda>(ps, r). (progressOf pid status prog # ps, r)) (pullLoop msgs)"

definition pullImage :: "docker \<Rightarrow> (bytes \<Rightarrow> string + pullRequest) \<Rightarrow> (registryAuth \<Rightarrow> string + bytes) \<Rightarrow> bytes \<Rightarrow>
    (dockerCall list \<times> pullProgress list \<times> uint32 \<times> string) option" where
  "pullImage dk decode encodeAuth payload =
     (case decode payload of
        Inl msg \<Rightarrow> Some ([], [], 400, ''invalid images.pull payload: '' @ msg)
      | Inr pr \<Rightarrow>
          if pr_image pr = [] then Some ([], [], 400, ''images.pull: image must not be empty'')
          else (case (case pr_auth pr of None \<Rightarrow> Inr [] | Some auth \<Rightarrow> encodeRegistryAuth encodeAuth auth) of
            Inl msg \<Rightarrow> Some ([], [], 400, ''images.pull: encode registry auth: '' @ msg)
          | Inr token \<Rightarrow>
              (case dk_imagePull dk (pr_image pr) token of
                 Inl err \<Rightarrow> Some ([DImagePull (pr_image pr) token], [], 500, de_text err)
               | Inr msgs \<Rightarrow> map_option (\<lambda>r. ([DImagePull (pr_image pr) token], r)) (pullLoop msgs))))"

text \<open>
  The closure \<^verbatim>\<open>emit\<close> of a streaming handler: a value that cannot be encoded is skipped, the others are
  sent as progress; a failed send cancels the handler's context. The sends beyond the given
  outcomes succeed.
\<close>

fun emitFrames :: "('a \<Rightarrow> string + bytes) \<Rightarrow> string \<Rightarrow> string \<Rightarrow> 'a list \<Rightarrow> bool list \<Rightarrow> agentEvent list \<times> bool" where
  "emitFrames encode nodeName rid [] sends = ([], False)"
| "emitFrames encode nodeName rid (f # fs) sends =
     (case encode f of
        Inl _ \<Rightarrow> emitFrames encode nodeName rid fs sends
      | Inr payload \<Rightarrow>
          (case emitFrames encode nodeName rid fs (tl sends) of
             (evs, cancelled) \<Rightarrow> (progressEvent nodeName rid payload # evs, (sends \<noteq> [] \<and> \<not> hd sends) \<or> cancelled)))"

definition handlePull :: "string \<Rightarrow> docker \<Rightarrow> (bytes \<Rightarrow> string + pullRequest) \<Rightarrow> (registryAuth \<Rightarrow> string + bytes) \<Rightarrow>
    (pullProgress \<Rightarrow> string + bytes) \<Rightarrow> bool list \<Rightarrow> agentRequest \<Rightarrow> agentEvent list option" where
  "handlePull nodeName dk decode encodeAuth encode sends req =
     map_option (\<lambda>(calls, progress, code, errMsg).
         fst (emitFrames encode nodeName (rq_request_id req) progress sends) @
         [resultEvent nodeName (rq_request_id req) code errMsg])
       (pullImage dk decode encodeAuth (rq_payload req))"

section \<open>Containers\<close>

definition portOf :: "dockerPort \<Rightarrow> containerPort" where
  "portOf p = \<lparr>cp_ip = dp_ip p, cp_privatePort = dp_private p, cp_publicPort = dp_public p, cp_protocol = dp_type p\<rparr>"

definition summaryOf :: "dockerContainer \<Rightarrow> containerSummary" where
  "summaryOf s = \<lparr>cs_id = dc_id s, cs_names = dc_names s, cs_image = dc_image s, cs_imageId = dc_imageId s,
     cs_command = dc_command s, cs_created = dc_created s, cs_ports = map portOf (dc_ports s), cs_labels = dc_labels s,
     cs_state = dc_state s, cs_status = dc_status s\<rparr>"

definition listContainers :: "docker \<Rightarrow> (bytes \<Rightarrow> string + bool) \<Rightarrow> (containerSummary list \<Rightarrow> string + bytes) \<Rightarrow>
    bytes \<Rightarrow> dockerCall list \<times> reply" where
  "listContainers dk decode encode payload =
     (case (if payload = [] then Inr False else decode payload) of
        Inl msg \<Rightarrow> ([], [], 400, ''invalid containers.list payload: '' @ msg)
      | Inr all \<Rightarrow>
          (case dk_list dk all of
             Inl err \<Rightarrow> ([DList all], [], dockerErrorCode err, de_text err)
           | Inr summaries \<Rightarrow>
               (case encode (map summaryOf summaries) of
                  Inl msg \<Rightarrow> ([DList all], [], 500, msg)
                | Inr bs \<Rightarrow> ([DList all], bs, 200, []))))"

text \<open>
  The ports of a create request. \<^verbatim>\<open>nat.NewPort\<close> is a parameter; the maps stay nil until the first port.
  An error names the port.
\<close>

type_synonym portMaps = "string list option \<times> (string, hostBinding list) gomap option"

fun buildPorts :: "(string \<Rightarrow> string \<Rightarrow> string + string) \<Rightarrow> portBinding list \<Rightarrow> portMaps \<Rightarrow> string + portMaps" where
  "buildPorts newPort [] maps = Inr maps"
| "buildPorts newPort (p # ps) maps =
     (let proto = (if pb_protocol p = [] then ''tcp'' else pb_protocol p) in
      case newPort proto (pb_containerPort p) of
        Inl msg \<Rightarrow> Inl (''containers.create: invalid port '' @ pb_containerPort p @ '': '' @ msg)
      | Inr port \<Rightarrow>
          (let exposed = (case fst maps of None \<Rightarrow> [] | Some e \<Rightarrow> e);
               bindings = (case fst maps of None \<Rightarrow> [] | Some _ \<Rightarrow> (case snd maps of None \<Rightarrow> [] | Some b \<Rightarrow> b));
               exposed' = (if port \<in> set exposed then exposed else exposed @ [port]);
               bindings' = (if pb_hostIp p \<noteq> [] \<or> pb_hostPort p \<noteq> []
                 then mput port ((case mget bindings port of None \<Rightarrow> [] | Some bs \<Rightarrow> bs) @
                        [\<lparr>hb_ip = pb_hostIp p, hb_port = pb_hostPort p\<rparr>]) bindings
                 else bindings)
           in buildPorts newPort ps (Some exposed', Some bindings')))"

definition createContainer :: "docker \<Rightarrow> (string \<Rightarrow> string \<Rightarrow> string + string) \<Rightarrow> (string \<Rightarrow> int \<Rightarrow> string option) \<Rightarrow>
    (bytes \<Rightarrow> string + containerCreateRequest) \<Rightarrow> (containerCreateResult \<Rightarrow> string + bytes) \<Rightarrow> bytes \<Rightarrow>
    dockerCall list \<times> reply" where
  "createContainer dk newPort validateRestart decode encode payload =
     (case decode payload of
        Inl msg \<Rightarrow> ([], [], 400, ''invalid containers.create payload: '' @ msg)
      | Inr cr \<Rightarrow>
          if cc_image cr = [] then ([], [], 400, ''containers.create: image must not be empty'')
          else (case buildPorts newPort (cc_ports cr) (None, None) of
            Inl msg \<Rightarrow> ([], [], 400, msg)
          | Inr (exposed, bindings) \<Rightarrow>
              (case (if cc_restartPolicy cr = [] then None else validateRestart (cc_restartPolicy cr) (cc_maxRetryCount cr)) of
                 Some msg \<Rightarrow> ([], [], 400, ''containers.create: '' @ msg)
               | None \<Rightarrow>
                   (let cfg = \<lparr>cfg_image = cc_image cr, cfg_cmd = cc_cmd cr, cfg_entrypoint = cc_entrypoint cr,
                          cfg_env = cc_env cr, cfg_workingDir = cc_workingDir cr, cfg_labels = cc_labels cr,
                          cfg_exposed = exposed, cfg_tty = False\<rparr>;
                        hostCfg = \<lparr>hc_binds = cc_binds cr, hc_bindings = bindings, hc_networkMode = cc_networkMode cr,
                          hc_pidMode = cc_pidMode cr, hc_restartName = cc_restartPolicy cr,
                          hc_restartMax = cc_maxRetryCount cr, hc_autoRemove = cc_autoRemove cr\<rparr>;
                        created = DCreate cfg hostCfg (cc_name cr)
                    in case dk_create dk cfg hostCfg (cc_name cr) of
                         Inl err \<Rightarrow> ([created], [], dockerErrorCode err, de_text err)
                       | Inr (cid, warnings) \<Rightarrow>
                           (case dk_start dk cid of
                              Some err \<Rightarrow> ([created, DStart cid], [], dockerErrorCode err,
                                ''container '' @ cid @ '' created but start failed: '' @ de_text err)
                            | None \<Rightarrow>
                                (case encode \<lparr>cre_id = cid, cre_warnings = warnings\<rparr> of
                                   Inl msg \<Rightarrow> ([created, DStart cid], [], 500, msg)
                                 | Inr bs \<Rightarrow> ([created, DStart cid], bs, 201, [])))))))"

text \<open>
  The flattened port map. The number and the protocol of a \<^verbatim>\<open>nat.Port\<close> and \<^verbatim>\<open>nat.ParsePort\<close> are
  parameters; the map is in the order in which it is ranged over.
\<close>

definition projectPort :: "(string \<Rightarrow> int) \<Rightarrow> (string \<Rightarrow> string) \<Rightarrow> (string \<Rightarrow> int option) \<Rightarrow> string \<times> hostBinding list \<Rightarrow>
    containerPort list" where
  "projectPort portInt portProto parsePort = (\<lambda>(port, hostBindings).
     (let private = word_of_int (portInt port) in
      if hostBindings = [] then [\<lparr>cp_ip = [], cp_privatePort = private, cp_publicPort = 0, cp_protocol = portProto port\<rparr>]
      else map (\<lambda>b. \<lparr>cp_ip = hb_ip b, cp_privatePort = private,
             cp_publicPort = (case parsePort (hb_port b) of None \<Rightarrow> 0 | Some public \<Rightarrow> word_of_int public),
             cp_protocol = portProto port\<rparr>) hostBindings))"

definition projectPortMap :: "(string \<Rightarrow> int) \<Rightarrow> (string \<Rightarrow> string) \<Rightarrow> (string \<Rightarrow> int option) \<Rightarrow> (string, hostBinding list) gomap \<Rightarrow>
    containerPort list" where
  "projectPortMap portInt portProto parsePort pm = concat (map (projectPort portInt portProto parsePort) pm)"

definition projectNetworks :: "networkSettings option \<Rightarrow> (string, string) gomap" where
  "projectNetworks settings =
     (case settings of
        None \<Rightarrow> []
      | Some s \<Rightarrow> [(name, ip). (name, Some ip) \<leftarrow> ns_networks s, ip \<noteq> []])"

definition noState :: containerState where
  "noState = \<lparr>sta_status = [], sta_running = False, sta_paused = False, sta_restarting = False, sta_oomKilled = False,
     sta_dead = False, sta_pid = 0, sta_exitCode = 0, sta_error = [], sta_startedAt = [], sta_finishedAt = []\<rparr>"

definition detailOf :: "(string \<Rightarrow> int) \<Rightarrow> (string \<Rightarrow> string) \<Rightarrow> (string \<Rightarrow> int option) \<Rightarrow> inspectResponse \<Rightarrow> containerDetail" where
  "detailOf portInt portProto parsePort resp =
     \<lparr>cd_id = ir_id resp, cd_name = ir_name resp,
      cd_image = (case ir_config resp of None \<Rightarrow> [] | Some c \<Rightarrow> cfg_image c),
      cd_imageId = ir_image resp, cd_created = ir_created resp,
      cd_state = (case ir_state resp of None \<Rightarrow> noState | Some s \<Rightarrow> s),
      cd_restartCount = ir_restartCount resp,
      cd_cmd = (case ir_config resp of None \<Rightarrow> [] | Some c \<Rightarrow> cfg_cmd c),
      cd_entrypoint = (case ir_config resp of None \<Rightarrow> [] | Some c \<Rightarrow> cfg_entrypoint c),
      cd_env = (case ir_config resp of None \<Rightarrow> [] | Some c \<Rightarrow> cfg_env c),
      cd_workingDir = (case ir_config resp of None \<Rightarrow> [] | Some c \<Rightarrow> cfg_workingDir c),
      cd_labels = (case ir_config resp of None \<Rightarrow> [] | Some c \<Rightarrow> cfg_labels c),
      cd_networks = projectNetworks (ir_network resp),
      cd_ports = (case ir_network resp of None \<Rightarrow> [] | Some s \<Rightarrow> projectPortMap portInt portProto parsePort (ns_ports s)),
      cd_binds = (case ir_hostConfig resp of None \<Rightarrow> [] | Some h \<Rightarrow> hc_binds h),
      cd_restartPolicy = (case ir_hostConfig resp of None \<Rightarrow> [] | Some h \<Rightarrow> hc_restartName h),
      cd_autoRemove = (case ir_hostConfig resp of None \<Rightarrow> False | Some h \<Rightarrow> hc_autoRemove h)\<rparr>"

definition inspectContainer :: "docker \<Rightarrow> (inspectResponse \<Rightarrow> containerDetail) \<Rightarrow> (bytes \<Rightarrow> string + string) \<Rightarrow>
    (containerDetail \<Rightarrow> string + bytes) \<Rightarrow> bytes \<Rightarrow> dockerCall list \<times> reply" where
  "inspectContainer dk project decode encode payload =
     (case decode payload of
        Inl msg \<Rightarrow> ([], [], 400, ''invalid containers.inspect payload: '' @ msg)
      | Inr cid \<Rightarrow>
          if cid = [] then ([], [], 400, ''containers.inspect: id must not be empty'')
          else (case dk_inspect dk cid of
            Inl err \<Rightarrow> ([DInspect cid], [], dockerErrorCode err, de_text err)
          | Inr resp \<Rightarrow>
              (case encode (project resp) of
                 Inl msg \<Rightarrow> ([DInspect cid], [], 500, msg)
               | Inr bs \<Rightarrow> ([DInspect cid], bs, 200, []))))"

text \<open>The four requests that answer 204.\<close>

definition startContainer :: "docker \<Rightarrow> (bytes \<Rightarrow> string + string) \<Rightarrow> bytes \<Rightarrow> dockerCall list \<times> uint32 \<times> string" where
  "startContainer dk decode payload =
     (case decode payload of
        Inl msg \<Rightarrow> ([], 400, ''invalid containers.start payload: '' @ msg)
      | Inr cid \<Rightarrow>
          if cid = [] then ([], 400, ''containers.start: id must not be empty'')
          else (case dk_start dk cid of
            Some err \<Rightarrow> ([DStart cid], dockerErrorCode err, de_text err)
          | None \<Rightarrow> ([DStart cid], 204, [])))"

definition stopContainer :: "docker \<Rightarrow> (bytes \<Rightarrow> string + containerStopRequest) \<Rightarrow> bytes \<Rightarrow> dockerCall list \<times> uint32 \<times> string" where
  "stopContainer dk decode payload =
     (case decode payload of
        Inl msg \<Rightarrow> ([], 400, ''invalid containers.stop payload: '' @ msg)
      | Inr sr \<Rightarrow>
          if st_id sr = [] then ([], 400, ''containers.stop: id must not be empty'')
          else (case dk_stop dk (st_id sr) (st_timeout sr) of
            Some err \<Rightarrow> ([DStop (st_id sr) (st_timeout sr)], dockerErrorCode err, de_text err)
          | None \<Rightarrow> ([DStop (st_id sr) (st_timeout sr)], 204, [])))"

definition restartContainer :: "docker \<Rightarrow> (bytes \<Rightarrow> string + containerStopRequest) \<Rightarrow> bytes \<Rightarrow> dockerCall list \<times> uint32 \<times> string" where
  "restartContainer dk decode payload =
     (case decode payload of
        Inl msg \<Rightarrow> ([], 400, ''invalid containers.restart payload: '' @ msg)
      | Inr sr \<Rightarrow>
          if st_id sr = [] then ([], 400, ''containers.restart: id must not be empty'')
          else (case dk_restart dk (st_id sr) (st_timeout sr) of
            Some err \<Rightarrow> ([DRestart (st_id sr) (st_timeout sr)], dockerErrorCode err, de_text err)
          | None \<Rightarrow> ([DRestart (st_id sr) (st_timeout sr)], 204, [])))"

definition removeContainer :: "docker \<Rightarrow> (bytes \<Rightarrow> string + containerRemoveRequest) \<Rightarrow> bytes \<Rightarrow> dockerCall list \<times> uint32 \<times> string" where
  "removeContainer dk decode payload =
     (case decode payload of
        Inl msg \<Rightarrow> ([], 400, ''invalid containers.remove payload: '' @ msg)
      | Inr rr \<Rightarrow>
          if cr_id rr = [] then ([], 400, ''containers.remove: id must not be empty'')
          else (case dk_remove dk (cr_id rr) (cr_force rr) (cr_removeVolumes rr) of
            Some err \<Rightarrow> ([DRemove (cr_id rr) (cr_force rr) (cr_removeVolumes rr)], dockerErrorCode err, de_text err)
          | None \<Rightarrow> ([DRemove (cr_id rr) (cr_force rr) (cr_removeVolumes rr)], 204, [])))"

section \<open>Logs\<close>

definition newline :: char where
  "newline = CHR 10"

definition carriage :: char where
  "carriage = CHR 13"

definition maxLogLineBytes :: nat where
  "maxLogLineBytes = 64 * 1024"

record logLineWriter =
  lw_stream :: string
  lw_buf :: bytes

definition trimCR :: "bytes \<Rightarrow> bytes" where
  "trimCR line = (if line \<noteq> [] \<and> last line = carriage then butlast line else line)"

definition emitLine :: "string \<Rightarrow> bytes \<Rightarrow> logFrame" where
  "emitLine stream line = \<lparr>lf_stream = stream, lf_line = trimCR line\<rparr>"

function emitLines :: "string \<Rightarrow> bytes \<Rightarrow> logFrame list \<times> bytes" where
  "emitLines stream buf =
     (case indexByte buf newline of
        None \<Rightarrow> ([], buf)
      | Some i \<Rightarrow> (case emitLines stream (drop (i + 1) buf) of
                    (fs, rest) \<Rightarrow> (emitLine stream (take i buf) # fs, rest)))"
  by pat_completeness auto
termination by (relation "measure (\<lambda>(stream, buf). length buf)") (auto dest: indexByte_Some)

declare emitLines.simps [simp del]

definition writeLog :: "bytes \<Rightarrow> logLineWriter \<Rightarrow> logFrame list \<times> logLineWriter" where
  "writeLog p w =
     (case emitLines (lw_stream w) (lw_buf w @ p) of
        (fs, buf) \<Rightarrow>
          if maxLogLineBytes \<le> length buf then (fs @ [emitLine (lw_stream w) buf], w\<lparr>lw_buf := []\<rparr>)
          else (fs, w\<lparr>lw_buf := buf\<rparr>))"

definition flushLog :: "logLineWriter \<Rightarrow> logFrame list" where
  "flushLog w = (if lw_buf w = [] then [] else [emitLine (lw_stream w) (lw_buf w)])"

text \<open>The writes to the two writers, a flag marking those to standard error, and the flushes at the end.\<close>

fun copyLogs :: "(bool \<times> bytes) list \<Rightarrow> logLineWriter \<Rightarrow> logLineWriter \<Rightarrow> logFrame list" where
  "copyLogs [] out err = flushLog out @ flushLog err"
| "copyLogs ((toErr, p) # ws) out err =
     (if toErr then (case writeLog p err of (fs, err') \<Rightarrow> fs @ copyLogs ws out err')
      else (case writeLog p out of (fs, out') \<Rightarrow> fs @ copyLogs ws out' err))"

text \<open>
  \<^verbatim>\<open>io.Copy\<close> writes what it reads to standard output; \<^verbatim>\<open>stdcopy.StdCopy\<close> is a parameter that splits
  what is read into writes to the two writers and returns its error, absent at the end of the stream.
\<close>

definition containerLogs :: "docker \<Rightarrow> (logSource \<Rightarrow> (bool \<times> bytes) list \<times> string option) \<Rightarrow>
    (bytes \<Rightarrow> string + containerLogsRequest) \<Rightarrow> (logFrame list \<Rightarrow> bool) \<Rightarrow> bytes \<Rightarrow>
    dockerCall list \<times> logFrame list \<times> uint32 \<times> string" where
  "containerLogs dk stdCopy decode ctxDone payload =
     (case decode payload of
        Inl msg \<Rightarrow> ([], [], 400, ''invalid containers.logs payload: '' @ msg)
      | Inr lr \<Rightarrow>
          if cl_id lr = [] then ([], [], 400, ''containers.logs: id must not be empty'')
          else (case dk_inspect dk (cl_id lr) of
            Inl err \<Rightarrow> ([DInspect (cl_id lr)], [], dockerErrorCode err, de_text err)
          | Inr inspect \<Rightarrow>
              (let tty = (case ir_config inspect of None \<Rightarrow> False | Some c \<Rightarrow> cfg_tty c);
                   calls = [DInspect (cl_id lr), DLogs lr]
               in case dk_logs dk lr of
                 Inl err \<Rightarrow> (calls, [], dockerErrorCode err, de_text err)
               | Inr src \<Rightarrow>
                   (let (writes, copyErr) = (if tty then (map (Pair False) (ls_reads src), ls_err src) else stdCopy src);
                        frames = copyLogs writes \<lparr>lw_stream = ''stdout'', lw_buf = []\<rparr> \<lparr>lw_stream = ''stderr'', lw_buf = []\<rparr>
                    in case copyErr of
                         Some msg \<Rightarrow> if ctxDone frames then (calls, frames, 200, []) else (calls, frames, 502, msg)
                       | None \<Rightarrow> (calls, frames, 200, [])))))"

text \<open>
  The events of \<^verbatim>\<open>handleLogs\<close>. Its context is done when the caller's is or when a send of a frame failed.
\<close>

definition handleLogs :: "string \<Rightarrow> docker \<Rightarrow> (logSource \<Rightarrow> (bool \<times> bytes) list \<times> string option) \<Rightarrow>
    (bytes \<Rightarrow> string + containerLogsRequest) \<Rightarrow> (logFrame \<Rightarrow> string + bytes) \<Rightarrow> bool \<Rightarrow> bool list \<Rightarrow> agentRequest \<Rightarrow>
    agentEvent list" where
  "handleLogs nodeName dk stdCopy decode encode callerDone sends req =
     (let emit = (\<lambda>fs. emitFrames encode nodeName (rq_request_id req) fs sends) in
      case containerLogs dk stdCopy decode (\<lambda>fs. callerDone \<or> snd (emit fs)) (rq_payload req) of
        (calls, frames, code, errMsg) \<Rightarrow> fst (emit frames) @ [resultEvent nodeName (rq_request_id req) code errMsg])"

section \<open>The lines of a log\<close>

text \<open>
  Reference: the lines of a text, each without a final carriage return; the text after the last
  newline is a line only when it is not empty.
\<close>

definition logLines :: "string \<Rightarrow> bytes \<Rightarrow> logFrame list" where
  "logLines stream text =
     (let parts = splitOn newline text in
      map (emitLine stream) (butlast parts @ (if last parts = [] then [] else [last parts])))"

lemma emitLines_eq:
  "emitLines stream buf = (map (emitLine stream) (butlast (splitOn newline buf)), last (splitOn newline buf))"
proof (induction stream buf rule: emitLines.induct)
  case (1 stream buf)
  show ?case
  proof (cases "indexByte buf newline")
    case None
    then have "newline \<notin> set buf" by (simp add: indexByte_None)
    with None show ?thesis by (simp add: emitLines.simps [of stream buf] splitOn_no_sep)
  next
    case (Some i)
    from indexByte_Some [OF this] have buf: "buf = take i buf @ newline # drop (i + 1) buf"
      and i: "newline \<notin> set (take i buf)" using id_take_nth_drop [of i buf] by auto
    then have "splitOn newline buf = take i buf # splitOn newline (drop (i + 1) buf)"
      using splitOn_append [OF i, of "drop (i + 1) buf"] by simp
    with 1 [OF Some] Some show ?thesis by (simp add: emitLines.simps [of stream buf])
  qed
qed


lemma splitOn_absorb:
  "splitOn c (xs @ ys) = butlast (splitOn c xs) @ splitOn c (last (splitOn c xs) @ ys)"
  by (induction c xs rule: splitOn.induct) (auto simp: neq_Nil_conv split: list.splits)

definition shortLines :: "bytes \<Rightarrow> bool" where
  "shortLines text \<longleftrightarrow> (\<forall>part \<in> set (splitOn newline text). length part < maxLogLineBytes)"

lemma splitOn_prefix: "c \<notin> set xs \<Longrightarrow> splitOn c (xs @ ys) = (xs @ hd (splitOn c ys)) # tl (splitOn c ys)"
  by (induction xs) auto

lemma last_splitOn: "c \<notin> set (last (splitOn c xs))"
  by (rule splitOn_parts [OF last_in_set]) simp

lemma shortLines_absorb:
  assumes "shortLines (buf @ p @ rest)"
  shows "length (last (splitOn newline (buf @ p))) < maxLogLineBytes"
    and "shortLines (last (splitOn newline (buf @ p)) @ rest)"
proof -
  let ?l = "last (splitOn newline (buf @ p))"
  from assms have s: "\<forall>part \<in> set (splitOn newline (?l @ rest)). length part < maxLogLineBytes"
    using splitOn_absorb [of newline "buf @ p" rest] by (simp add: shortLines_def)
  then show "shortLines (?l @ rest)" by (simp add: shortLines_def)
  from s splitOn_prefix [OF last_splitOn, of newline "buf @ p" rest]
  show "length ?l < maxLogLineBytes" by simp
qed

lemma writeLog_short:
  assumes "shortLines (lw_buf w @ p @ rest)"
  shows "writeLog p w = (map (emitLine (lw_stream w)) (butlast (splitOn newline (lw_buf w @ p))),
    w\<lparr>lw_buf := last (splitOn newline (lw_buf w @ p))\<rparr>)"
  using shortLines_absorb(1) [OF assms] by (simp add: writeLog_def emitLines_eq)

lemma logLines_absorb:
  "logLines stream (buf @ p @ rest) =
     map (emitLine stream) (butlast (splitOn newline (buf @ p))) @ logLines stream (last (splitOn newline (buf @ p)) @ rest)"
  using splitOn_absorb [of newline "buf @ p" rest] by (simp add: logLines_def butlast_append Let_def)

lemma flushLog_lines: "newline \<notin> set (lw_buf w) \<Longrightarrow> flushLog w = logLines (lw_stream w) (lw_buf w)"
  by (simp add: flushLog_def logLines_def splitOn_no_sep)

text \<open>The bytes written to one of the two channels.\<close>

definition channel :: "bool \<Rightarrow> (bool \<times> bytes) list \<Rightarrow> bytes" where
  "channel toErr ws = concat [p. (e, p) \<leftarrow> ws, e = toErr]"

lemma channel_simps [simp]:
  "channel b [] = []"
  "channel b ((e, p) # ws) = (if e = b then p else []) @ channel b ws"
  by (simp_all add: channel_def)

definition framesOf :: "string \<Rightarrow> logFrame list \<Rightarrow> logFrame list" where
  "framesOf stream fs = filter (\<lambda>f. lf_stream f = stream) fs"

lemma framesOf_append [simp]: "framesOf s (xs @ ys) = framesOf s xs @ framesOf s ys"
  by (simp add: framesOf_def)

lemma framesOf_emit [simp]: "framesOf s (map (emitLine s') ls) = (if s = s' then map (emitLine s') ls else [])"
  by (induction ls) (auto simp: framesOf_def emitLine_def)

lemma framesOf_flush [simp]: "framesOf s (flushLog w) = (if s = lw_stream w then flushLog w else [])"
  by (simp add: flushLog_def framesOf_def emitLine_def)

lemma copyLogs_channels:
  assumes "lw_stream out \<noteq> lw_stream err" "newline \<notin> set (lw_buf out)" "newline \<notin> set (lw_buf err)"
    and "shortLines (lw_buf out @ channel False ws)" "shortLines (lw_buf err @ channel True ws)"
  shows "framesOf (lw_stream out) (copyLogs ws out err) = logLines (lw_stream out) (lw_buf out @ channel False ws) \<and>
    framesOf (lw_stream err) (copyLogs ws out err) = logLines (lw_stream err) (lw_buf err @ channel True ws)"
  using assms
proof (induction ws out err rule: copyLogs.induct)
  case (1 out err)
  then show ?case by (simp flip: flushLog_lines)
next
  case (2 toErr p ws out err)
  show ?case
  proof (cases toErr)
    case True
    note w = writeLog_short [of err p "channel True ws"]
    from 2(1) [OF True w [symmetric]] 2(3-) True w shortLines_absorb(2) [of "lw_buf err" p "channel True ws"] show ?thesis
      by (simp add: last_splitOn logLines_absorb)
  next
    case False
    note w = writeLog_short [of out p "channel False ws"]
    from 2(2) [OF False w [symmetric]] 2(3-) False w shortLines_absorb(2) [of "lw_buf out" p "channel False ws"] show ?thesis
      by (simp add: last_splitOn logLines_absorb)
  qed
qed

lemma writeLog_bound: "length (lw_buf (snd (writeLog p w))) < maxLogLineBytes"
  by (simp add: writeLog_def maxLogLineBytes_def split: prod.splits)

section \<open>Properties\<close>


definition demo_log :: "(bool \<times> bytes) list" where
  "demo_log = [(False, ''a'' @ [newline] @ ''b''), (True, ''x''), (False, ''c'' @ [carriage, newline])]"


end
