(* ===== verification/AgentSession.thy ===== *)
theory AgentSession
  imports AgentDocker AgentConn
begin

text \<open>
  The agent's end of the Control stream, \<^verbatim>\<open>pkg/agent/agent.go\<close>, with the routing of upload chunks of
  \<^verbatim>\<open>pkg/agent/fs.go\<close> and the table of single-shot methods of \<^verbatim>\<open>pkg/agent/commands.go\<close>: the supervisor and its
  backoff, one session, and the receive loop with the goroutines it starts as interleaved steps.
\<close>

section \<open>Reconnecting\<close>

text \<open>Durations are in nanoseconds. The random part of a delay is an input below the bound of \<^verbatim>\<open>rand.Int63n\<close>.\<close>

definition reconnectBaseDelay :: int where
  "reconnectBaseDelay = 1000000000"

definition reconnectMaxDelay :: int where
  "reconnectMaxDelay = 30000000000"

text \<open>The struct \<^verbatim>\<open>backoff\<close> has one field, the current delay \<^verbatim>\<open>cur\<close>.\<close>

type_synonym backoff = int

definition backoff_cur :: "backoff \<Rightarrow> backoff" where
  "backoff_cur cur =
     (if cur < reconnectBaseDelay then reconnectBaseDelay
      else if reconnectMaxDelay < cur * 2 then reconnectMaxDelay else cur * 2)"

definition backoff_bound :: "backoff \<Rightarrow> int" where
  "backoff_bound cur = backoff_cur cur div 5 + 1"

definition backoff_next :: "int \<Rightarrow> backoff \<Rightarrow> backoff \<times> int" where
  "backoff_next jitter cur = (backoff_cur cur, backoff_cur cur - jitter)"

definition backoff_reset :: backoff where
  "backoff_reset = 0"

text \<open>
  One session: whether the stream opened and whether the hello was sent, then what the \<^verbatim>\<open>select\<close> takes in
  turn. The result is whether it connected, whether it ended with an error, and the events it sent.
\<close>

datatype sessionTurn = STick bool | SRecvEnd bool | SCtxDone

fun sessionLoop :: "string \<Rightarrow> sessionTurn list \<Rightarrow> (bool \<times> agentEvent list) option" where
  "sessionLoop nodeName [] = None"
| "sessionLoop nodeName (SCtxDone # ts) = Some (False, [])"
| "sessionLoop nodeName (SRecvEnd failed # ts) = Some (failed, [])"
| "sessionLoop nodeName (STick ok # ts) =
     (if \<not> ok then Some (True, [])
      else map_option (\<lambda>(err, evs). (err, \<lparr>ev_agent_id = nodeName, ev_kind = EvHeartbeat\<rparr> # evs)) (sessionLoop nodeName ts))"

definition runSession :: "string \<Rightarrow> bool \<Rightarrow> bool \<Rightarrow> sessionTurn list \<Rightarrow> (bool \<times> bool \<times> agentEvent list) option" where
  "runSession nodeName opened helloOk turns =
     (if \<not> opened then Some (False, True, [])
      else if \<not> helloOk then Some (False, True, [])
      else map_option (\<lambda>(err, evs). (True, err, \<lparr>ev_agent_id = nodeName, ev_kind = EvHello []\<rparr> # evs)) (sessionLoop nodeName turns))"

text \<open>
  The supervisor. An entry is one session: what \<^verbatim>\<open>runSession\<close> meets, whether the context was cancelled
  when it ended, the random part of the delay, and whether the context was cancelled during the delay.
  The result is the delays waited for and the events sent; \<open>None\<close> while it still runs.
\<close>

record sessionRun =
  se_opened :: bool
  se_helloOk :: bool
  se_turns :: "sessionTurn list"
  se_ctxDone :: bool
  se_jitter :: int
  se_stopped :: bool

fun Start :: "string \<Rightarrow> sessionRun list \<Rightarrow> backoff \<Rightarrow> (int list \<times> agentEvent list) option" where
  "Start nodeName [] bo = None"
| "Start nodeName (s # ss) bo =
     (case runSession nodeName (se_opened s) (se_helloOk s) (se_turns s) of
        None \<Rightarrow> None
      | Some (connected, failed, evs) \<Rightarrow>
          if se_ctxDone s then Some ([], evs)
          else (case backoff_next (se_jitter s) (if connected then backoff_reset else bo) of
            (bo', delay) \<Rightarrow>
              if se_stopped s then Some ([delay], evs)
              else map_option (\<lambda>(ds, evs'). (delay # ds, evs @ evs')) (Start nodeName ss bo')))"

definition se_connected :: "sessionRun \<Rightarrow> bool" where
  "se_connected s \<longleftrightarrow> se_opened s \<and> se_helloOk s"

lemma runSession_connected:
  "runSession nodeName (se_opened s) (se_helloOk s) turns = Some (c, failed, evs) \<Longrightarrow> c = se_connected s"
  by (auto simp: runSession_def se_connected_def split: if_splits)

section \<open>Single-shot requests\<close>

text \<open>The host the agent runs on: the operating system and the Docker client, and the JSON codecs.\<close>

record agentHost =
  ah_nodeName :: string
  ah_dataDir :: string
  ah_docker :: docker
  ah_stat :: "string \<Rightarrow> fsErr + fileInfo"
  ah_readDir :: "string \<Rightarrow> fsErr + (fsErr + fileInfo) list"
  ah_mkdirAll :: "string \<Rightarrow> fsErr option"
  ah_removeAll :: "string \<Rightarrow> fsErr option"
  ah_newPort :: "string \<Rightarrow> string \<Rightarrow> string + string"
  ah_validateRestart :: "string \<Rightarrow> int \<Rightarrow> string option"
  ah_project :: "inspectResponse \<Rightarrow> containerDetail"

record codecs =
  dec_path :: "bytes \<Rightarrow> string + string"
  dec_remove :: "bytes \<Rightarrow> string + removeRequest"
  dec_list :: "bytes \<Rightarrow> string + bool"
  dec_create :: "bytes \<Rightarrow> string + containerCreateRequest"
  dec_id :: "bytes \<Rightarrow> string + string"
  dec_stop :: "bytes \<Rightarrow> string + containerStopRequest"
  dec_rm :: "bytes \<Rightarrow> string + containerRemoveRequest"
  enc_entry :: "fsEntry \<Rightarrow> string + bytes"
  enc_entries :: "fsEntry list \<Rightarrow> string + bytes"
  enc_images :: "imageSummary list \<Rightarrow> string + bytes"
  enc_removed :: "removeResult \<Rightarrow> string + bytes"
  enc_containers :: "containerSummary list \<Rightarrow> string + bytes"
  enc_created :: "containerCreateResult \<Rightarrow> string + bytes"
  enc_detail :: "containerDetail \<Rightarrow> string + bytes"

datatype hostCall = DockerCall dockerCall | OsCall osCall

definition docker_reply :: "dockerCall list \<times> reply \<Rightarrow> hostCall list \<times> reply" where
  "docker_reply r = (map DockerCall (fst r), snd r)"

definition docker_status :: "dockerCall list \<times> uint32 \<times> string \<Rightarrow> hostCall list \<times> reply" where
  "docker_status r = (map DockerCall (fst r), [], snd r)"

definition os_reply :: "osCall list \<times> reply \<Rightarrow> hostCall list \<times> reply" where
  "os_reply r = (map OsCall (fst r), snd r)"

definition os_status :: "osCall list \<times> uint32 \<times> string \<Rightarrow> hostCall list \<times> reply" where
  "os_status r = (map OsCall (fst r), [], snd r)"

definition serve :: "agentHost \<Rightarrow> codecs \<Rightarrow> string \<Rightarrow> bytes \<Rightarrow> hostCall list \<times> reply" where
  "serve h c m payload =
     (if m = MethodImagesList then docker_reply (listImages (ah_docker h) (enc_images c))
      else if m = MethodImagesRemove then docker_reply (removeImages (ah_docker h) (dec_remove c) (enc_removed c) payload)
      else if m = MethodContainersList then docker_reply (listContainers (ah_docker h) (dec_list c) (enc_containers c) payload)
      else if m = MethodContainersCreate then docker_reply
        (createContainer (ah_docker h) (ah_newPort h) (ah_validateRestart h) (dec_create c) (enc_created c) payload)
      else if m = MethodContainersInspect then docker_reply
        (inspectContainer (ah_docker h) (ah_project h) (dec_id c) (enc_detail c) payload)
      else if m = MethodContainersStart then docker_status (startContainer (ah_docker h) (dec_id c) payload)
      else if m = MethodContainersStop then docker_status (stopContainer (ah_docker h) (dec_stop c) payload)
      else if m = MethodContainersRestart then docker_status (restartContainer (ah_docker h) (dec_stop c) payload)
      else if m = MethodContainersRemove then docker_status (removeContainer (ah_docker h) (dec_rm c) payload)
      else if m = MethodFsStat then os_reply (statPath (ah_dataDir h) (dec_path c) (enc_entry c) (ah_stat h) payload)
      else if m = MethodFsList then os_reply (listDir (ah_dataDir h) (dec_path c) (enc_entries c) (ah_readDir h) payload)
      else if m = MethodFsMkdir then os_status (mkdir (ah_dataDir h) (dec_path c) (ah_stat h) (ah_mkdirAll h) payload)
      else if m = MethodFsRemove then os_status (fs_remove (ah_dataDir h) (dec_path c) (ah_stat h) (ah_removeAll h) payload)
      else ([], [], 501, ''unknown method: '' @ m))"

definition handleRequest :: "agentHost \<Rightarrow> codecs \<Rightarrow> agentRequest \<Rightarrow> hostCall list \<times> agentEvent" where
  "handleRequest h c req =
     (case serve h c (rq_method req) (rq_payload req) of
        (hostCalls, payload, code, errMsg) \<Rightarrow>
          (hostCalls, \<lparr>ev_agent_id = ah_nodeName h,
             ev_kind = EvResult \<lparr>rs_request_id = rq_request_id req, rs_code = code, rs_payload = payload,
               rs_error = errMsg, rs_final = True\<rparr>\<rparr>))"

section \<open>The receive loop and its handlers\<close>

text \<open>
  A handler is a goroutine started for a request. Its number stands for its cancel function or its
  \<^verbatim>\<open>inboundStream\<close>: the values the tables hold. \<open>h_done\<close> is the end of its context, \<open>h_chan\<close> the chunks in
  its channel, \<open>h_read\<close> those it has read. A handler runs, then has sent its result, then has left
  the tables. The generation is the session it was started in; the agent's generation is the
  session whose stream is published, on which every send goes out. \<open>ag_route\<close> is the chunk that
  \<^verbatim>\<open>routeChunk\<close> is delivering, \<open>ag_log\<close> the chunks received so far.
\<close>

datatype handlerKind = HCancellable | HUpload | HPlain

datatype handlerPc = HRunning | HSent | HGone

record handler =
  h_gen :: nat
  h_kind :: handlerKind
  h_req :: agentRequest
  h_done :: bool
  h_pc :: handlerPc
  h_chan :: "(bytes \<times> bool) list"
  h_read :: "(bytes \<times> bool) list"
  h_from :: nat

record agentSt =
  ag_gen :: nat
  ag_cancels :: "(string, nat) gomap"
  ag_inbound :: "(string, nat) gomap"
  ag_handlers :: "handler list"
  ag_route :: "(nat \<times> bytes \<times> bool) option"
  ag_log :: "agentRequestChunk list"
  ag_sent :: "(nat \<times> agentEvent) list"

definition newAgent :: agentSt where
  "newAgent = \<lparr>ag_gen = 0, ag_cancels = [], ag_inbound = [], ag_handlers = [], ag_route = None, ag_log = [], ag_sent = []\<rparr>"

definition inboundCap :: nat where
  "inboundCap = 8"

definition new_handler :: "handlerKind \<Rightarrow> agentRequest \<Rightarrow> agentSt \<Rightarrow> handler" where
  "new_handler k req s = \<lparr>h_gen = ag_gen s, h_kind = k, h_req = req, h_done = False, h_pc = HRunning,
     h_chan = [], h_read = [], h_from = length (ag_log s)\<rparr>"

definition upd_handler :: "nat \<Rightarrow> (handler \<Rightarrow> handler) \<Rightarrow> agentSt \<Rightarrow> agentSt" where
  "upd_handler n f s = s\<lparr>ag_handlers := (ag_handlers s)[n := f (ag_handlers s ! n)]\<rparr>"

definition startCancellable :: "agentRequest \<Rightarrow> agentSt \<Rightarrow> agentSt" where
  "startCancellable req s =
     s\<lparr>ag_cancels := mput (rq_request_id req) (length (ag_handlers s)) (ag_cancels s),
       ag_handlers := ag_handlers s @ [new_handler HCancellable req s]\<rparr>"

definition registerInbound :: "agentRequest \<Rightarrow> agentSt \<Rightarrow> agentSt" where
  "registerInbound req s =
     s\<lparr>ag_inbound := mput (rq_request_id req) (length (ag_handlers s)) (ag_inbound s),
       ag_handlers := ag_handlers s @ [new_handler HUpload req s]\<rparr>"

definition cancelInflight :: "(bytes \<Rightarrow> string + string) \<Rightarrow> agentRequest \<Rightarrow> agentSt \<Rightarrow> agentSt" where
  "cancelInflight decode req s =
     (case decode (rq_payload req) of
        Inl _ \<Rightarrow> s
      | Inr rid \<Rightarrow>
          (case mget (ag_cancels s) rid of
             None \<Rightarrow> s
           | Some n \<Rightarrow> upd_handler n (\<lambda>h. h\<lparr>h_done := True\<rparr>) s))"

definition cancellable :: "string \<Rightarrow> bool" where
  "cancellable m \<longleftrightarrow> m \<in> {MethodImagesPull, MethodFsRead, MethodMetricsScrape, MethodContainersLogs}"

definition startRequest :: "(bytes \<Rightarrow> string + string) \<Rightarrow> agentRequest \<Rightarrow> agentSt \<Rightarrow> agentSt" where
  "startRequest decode req s =
     (if rq_method req = MethodRequestCancel then cancelInflight decode req s
      else if cancellable (rq_method req) then startCancellable req s
      else if rq_method req = MethodFsWrite then registerInbound req s
      else s\<lparr>ag_handlers := ag_handlers s @ [new_handler HPlain req s]\<rparr>)"

text \<open>\<^verbatim>\<open>routeChunk\<close>: the look-up, then the send into the channel or the handler's done signal.\<close>

definition routeChunk :: "agentRequestChunk \<Rightarrow> agentSt \<Rightarrow> agentSt" where
  "routeChunk chunk s =
     (let s = s\<lparr>ag_log := ag_log s @ [chunk]\<rparr> in
      case mget (ag_inbound s) (ck_request_id chunk) of
        None \<Rightarrow> s
      | Some n \<Rightarrow> s\<lparr>ag_route := Some (n, ck_data chunk, ck_last chunk)\<rparr>)"

definition route_send :: "agentSt \<Rightarrow> agentSt option" where
  "route_send s =
     (case ag_route s of
        Some (n, c) \<Rightarrow>
          if length (h_chan (ag_handlers s ! n)) < inboundCap
          then Some ((upd_handler n (\<lambda>h. h\<lparr>h_chan := h_chan h @ [c]\<rparr>) s)\<lparr>ag_route := None\<rparr>) else None
      | None \<Rightarrow> None)"

definition route_done :: "agentSt \<Rightarrow> agentSt option" where
  "route_done s =
     (case ag_route s of
        Some (n, c) \<Rightarrow> if h_pc (ag_handlers s ! n) = HGone then Some (s\<lparr>ag_route := None\<rparr>) else None
      | None \<Rightarrow> None)"

definition receiveCommand :: "(bytes \<Rightarrow> string + string) \<Rightarrow> command \<Rightarrow> agentSt \<Rightarrow> agentSt option" where
  "receiveCommand decode cmd s =
     (if ag_route s \<noteq> None then None
      else Some (case cmd of
        CmdRequest req \<Rightarrow> startRequest decode req s
      | CmdChunk chunk \<Rightarrow> routeChunk chunk s
      | _ \<Rightarrow> s))"

text \<open>What the handlers do: read a chunk, send an event, send the result, and clean up.\<close>

definition handler_read :: "nat \<Rightarrow> agentSt \<Rightarrow> agentSt option" where
  "handler_read n s =
     (if n < length (ag_handlers s) then
        (let h = ag_handlers s ! n in
         case h_chan h of
           c # cs \<Rightarrow> if h_kind h = HUpload \<and> h_pc h = HRunning
             then Some (upd_handler n (\<lambda>h. h\<lparr>h_chan := cs, h_read := h_read h @ [c]\<rparr>) s) else None
         | [] \<Rightarrow> None)
      else None)"

definition agent_send :: "agentEvent \<Rightarrow> bool \<Rightarrow> agentSt \<Rightarrow> agentSt" where
  "agent_send ev ok s = (if ok then s\<lparr>ag_sent := ag_sent s @ [(ag_gen s, ev)]\<rparr> else s)"

definition handler_reply :: "nat \<Rightarrow> agentEvent \<Rightarrow> bool \<Rightarrow> agentSt \<Rightarrow> agentSt option" where
  "handler_reply n ev ok s =
     (if n < length (ag_handlers s) \<and> h_pc (ag_handlers s ! n) = HRunning
      then Some (upd_handler n (\<lambda>h. h\<lparr>h_pc := HSent\<rparr>) (agent_send ev ok s)) else None)"

definition deregisterInbound :: "nat \<Rightarrow> agentSt \<Rightarrow> agentSt" where
  "deregisterInbound n s =
     (let rid = rq_request_id (h_req (ag_handlers s ! n)) in
      if mget (ag_inbound s) rid = Some n then s\<lparr>ag_inbound := mdel rid (ag_inbound s)\<rparr> else s)"

definition handler_exit :: "nat \<Rightarrow> agentSt \<Rightarrow> agentSt option" where
  "handler_exit n s =
     (if n < length (ag_handlers s) \<and> h_pc (ag_handlers s ! n) = HSent
      then Some (upd_handler n (\<lambda>h. h\<lparr>h_pc := HGone, h_done := True\<rparr>)
        (case h_kind (ag_handlers s ! n) of
           HCancellable \<Rightarrow> s\<lparr>ag_cancels := mdel (rq_request_id (h_req (ag_handlers s ! n))) (ag_cancels s)\<rparr>
         | HUpload \<Rightarrow> deregisterInbound n s
         | HPlain \<Rightarrow> s)) else None)"

text \<open>
  A new session: the previous one has returned, so its context, and with it the context of every
  handler started so far, is done; the new stream is published. The previous receive loop has
  ended by then: it is not delivering a chunk.
\<close>

definition setStream :: "agentSt \<Rightarrow> agentSt" where
  "setStream s = s\<lparr>ag_gen := Suc (ag_gen s)\<rparr>"

definition new_session :: "agentSt \<Rightarrow> agentSt" where
  "new_session s = setStream (s\<lparr>ag_handlers := map (\<lambda>h. h\<lparr>h_done := True\<rparr>) (ag_handlers s)\<rparr>)"

inductive agent_step :: "(bytes \<Rightarrow> string + string) \<Rightarrow> agentSt \<Rightarrow> agentSt \<Rightarrow> bool" for decode where
  session: "ag_route s = None \<Longrightarrow> agent_step decode s (new_session s)"
| command: "receiveCommand decode cmd s = Some s' \<Longrightarrow> agent_step decode s s'"
| send: "route_send s = Some s' \<Longrightarrow> agent_step decode s s'"
| drop: "route_done s = Some s' \<Longrightarrow> agent_step decode s s'"
| read: "handler_read n s = Some s' \<Longrightarrow> agent_step decode s s'"
| progress: "n < length (ag_handlers s) \<Longrightarrow> h_pc (ag_handlers s ! n) = HRunning \<Longrightarrow>
    agent_step decode s (agent_send (progressEvent node (rq_request_id (h_req (ag_handlers s ! n))) data) ok s)"
| reply: "handler_reply n ev ok s = Some s' \<Longrightarrow> agent_step decode s s'"
| exit: "handler_exit n s = Some s' \<Longrightarrow> agent_step decode s s'"

inductive agent_reach :: "(bytes \<Rightarrow> string + string) \<Rightarrow> agentSt \<Rightarrow> bool" for decode where
  init: "agent_reach decode newAgent"
| step: "agent_reach decode s \<Longrightarrow> agent_step decode s s' \<Longrightarrow> agent_reach decode s'"

section \<open>Invariant\<close>

text \<open>The chunks received for a handler since it was started.\<close>

definition addressed :: "handler \<Rightarrow> agentRequestChunk list \<Rightarrow> (bytes \<times> bool) list" where
  "addressed h log = [(ck_data c, ck_last c). c \<leftarrow> drop (h_from h) log, ck_request_id c = rq_request_id (h_req h)]"

definition routing :: "agentSt \<Rightarrow> nat \<Rightarrow> (bytes \<times> bool) list" where
  "routing s n = (case ag_route s of Some (m, c) \<Rightarrow> if m = n then [c] else [] | None \<Rightarrow> [])"

definition hid :: "handler \<Rightarrow> string" where
  "hid h = rq_request_id (h_req h)"

definition handler_ok :: "agentSt \<Rightarrow> nat \<Rightarrow> handler \<Rightarrow> bool" where
  "handler_ok s n h \<longleftrightarrow>
     (h_kind h = HCancellable \<and> h_pc h \<noteq> HGone \<longrightarrow> mget (ag_cancels s) (hid h) = Some n) \<and>
     (h_kind h = HUpload \<and> h_pc h \<noteq> HGone \<longrightarrow> mget (ag_inbound s) (hid h) = Some n \<and>
        h_read h @ h_chan h @ routing s n = addressed h (ag_log s)) \<and>
     h_from h \<le> length (ag_log s)"

definition agent_inv :: "agentSt \<Rightarrow> bool" where
  "agent_inv s \<longleftrightarrow>
     (\<forall>n < length (ag_handlers s). handler_ok s n (ag_handlers s ! n)) \<and>
     (\<forall>rid n. mget (ag_inbound s) rid = Some n \<longrightarrow> n < length (ag_handlers s) \<and> hid (ag_handlers s ! n) = rid \<and>
        h_kind (ag_handlers s ! n) = HUpload \<and> h_pc (ag_handlers s ! n) \<noteq> HGone) \<and>
     (\<forall>rid n. mget (ag_cancels s) rid = Some n \<longrightarrow> n < length (ag_handlers s)) \<and>
     (case ag_route s of Some (n, c) \<Rightarrow> n < length (ag_handlers s) \<and> h_kind (ag_handlers s ! n) = HUpload | None \<Rightarrow> True)"

definition unique_ids :: "agentSt \<Rightarrow> bool" where
  "unique_ids s \<longleftrightarrow> distinct (map hid (ag_handlers s))"

lemma unique_idsD:
  "unique_ids s \<Longrightarrow> m < length (ag_handlers s) \<Longrightarrow> n < length (ag_handlers s) \<Longrightarrow>
   hid (ag_handlers s ! m) = hid (ag_handlers s ! n) \<Longrightarrow> m = n"
  by (auto simp: unique_ids_def distinct_conv_nth)

lemma upd_handler_sel [simp]:
  "ag_gen (upd_handler n f s) = ag_gen s" "ag_cancels (upd_handler n f s) = ag_cancels s"
  "ag_inbound (upd_handler n f s) = ag_inbound s" "ag_route (upd_handler n f s) = ag_route s"
  "ag_log (upd_handler n f s) = ag_log s" "ag_sent (upd_handler n f s) = ag_sent s"
  "ag_handlers (upd_handler n f s) = (ag_handlers s)[n := f (ag_handlers s ! n)]"
  by (simp_all add: upd_handler_def)

lemma agent_send_sel [simp]:
  "ag_gen (agent_send ev ok s) = ag_gen s" "ag_cancels (agent_send ev ok s) = ag_cancels s"
  "ag_inbound (agent_send ev ok s) = ag_inbound s" "ag_route (agent_send ev ok s) = ag_route s"
  "ag_log (agent_send ev ok s) = ag_log s" "ag_handlers (agent_send ev ok s) = ag_handlers s"
  by (simp_all add: agent_send_def)

lemma addressed_append:
  "h_from h \<le> length log \<Longrightarrow>
   addressed h (log @ [c]) = addressed h log @ (if ck_request_id c = hid h then [(ck_data c, ck_last c)] else [])"
  by (simp add: addressed_def hid_def)

text \<open>A step changes handlers in place or adds one at the end, so unique ids were unique before it.\<close>

definition same_ids :: "agentSt \<Rightarrow> agentSt \<Rightarrow> bool" where
  "same_ids s s' \<longleftrightarrow> (\<exists>new. map hid (ag_handlers s') = map hid (ag_handlers s) @ new)"

lemma same_ids_unique: "same_ids s s' \<Longrightarrow> unique_ids s' \<Longrightarrow> unique_ids s"
  by (auto simp: same_ids_def unique_ids_def)

lemma map_hid_update:
  assumes "hid h' = hid (hs ! n)"
  shows "map hid (hs[n := h']) = map hid hs"
proof -
  have "map hid (hs[n := h']) = map hid (hs[n := hs ! n])" by (simp only: map_update assms)
  then show ?thesis by simp
qed

lemma hid_upd [simp]:
  "hid (h\<lparr>h_done := d\<rparr>) = hid h" "hid (h\<lparr>h_pc := pc\<rparr>) = hid h" "hid (h\<lparr>h_chan := cs\<rparr>) = hid h"
  "hid (h\<lparr>h_read := rs\<rparr>) = hid h"
  by (simp_all add: hid_def)

lemma same_ids_step: "agent_step decode s s' \<Longrightarrow> same_ids s s'"
  by (induction rule: agent_step.induct)
    (auto simp: same_ids_def new_session_def setStream_def receiveCommand_def startRequest_def cancelInflight_def
      startCancellable_def registerInbound_def routeChunk_def Let_def route_send_def route_done_def handler_read_def
      handler_reply_def handler_exit_def deregisterInbound_def map_hid_update comp_def
      split: if_splits sum.splits option.splits command.splits list.splits handlerKind.splits)

lemma inv_handlers: "agent_inv s \<Longrightarrow> n < length (ag_handlers s) \<Longrightarrow> handler_ok s n (ag_handlers s ! n)"
  by (simp add: agent_inv_def)

text \<open>Preservation. Most steps keep what the invariant says of every handler.\<close>

definition keeps :: "handler \<Rightarrow> handler \<Rightarrow> bool" where
  "keeps h h' \<longleftrightarrow> h_req h' = h_req h \<and> h_kind h' = h_kind h \<and> h_from h' = h_from h \<and>
     (h_pc h' = HGone) = (h_pc h = HGone) \<and> h_read h' @ h_chan h' = h_read h @ h_chan h"

lemma keeps_refl [simp]: "keeps h h"
  by (simp add: keeps_def)

lemma inv_keeps:
  assumes "agent_inv s" "list_all2 keeps (ag_handlers s) (ag_handlers s')"
    and "ag_cancels s' = ag_cancels s" "ag_inbound s' = ag_inbound s" "ag_route s' = ag_route s" "ag_log s' = ag_log s"
  shows "agent_inv s'"
proof -
  from assms(2) have len: "length (ag_handlers s') = length (ag_handlers s)"
    and k: "\<And>n. n < length (ag_handlers s) \<Longrightarrow> keeps (ag_handlers s ! n) (ag_handlers s' ! n)"
    by (auto simp: list_all2_conv_all_nth)
  have "handler_ok s' n (ag_handlers s' ! n)" if "n < length (ag_handlers s')" for n
    using assms(1,3-) k [of n] that len
    by (simp add: agent_inv_def handler_ok_def keeps_def hid_def routing_def addressed_def flip: append_assoc)
  with assms(1,3-) k len show ?thesis
    by (fastforce simp: agent_inv_def keeps_def hid_def split: option.splits)
qed

lemma keeps_upd: "keeps (hs ! n) h \<Longrightarrow> list_all2 keeps hs (hs[n := h])"
  by (cases "n < length hs") (auto simp: list_all2_conv_all_nth nth_list_update)

lemma inv_session: "agent_inv s \<Longrightarrow> agent_inv (new_session s)"
  by (erule inv_keeps) (auto simp: new_session_def setStream_def list_all2_conv_all_nth keeps_def)

lemma inv_upd: "agent_inv s \<Longrightarrow> keeps (ag_handlers s ! n) (f (ag_handlers s ! n)) \<Longrightarrow> agent_inv (upd_handler n f s)"
  by (erule inv_keeps) (auto intro: keeps_upd)

lemma inv_cancelInflight: "agent_inv s \<Longrightarrow> agent_inv (cancelInflight decode req s)"
  by (auto simp: cancelInflight_def keeps_def intro!: inv_upd split: sum.splits option.splits)

lemma inv_read: "agent_inv s \<Longrightarrow> handler_read n s = Some s' \<Longrightarrow> agent_inv s'"
  by (auto simp: handler_read_def Let_def keeps_def intro!: inv_upd split: if_splits list.splits)

lemma inv_send: "agent_inv s \<Longrightarrow> agent_inv (agent_send ev ok s)"
  by (erule inv_keeps) (auto simp: list_all2_conv_all_nth)

lemma inv_reply: "agent_inv s \<Longrightarrow> handler_reply n ev ok s = Some s' \<Longrightarrow> agent_inv s'"
  by (auto simp: handler_reply_def keeps_def intro!: inv_upd inv_send split: if_splits)

text \<open>A new handler: its id is new, so the entries of the others stay.\<close>

lemma inv_start:
  assumes "agent_inv s" "\<And>n. n < length (ag_handlers s) \<Longrightarrow> hid (ag_handlers s ! n) \<noteq> rq_request_id req"
    and "ag_handlers s' = ag_handlers s @ [new_handler k req s]" "ag_route s' = ag_route s" "ag_log s' = ag_log s"
    and "ag_cancels s' = (if k = HCancellable then mput (rq_request_id req) (length (ag_handlers s)) (ag_cancels s) else ag_cancels s)"
    and "ag_inbound s' = (if k = HUpload then mput (rq_request_id req) (length (ag_handlers s)) (ag_inbound s) else ag_inbound s)"
  shows "agent_inv s'"
proof -
  have r: "routing s (length (ag_handlers s)) = []"
    using assms(1) by (auto simp: agent_inv_def routing_def split: option.splits)
  have new: "handler_ok s' (length (ag_handlers s)) (new_handler k req s)"
    using r by (auto simp: handler_ok_def new_handler_def hid_def assms(4-) routing_def addressed_def gomap_simps)
  have old: "handler_ok s' n (ag_handlers s ! n)" if "n < length (ag_handlers s)" for n
    using inv_handlers [OF assms(1) that] assms(2) [OF that]
    by (auto simp: handler_ok_def assms(4-) routing_def gomap_simps)
  show ?thesis
    using assms(1) new old
    by (auto simp: agent_inv_def assms(3-) nth_append less_Suc_eq gomap_simps new_handler_def hid_def split: option.splits)
qed

lemma fresh_id:
  assumes "unique_ids s'" "ag_handlers s' = ag_handlers s @ [new_handler k req s]" "n < length (ag_handlers s)"
  shows "hid (ag_handlers s ! n) \<noteq> rq_request_id req"
  using unique_idsD [OF assms(1), of n "length (ag_handlers s)"] assms(2,3)
  by (auto simp: nth_append new_handler_def hid_def)

lemma inv_startRequest:
  assumes "agent_inv s" "unique_ids (startRequest decode req s)"
  shows "agent_inv (startRequest decode req s)"
proof (cases "rq_method req = MethodRequestCancel")
  case True
  with inv_cancelInflight [OF assms(1)] show ?thesis by (simp add: startRequest_def)
next
  case False
  let ?k = "if cancellable (rq_method req) then HCancellable else if rq_method req = MethodFsWrite then HUpload else HPlain"
  have hs: "ag_handlers (startRequest decode req s) = ag_handlers s @ [new_handler ?k req s]"
    using False by (simp add: startRequest_def startCancellable_def registerInbound_def)
  show ?thesis
    by (rule inv_start [OF assms(1) fresh_id [OF assms(2) hs] hs])
      (use False in \<open>simp_all add: startRequest_def startCancellable_def registerInbound_def\<close>)
qed

lemma inv_routeChunk:
  assumes "agent_inv s" "ag_route s = None"
  shows "agent_inv (routeChunk chunk s)"
proof -
  let ?s = "routeChunk chunk s"
  have sel: "ag_handlers ?s = ag_handlers s" "ag_cancels ?s = ag_cancels s" "ag_inbound ?s = ag_inbound s"
    "ag_log ?s = ag_log s @ [chunk]"
    "ag_route ?s = map_option (\<lambda>n. (n, ck_data chunk, ck_last chunk)) (mget (ag_inbound s) (ck_request_id chunk))"
    using assms(2) by (simp_all add: routeChunk_def Let_def split: option.splits)
  have inb: "\<And>rid n. mget (ag_inbound s) rid = Some n \<Longrightarrow> n < length (ag_handlers s) \<and> hid (ag_handlers s ! n) = rid \<and>
      h_kind (ag_handlers s ! n) = HUpload"
    using assms(1) by (auto simp: agent_inv_def)
  have "handler_ok ?s n (ag_handlers s ! n)" if n: "n < length (ag_handlers s)" for n
  proof -
    note ok = inv_handlers [OF assms(1) n]
    have r: "routing s n = []" using assms(2) by (simp add: routing_def)
    have "routing ?s n = (if ck_request_id chunk = hid (ag_handlers s ! n) then [(ck_data chunk, ck_last chunk)] else [])"
      if "mget (ag_inbound s) (hid (ag_handlers s ! n)) = Some n"
    proof (cases "mget (ag_inbound s) (ck_request_id chunk)")
      case None
      with that show ?thesis by (auto simp: routing_def sel)
    next
      case (Some m)
      with that inb [OF Some] show ?thesis by (auto simp: routing_def sel)
    qed
    with ok r show ?thesis by (auto simp: handler_ok_def sel addressed_append)
  qed
  with assms(1) inb show ?thesis
    by (auto simp: agent_inv_def sel split: option.splits)
qed

lemma inv_route_send:
  assumes "agent_inv s" "route_send s = Some s'"
  shows "agent_inv s'"
proof -
  from assms(2) obtain n c where r: "ag_route s = Some (n, c)"
    and s': "s' = (upd_handler n (\<lambda>h. h\<lparr>h_chan := h_chan h @ [c]\<rparr>) s)\<lparr>ag_route := None\<rparr>"
    by (auto simp: route_send_def split: option.splits if_splits)
  have n: "n < length (ag_handlers s)" using assms(1) r by (auto simp: agent_inv_def)
  have ok: "handler_ok s' m (ag_handlers s' ! m)" if "m < length (ag_handlers s)" for m
    using inv_handlers [OF assms(1) that] n
    by (auto simp: handler_ok_def s' r nth_list_update routing_def addressed_def hid_def)
  show ?thesis
    using assms(1) ok n by (auto simp: agent_inv_def s' nth_list_update hid_def)
qed

lemma inv_route_done:
  assumes "agent_inv s" "route_done s = Some s'"
  shows "agent_inv s'"
proof -
  from assms(2) obtain n c where r: "ag_route s = Some (n, c)" "h_pc (ag_handlers s ! n) = HGone"
    and s': "s' = s\<lparr>ag_route := None\<rparr>"
    by (auto simp: route_done_def split: option.splits if_splits)
  have ok: "handler_ok s' m (ag_handlers s' ! m)" if "m < length (ag_handlers s)" for m
    using inv_handlers [OF assms(1) that] r by (auto simp: handler_ok_def s' routing_def split: if_splits)
  show ?thesis using assms(1) ok by (auto simp: agent_inv_def s')
qed

lemma inv_exit:
  assumes "agent_inv s" "unique_ids s" "handler_exit n s = Some s'"
  shows "agent_inv s'"
proof -
  let ?h = "ag_handlers s ! n"
  from assms(3) have n: "n < length (ag_handlers s)"
    and hs: "ag_handlers s' = (ag_handlers s)[n := ?h\<lparr>h_pc := HGone, h_done := True\<rparr>]"
    and sel: "ag_route s' = ag_route s" "ag_log s' = ag_log s"
      "ag_cancels s' = (if h_kind ?h = HCancellable then mdel (hid ?h) (ag_cancels s) else ag_cancels s)"
      "ag_inbound s' = (if h_kind ?h = HUpload \<and> mget (ag_inbound s) (hid ?h) = Some n then mdel (hid ?h) (ag_inbound s) else ag_inbound s)"
    by (auto simp: handler_exit_def deregisterInbound_def Let_def hid_def split: if_splits handlerKind.splits)
  have inb: "\<And>rid m. mget (ag_inbound s) rid = Some m \<Longrightarrow> m < length (ag_handlers s) \<and> hid (ag_handlers s ! m) = rid \<and>
      h_kind (ag_handlers s ! m) = HUpload \<and> h_pc (ag_handlers s ! m) \<noteq> HGone"
    using assms(1) by (auto simp: agent_inv_def)
  have ok: "handler_ok s' m (ag_handlers s' ! m)" if m: "m < length (ag_handlers s)" for m
  proof (cases "m = n")
    case True
    with n inv_handlers [OF assms(1) n] show ?thesis by (simp add: handler_ok_def hs sel)
  next
    case False
    with unique_idsD [OF assms(2) m n] have "hid (ag_handlers s ! m) \<noteq> hid ?h" by blast
    with False inv_handlers [OF assms(1) m] show ?thesis
      by (auto simp: handler_ok_def hs sel routing_def gomap_simps)
  qed
  have inb': "m < length (ag_handlers s') \<and> hid (ag_handlers s' ! m) = rid \<and> h_kind (ag_handlers s' ! m) = HUpload \<and>
      h_pc (ag_handlers s' ! m) \<noteq> HGone" if "mget (ag_inbound s') rid = Some m" for rid m
    using that inb [of rid m] n by (auto simp: sel hs nth_list_update gomap_simps split: if_splits)
  show ?thesis
    using assms(1) ok inb' n by (auto simp: agent_inv_def sel hs nth_list_update gomap_simps split: option.splits if_splits)
qed

lemma inv_step:
  assumes "agent_inv s" "agent_step decode s s'" "unique_ids s'"
  shows "agent_inv s'"
proof -
  note u = same_ids_unique [OF same_ids_step [OF assms(2)] assms(3)]
  from assms(2) show ?thesis
  proof cases
    case session
    with inv_session [OF assms(1)] show ?thesis by simp
  next
    case (command cmd)
    then have r: "ag_route s = None" by (cases "ag_route s") (simp_all add: receiveCommand_def)
    with command show ?thesis using inv_startRequest [OF assms(1)] inv_routeChunk [OF assms(1) r] assms(1,3)
      by (auto simp: receiveCommand_def split: command.splits)
  next
    case send
    then show ?thesis by (rule inv_route_send [OF assms(1)])
  next
    case drop
    then show ?thesis by (rule inv_route_done [OF assms(1)])
  next
    case (read n)
    then show ?thesis by (rule inv_read [OF assms(1)])
  next
    case progress
    then show ?thesis using inv_send [OF assms(1)] by simp
  next
    case (reply n ev ok)
    then show ?thesis by (rule inv_reply [OF assms(1)])
  next
    case (exit n)
    then show ?thesis by (rule inv_exit [OF assms(1) u])
  qed
qed

lemma inv_reach: "agent_reach decode s \<Longrightarrow> unique_ids s \<Longrightarrow> agent_inv s"
proof (induction rule: agent_reach.induct)
  case init
  show ?case by (simp add: agent_inv_def newAgent_def)
next
  case (step s s')
  then show ?case using inv_step same_ids_unique same_ids_step by blast
qed

section \<open>The backoff\<close>

lemma backoff_cur_range: "reconnectBaseDelay \<le> backoff_cur cur \<and> backoff_cur cur \<le> reconnectMaxDelay"
  by (simp add: backoff_cur_def reconnectBaseDelay_def reconnectMaxDelay_def)

lemma backoff_delay_range:
  assumes "0 \<le> jitter" "jitter < backoff_bound cur"
  shows "backoff_cur cur * 4 div 5 \<le> snd (backoff_next jitter cur) \<and> snd (backoff_next jitter cur) \<le> reconnectMaxDelay"
  using assms backoff_cur_range [of cur] by (simp add: backoff_next_def backoff_bound_def)

section \<open>Properties\<close>

text \<open>
  (C30) While no two requests share an id, a command reaches the handler it names. In every reachable
  state a \<^verbatim>\<open>request.cancel\<close> for a streaming request that has not left ends that handler's context and
  changes nothing else; an upload handler has read, has in its channel or is being handed exactly the
  chunks received for its request since it started, in order; and a receive loop that is delivering
  a chunk is never stuck: it can send, or see the handler gone, or the handler can read or leave.
\<close>

theorem agent_routes_by_id:
  assumes "agent_reach decode s" "unique_ids s"
  shows "(\<forall>n < length (ag_handlers s). \<forall>req. h_kind (ag_handlers s ! n) = HCancellable \<and> h_pc (ag_handlers s ! n) \<noteq> HGone \<and>
       rq_method req = MethodRequestCancel \<and> decode (rq_payload req) = Inr (rq_request_id (h_req (ag_handlers s ! n))) \<longrightarrow>
       startRequest decode req s = upd_handler n (\<lambda>h. h\<lparr>h_done := True\<rparr>) s) \<and>
    (\<forall>n < length (ag_handlers s). h_kind (ag_handlers s ! n) = HUpload \<and> h_pc (ag_handlers s ! n) \<noteq> HGone \<longrightarrow>
       h_read (ag_handlers s ! n) @ h_chan (ag_handlers s ! n) @ routing s n = addressed (ag_handlers s ! n) (ag_log s)) \<and>
    (\<forall>n c. ag_route s = Some (n, c) \<longrightarrow>
       route_send s \<noteq> None \<or> route_done s \<noteq> None \<or> handler_read n s \<noteq> None \<or> handler_exit n s \<noteq> None)"
proof -
  note inv = inv_reach [OF assms]
  have "startRequest decode req s = upd_handler n (\<lambda>h. h\<lparr>h_done := True\<rparr>) s"
    if "n < length (ag_handlers s)" "h_kind (ag_handlers s ! n) = HCancellable" "h_pc (ag_handlers s ! n) \<noteq> HGone"
      "rq_method req = MethodRequestCancel" "decode (rq_payload req) = Inr (rq_request_id (h_req (ag_handlers s ! n)))" for n req
    using inv_handlers [OF inv that(1)] that(2-) by (simp add: handler_ok_def startRequest_def cancelInflight_def hid_def)
  moreover have "route_send s \<noteq> None \<or> route_done s \<noteq> None \<or> handler_read n s \<noteq> None \<or> handler_exit n s \<noteq> None"
    if r: "ag_route s = Some (n, c)" for n c
  proof -
    have n: "n < length (ag_handlers s)" "h_kind (ag_handlers s ! n) = HUpload" using inv r by (auto simp: agent_inv_def)
    show ?thesis
    proof (cases "h_pc (ag_handlers s ! n)")
      case HRunning
      with n r show ?thesis
        by (auto simp: route_send_def handler_read_def Let_def inboundCap_def split: list.splits)
    qed (use n r in \<open>simp_all add: handler_exit_def route_done_def\<close>)
  qed
  ultimately show ?thesis using inv_handlers [OF inv] by (simp add: handler_ok_def)
qed

definition demo_upload_req :: agentRequest where
  "demo_upload_req = \<lparr>rq_request_id = ''1'', rq_method = ''fs.write'', rq_payload = []\<rparr>"

definition demo_chunk :: agentRequestChunk where
  "demo_chunk = \<lparr>ck_request_id = ''1'', ck_data = ''hi'', ck_last = True\<rparr>"

lemmas agent_eval = newAgent_def new_session_def setStream_def receiveCommand_def startRequest_def cancellable_def method_defs
  registerInbound_def startCancellable_def new_handler_def routeChunk_def route_send_def upd_handler_def inboundCap_def Let_def

theorem agent_routes_by_id_witness:
  "\<exists>s. agent_reach (\<lambda>_. Inl []) s \<and> unique_ids s \<and> length (ag_handlers s) = 1 \<and>
     h_read (ag_handlers s ! 0) @ h_chan (ag_handlers s ! 0) @ routing s 0 = addressed (ag_handlers s ! 0) (ag_log s)"
proof -
  let ?d = "\<lambda>_. Inl []"
  define s1 where "s1 = new_session newAgent"
  define s2 where "s2 = startRequest ?d demo_upload_req s1"
  define s3 where "s3 = routeChunk demo_chunk s2"
  note ev = s1_def s2_def s3_def agent_eval demo_upload_req_def demo_chunk_def
  have "agent_step ?d newAgent s1" unfolding s1_def by (rule agent_step.session) (simp add: newAgent_def)
  moreover have "agent_step ?d s1 s2" by (rule agent_step.command [of _ "CmdRequest demo_upload_req"]) (simp add: ev)
  moreover have "agent_step ?d s2 s3" by (rule agent_step.command [of _ "CmdChunk demo_chunk"]) (simp add: ev)
  ultimately have r: "agent_reach ?d s3" by (meson agent_reach.intros)
  have h: "length (ag_handlers s3) = 1" "unique_ids s3"
    "h_kind (ag_handlers s3 ! 0) = HUpload" "h_pc (ag_handlers s3 ! 0) \<noteq> HGone"
    by (simp_all add: ev unique_ids_def)
  with agent_routes_by_id [OF r h(2)] r show ?thesis by auto
qed

text \<open>
  (C31) A reply can cross into the next session. Request ids are counted per connection, so the first
  request of every session has id 1; a handler of an earlier session is not waited for, and what
  it sends goes out on the stream of the current one. There is a run in which the request of the first
  session is answered on the stream of the second, while the second session's own request 1, for
  another method, has not been answered; the new connection hands that answer to its caller.
\<close>

theorem stale_reply_crosses_sessions:
  "\<exists>s r c. agent_reach decode s \<and> ag_gen s = 2 \<and>
     map h_gen (ag_handlers s) = [1, 2] \<and>
     rq_request_id (h_req (ag_handlers s ! 0)) = requestID 1 \<and> rq_method (h_req (ag_handlers s ! 0)) = MethodFsStat \<and>
     rq_request_id (h_req (ag_handlers s ! 1)) = requestID 1 \<and> rq_method (h_req (ag_handlers s ! 1)) = MethodImagesList \<and>
     h_pc (ag_handlers s ! 1) = HRunning \<and>
     ag_sent s = [(2, \<lparr>ev_agent_id = ''n'', ev_kind = EvResult r\<rparr>)] \<and>
     (\<exists>conn. conn_run cp [Begin KUnary MethodImagesList [], Register 1, Send 1 True, Deliver r, UnarySend, AwaitRecv 1, Leave 1]
        newAgentConn = Some conn \<and> mget (calls conn) 1 = Some c \<and> c_pc c = Finished (OutResult r))"
proof -
  let ?q1 = "\<lparr>rq_request_id = ''1'', rq_method = MethodFsStat, rq_payload = []\<rparr>"
  let ?q2 = "\<lparr>rq_request_id = ''1'', rq_method = MethodImagesList, rq_payload = []\<rparr>"
  let ?r = "\<lparr>rs_request_id = ''1'', rs_code = 404, rs_payload = [], rs_error = [], rs_final = True\<rparr>"
  let ?ev = "\<lparr>ev_agent_id = ''n'', ev_kind = EvResult ?r\<rparr>"
  define s1 where "s1 = new_session newAgent"
  define s2 where "s2 = startRequest decode ?q1 s1"
  define s3 where "s3 = new_session s2"
  define s4 where "s4 = startRequest decode ?q2 s3"
  define s5 where "s5 = the (handler_reply 0 ?ev True s4)"
  note evs = s1_def s2_def s3_def s4_def agent_eval
  have "agent_step decode newAgent s1" unfolding s1_def by (rule agent_step.session) (simp add: newAgent_def)
  moreover have "agent_step decode s1 s2" by (rule agent_step.command [of _ "CmdRequest ?q1"]) (simp add: evs)
  moreover have "agent_step decode s2 s3" unfolding s3_def by (rule agent_step.session) (simp add: evs)
  moreover have "agent_step decode s3 s4" by (rule agent_step.command [of _ "CmdRequest ?q2"]) (simp add: evs)
  moreover have "agent_step decode s4 s5" unfolding s5_def
    by (rule agent_step.reply [of 0 ?ev True]) (simp add: evs handler_reply_def agent_send_def)
  ultimately have "agent_reach decode s5" by (meson agent_reach.intros)
  moreover have "ag_gen s5 = 2" "map h_gen (ag_handlers s5) = [1, 2]" "h_req (ag_handlers s5 ! 0) = ?q1"
    "h_req (ag_handlers s5 ! 1) = ?q2" "h_pc (ag_handlers s5 ! 1) = HRunning" "ag_sent s5 = [(2, ?ev)]"
    by (simp_all add: s5_def evs handler_reply_def agent_send_def)
  moreover obtain conn c where
    "conn_run cp [Begin KUnary MethodImagesList [], Register 1, Send 1 True, Deliver ?r, UnarySend, AwaitRecv 1, Leave 1]
        newAgentConn = Some conn" "mget (calls conn) 1 = Some c" "c_pc c = Finished (OutResult ?r)"
    by (auto simp: conn_eval)
  ultimately show ?thesis
    by (intro exI [of _ s5] exI [of _ ?r] exI [of _ c]) auto
qed

section \<open>The delays of the supervisor\<close>

text \<open>
  \<open>jitters_ok\<close> is what \<^verbatim>\<open>rand.Int63n\<close> promises of the random parts; \<open>levels\<close> counts, for each session
  that ends, the sessions since the last one that connected (or since the start).
\<close>

fun jitters_ok :: "sessionRun list \<Rightarrow> int \<Rightarrow> bool" where
  "jitters_ok [] cur = True"
| "jitters_ok (s # ss) cur =
     (let cur0 = (if se_connected s then backoff_reset else cur) in
      0 \<le> se_jitter s \<and> se_jitter s < backoff_bound cur0 \<and> jitters_ok ss (backoff_cur cur0))"

fun levels :: "sessionRun list \<Rightarrow> nat option \<Rightarrow> nat list" where
  "levels [] k = []"
| "levels (s # ss) k =
     (let k' = (if se_connected s then 0 else case k of None \<Rightarrow> 0 | Some n \<Rightarrow> Suc n)
      in k' # levels ss (Some k'))"

definition fullDelay :: "nat \<Rightarrow> int" where
  "fullDelay k = min reconnectMaxDelay (reconnectBaseDelay * 2 ^ k)"

fun cur_at :: "nat option \<Rightarrow> int" where
  "cur_at None = 0"
| "cur_at (Some k) = fullDelay k"

lemma fullDelay_range: "reconnectBaseDelay \<le> fullDelay k \<and> fullDelay k \<le> reconnectMaxDelay"
  by (simp add: fullDelay_def reconnectBaseDelay_def reconnectMaxDelay_def)

lemma fullDelay_0: "fullDelay 0 = reconnectBaseDelay"
  by (simp add: fullDelay_def reconnectBaseDelay_def reconnectMaxDelay_def)

lemma fullDelay_Suc: "fullDelay (Suc k) = min reconnectMaxDelay (fullDelay k * 2)"
  by (auto simp: fullDelay_def min_def reconnectBaseDelay_def reconnectMaxDelay_def)

lemma backoff_cur_at:
  "backoff_cur (if c then backoff_reset else cur_at k) =
     fullDelay (if c then 0 else case k of None \<Rightarrow> 0 | Some n \<Rightarrow> Suc n)"
  using fullDelay_range [of "the k"]
  by (cases k) (auto simp: backoff_cur_def backoff_reset_def fullDelay_0 fullDelay_Suc min_def
      reconnectBaseDelay_def reconnectMaxDelay_def)

lemma Start_delays:
  assumes "Start nodeName ss (cur_at k) = Some (ds, evs)" "jitters_ok ss (cur_at k)"
  shows "length ds \<le> length ss \<and>
    (\<forall>i<length ds. fullDelay (levels ss k ! i) * 4 \<le> ds ! i * 5 \<and> ds ! i \<le> fullDelay (levels ss k ! i))"
  using assms
proof (induction ss arbitrary: k ds evs)
  case (Cons s ss)
  from Cons.prems(1) obtain failed sent where
      run: "runSession nodeName (se_opened s) (se_helloOk s) (se_turns s) = Some (se_connected s, failed, sent)"
    by (auto dest: runSession_connected split: option.splits)
  let ?c = "if se_connected s then backoff_reset else cur_at k"
  let ?k = "if se_connected s then 0 else case k of None \<Rightarrow> 0 | Some n \<Rightarrow> Suc n"
  let ?d = "backoff_cur ?c - se_jitter s"
  have cur: "backoff_cur ?c = fullDelay ?k" by (rule backoff_cur_at)
  have j: "0 \<le> se_jitter s" "se_jitter s < fullDelay ?k div 5 + 1" "jitters_ok ss (cur_at (Some ?k))"
    using Cons.prems(2) by (simp_all add: Let_def backoff_bound_def cur)
  have lv: "levels (s # ss) k = ?k # levels ss (Some ?k)" by (simp add: Let_def)
  have "f * 4 \<le> (f - j) * 5 \<and> f - j \<le> f" if "0 \<le> j" "j < f div 5 + 1" for j f :: int
    using that by presburger
  from this [OF j(1,2)] have d: "fullDelay ?k * 4 \<le> ?d * 5" "?d \<le> fullDelay ?k"
    unfolding cur by blast+
  show ?case
  proof (cases "se_ctxDone s \<or> se_stopped s")
    case True
    then have "ds = [] \<or> ds = [?d]"
      using Cons.prems(1) run by (auto simp: backoff_next_def split: if_splits)
    then show ?thesis using d unfolding lv by auto
  next
    case False
    then obtain ds' evs' where ds: "Start nodeName ss (cur_at (Some ?k)) = Some (ds', evs')" "ds = ?d # ds'"
      using Cons.prems(1) run by (auto simp: backoff_next_def cur)
    from Cons.IH [OF ds(1) j(3)] d show ?thesis
      unfolding lv ds(2) by (auto simp: nth_Cons' less_Suc_eq_0_disj)
  qed
qed simp

text \<open>
  (C39) Reconnect delays are exponential and bounded. Whatever sessions the supervisor goes through
  until its context ends, with random parts as \<^verbatim>\<open>rand.Int63n\<close> draws them, it waits at most once per
  session, and the wait after a session is between four fifths of and the whole of one second doubled
  once for every further session since the last one that connected, capped at 30 seconds: between
  0.8 and 30 seconds, starting over at one second after a session that connected. The bound given to
  \<^verbatim>\<open>rand.Int63n\<close> is positive, as it must be, and the doubling stays far inside 63 bits.
\<close>

theorem reconnect_delays:
  assumes "Start nodeName ss backoff_reset = Some (ds, evs)" "jitters_ok ss backoff_reset"
  shows "length ds \<le> length ss \<and>
    (\<forall>i<length ds.
       fullDelay (levels ss None ! i) * 4 \<le> ds ! i * 5 \<and> ds ! i \<le> fullDelay (levels ss None ! i) \<and>
       800000000 \<le> ds ! i \<and> ds ! i \<le> 30000000000) \<and>
    0 < backoff_bound cur \<and> backoff_cur cur * 2 < 2 ^ 63"
proof -
  have r: "backoff_reset = cur_at None" by (simp add: backoff_reset_def)
  have "800000000 \<le> d \<and> d \<le> 30000000000" if "fullDelay k * 4 \<le> d * 5" "d \<le> fullDelay k" for k d
    using that fullDelay_range [of k] by (simp add: reconnectBaseDelay_def reconnectMaxDelay_def)
  with Start_delays [OF assms [unfolded r]] backoff_cur_range [of cur] show ?thesis
    by (auto simp: backoff_bound_def reconnectBaseDelay_def reconnectMaxDelay_def)
qed

definition demo_sessions :: "sessionRun list" where
  "demo_sessions =
     [\<lparr>se_opened = False, se_helloOk = True, se_turns = [], se_ctxDone = False, se_jitter = 0, se_stopped = False\<rparr>,
      \<lparr>se_opened = True, se_helloOk = False, se_turns = [], se_ctxDone = False, se_jitter = 5, se_stopped = False\<rparr>,
      \<lparr>se_opened = True, se_helloOk = True, se_turns = [STick True, SRecvEnd True], se_ctxDone = False,
       se_jitter = 200000000, se_stopped = True\<rparr>]"

theorem reconnect_delays_witness:
  "Start ''node-1'' demo_sessions backoff_reset =
     Some ([1000000000, 1999999995, 800000000],
           [\<lparr>ev_agent_id = ''node-1'', ev_kind = EvHello []\<rparr>, \<lparr>ev_agent_id = ''node-1'', ev_kind = EvHeartbeat\<rparr>]) \<and>
   fullDelay 1 * 4 \<le> [1000000000, 1999999995, 800000000 :: int] ! 1 * 5"
proof -
  have s: "Start ''node-1'' demo_sessions backoff_reset = Some ([1000000000, 1999999995, 800000000],
      [\<lparr>ev_agent_id = ''node-1'', ev_kind = EvHello []\<rparr>, \<lparr>ev_agent_id = ''node-1'', ev_kind = EvHeartbeat\<rparr>])"
    and j: "jitters_ok demo_sessions backoff_reset"
    by (simp_all add: demo_sessions_def runSession_def se_connected_def backoff_next_def backoff_cur_def
        backoff_reset_def backoff_bound_def reconnectBaseDelay_def reconnectMaxDelay_def Let_def)
  have lv: "levels demo_sessions None ! 1 = 1" by (simp add: Let_def demo_sessions_def se_connected_def)
  have "1 < length [1000000000, 1999999995, 800000000 :: int]" by simp
  from reconnect_delays [OF s j, of 0, THEN conjunct2, THEN conjunct1, rule_format, OF this] s
  show ?thesis unfolding lv by blast
qed

end
