(* ===== verification/RestApi.thy ===== *)
theory RestApi
  imports Relay AgentSession
begin

text \<open>
  The controller's REST handlers for agents, images, files and containers: \<^verbatim>\<open>pkg/controller/api.go\<close>,
  \<^verbatim>\<open>pkg/controller/fs.go\<close> and \<^verbatim>\<open>pkg/controller/containers.go\<close>. A handler takes what gin gives it (path and query
  parameters, the bound body) and the service's dispatch functions, and returns the response.
  \<^verbatim>\<open>json.Marshal\<close> of a request payload is a parameter that yields no bytes when it fails.
\<close>

section \<open>Responses\<close>

record uploadOutcome =
  uo_name :: string
  uo_error :: string

datatype respBody =
    BodyNone
  | BodyJSON bytes
  | BodyError string
  | BodyAgents "string list"
  | BodyUpload "uploadOutcome list" "uploadOutcome list"

type_synonym response = "nat \<times> respBody"

record httpReq =
  hr_param :: "string \<Rightarrow> string"
  hr_query :: "string \<Rightarrow> string"
  hr_queryArray :: "string \<Rightarrow> string list"
  hr_accept :: string

type_synonym dispatcher = "string \<Rightarrow> string \<Rightarrow> bytes \<Rightarrow> apiErr + agentResult"

definition respondAgentResult :: "agentResult \<Rightarrow> response" where
  "respondAgentResult result =
     (let code = (if rs_code result = 0 then 502 else unat (rs_code result)) in
      if rs_payload result \<noteq> [] then (code, BodyJSON (rs_payload result))
      else if rs_error result \<noteq> [] then (code, BodyError (rs_error result))
      else (code, BodyNone))"

definition mapDispatchError :: "apiErr \<Rightarrow> response" where
  "mapDispatchError err =
     (case err of
        NotConnected \<Rightarrow> (404, BodyError ''agent not connected'')
      | Deadline \<Rightarrow> (504, BodyError ''agent did not respond in time'')
      | OtherErr \<Rightarrow> (502, BodyError ''agent request failed''))"

text \<open>\<^verbatim>\<open>strconv.ParseBool\<close> and \<^verbatim>\<open>strconv.Atoi\<close>, and the queries that use them.\<close>

definition parseBool :: "string \<Rightarrow> bool option" where
  "parseBool s =
     (if s \<in> {''1'', ''t'', ''T'', ''true'', ''TRUE'', ''True''} then Some True
      else if s \<in> {''0'', ''f'', ''F'', ''false'', ''FALSE'', ''False''} then Some False else None)"

definition parseBoolQuery :: "httpReq \<Rightarrow> string \<Rightarrow> bool option" where
  "parseBoolQuery c key = (if hr_query c key = [] then Some False else parseBool (hr_query c key))"

definition Atoi :: "string \<Rightarrow> int option" where
  "Atoi s =
     (let neg = (s \<noteq> [] \<and> hd s = CHR ''-''); ds = (if s \<noteq> [] \<and> (hd s = CHR ''-'' \<or> hd s = CHR ''+'') then tl s else s) in
      case parseUint 64 ds of
        Inl _ \<Rightarrow> None
      | Inr n \<Rightarrow> if \<not> neg \<and> 2 ^ 63 \<le> n then None
                 else if neg \<and> 2 ^ 63 < n then None
                 else Some (if neg then - int n else int n))"

definition parseTimeoutQuery :: "httpReq \<Rightarrow> int option option" where
  "parseTimeoutQuery c = (if hr_query c ''timeout'' = [] then Some None else map_option Some (Atoi (hr_query c ''timeout'')))"

section \<open>Single-shot handlers\<close>

definition dispatchJSON :: "(apiRequest \<Rightarrow> bytes option) \<Rightarrow> dispatcher \<Rightarrow> httpReq \<Rightarrow> string \<Rightarrow> apiRequest \<Rightarrow> response" where
  "dispatchJSON marshal disp c m body =
     (case (if body = NoPayload then Some [] else marshal body) of
        None \<Rightarrow> (500, BodyError ''encode request failed'')
      | Some payload \<Rightarrow>
          (case disp (hr_param c ''agentId'') m payload of
             Inl err \<Rightarrow> mapDispatchError err
           | Inr result \<Rightarrow> respondAgentResult result))"

definition listAgentImages :: "dispatcher \<Rightarrow> httpReq \<Rightarrow> response" where
  "listAgentImages disp c =
     (case disp (hr_param c ''agentId'') MethodImagesList [] of
        Inl err \<Rightarrow> mapDispatchError err
      | Inr result \<Rightarrow> respondAgentResult result)"

definition listAgents :: "(unit + string list) \<Rightarrow> response" where
  "listAgents listed =
     (case listed of
        Inl _ \<Rightarrow> (502, BodyError ''list online agents failed'')
      | Inr agentIDs \<Rightarrow> (200, BodyAgents agentIDs))"

definition removeAgentImages :: "(apiRequest \<Rightarrow> bytes option) \<Rightarrow> dispatcher \<Rightarrow> httpReq \<Rightarrow> response" where
  "removeAgentImages marshal disp c =
     (let refs = (if hr_param c ''imageId'' \<noteq> [] then [hr_param c ''imageId''] else hr_queryArray c ''ref'') in
      if refs = [] then (400, BodyError ''at least one image reference is required'')
      else (case parseBoolQuery c ''force'' of
        None \<Rightarrow> (400, BodyError ''invalid force query parameter'')
      | Some force \<Rightarrow>
          (case parseBoolQuery c ''noPrune'' of
             None \<Rightarrow> (400, BodyError ''invalid noPrune query parameter'')
           | Some noPrune \<Rightarrow>
               (case marshal (RemoveRequest \<lparr>rr_refs = refs, rr_force = force, rr_noPrune = noPrune\<rparr>) of
                  None \<Rightarrow> (500, BodyError ''encode remove request failed'')
                | Some payload \<Rightarrow>
                    (case disp (hr_param c ''agentId'') MethodImagesRemove payload of
                       Inl err \<Rightarrow> mapDispatchError err
                     | Inr result \<Rightarrow> respondAgentResult result)))))"

definition listAgentContainers :: "(apiRequest \<Rightarrow> bytes option) \<Rightarrow> dispatcher \<Rightarrow> httpReq \<Rightarrow> response" where
  "listAgentContainers marshal disp c =
     (case parseBoolQuery c ''all'' of
        None \<Rightarrow> (400, BodyError ''invalid all query parameter'')
      | Some all \<Rightarrow> dispatchJSON marshal disp c MethodContainersList (ContainerListRequest all))"

definition createAgentContainer :: "(apiRequest \<Rightarrow> bytes option) \<Rightarrow> dispatcher \<Rightarrow> httpReq \<Rightarrow> containerCreateRequest option \<Rightarrow> response" where
  "createAgentContainer marshal disp c bound =
     (case bound of
        None \<Rightarrow> (400, BodyError ''invalid container create request body'')
      | Some body \<Rightarrow>
          if cc_image body = [] then (400, BodyError ''image is required'')
          else dispatchJSON marshal disp c MethodContainersCreate (ContainerCreateRequest body))"

definition inspectAgentContainer :: "(apiRequest \<Rightarrow> bytes option) \<Rightarrow> dispatcher \<Rightarrow> httpReq \<Rightarrow> response" where
  "inspectAgentContainer marshal disp c =
     dispatchJSON marshal disp c MethodContainersInspect (ContainerIDRequest (hr_param c ''containerId''))"

definition startAgentContainer :: "(apiRequest \<Rightarrow> bytes option) \<Rightarrow> dispatcher \<Rightarrow> httpReq \<Rightarrow> response" where
  "startAgentContainer marshal disp c =
     dispatchJSON marshal disp c MethodContainersStart (ContainerIDRequest (hr_param c ''containerId''))"

definition stopAgentContainer :: "(apiRequest \<Rightarrow> bytes option) \<Rightarrow> dispatcher \<Rightarrow> httpReq \<Rightarrow> response" where
  "stopAgentContainer marshal disp c =
     (case parseTimeoutQuery c of
        None \<Rightarrow> (400, BodyError ''invalid timeout query parameter'')
      | Some timeout \<Rightarrow> dispatchJSON marshal disp c MethodContainersStop
          (ContainerStopRequest \<lparr>st_id = hr_param c ''containerId'', st_timeout = timeout\<rparr>))"

definition restartAgentContainer :: "(apiRequest \<Rightarrow> bytes option) \<Rightarrow> dispatcher \<Rightarrow> httpReq \<Rightarrow> response" where
  "restartAgentContainer marshal disp c =
     (case parseTimeoutQuery c of
        None \<Rightarrow> (400, BodyError ''invalid timeout query parameter'')
      | Some timeout \<Rightarrow> dispatchJSON marshal disp c MethodContainersRestart
          (ContainerStopRequest \<lparr>st_id = hr_param c ''containerId'', st_timeout = timeout\<rparr>))"

definition removeAgentContainer :: "(apiRequest \<Rightarrow> bytes option) \<Rightarrow> dispatcher \<Rightarrow> httpReq \<Rightarrow> response" where
  "removeAgentContainer marshal disp c =
     (case parseBoolQuery c ''force'' of
        None \<Rightarrow> (400, BodyError ''invalid force query parameter'')
      | Some force \<Rightarrow>
          (case parseBoolQuery c ''volumes'' of
             None \<Rightarrow> (400, BodyError ''invalid volumes query parameter'')
           | Some volumes \<Rightarrow> dispatchJSON marshal disp c MethodContainersRemove
               (ContainerRemoveRequest \<lparr>cr_id = hr_param c ''containerId'', cr_force = force, cr_removeVolumes = volumes\<rparr>)))"

text \<open>A streaming dispatch: an error, or what the handler's loop then takes.\<close>

type_synonym streamer = "string \<Rightarrow> string \<Rightarrow> bytes \<Rightarrow> apiErr + streamTurn list"

section \<open>Files\<close>

text \<open>\<^verbatim>\<open>path.Base\<close>, \<^verbatim>\<open>path.Ext\<close>, \<^verbatim>\<open>strings.Contains\<close> and \<^verbatim>\<open>strings.TrimRight\<close> for a slash.\<close>

definition trimSlashes :: "string \<Rightarrow> string" where
  "trimSlashes p = rev (dropWhile (\<lambda>c. c = slash) (rev p))"

definition afterLast :: "char \<Rightarrow> string \<Rightarrow> string" where
  "afterLast c p = rev (takeWhile (\<lambda>x. x \<noteq> c) (rev p))"

definition Base :: "string \<Rightarrow> string" where
  "Base p = (if p = [] then ''.'' else if trimSlashes p = [] then ''/'' else afterLast slash (trimSlashes p))"

definition Ext :: "string \<Rightarrow> string" where
  "Ext p = (let name = afterLast slash p in
     if CHR ''.'' \<in> set name then CHR ''.'' # afterLast (CHR ''.'') name else [])"

fun contains :: "string \<Rightarrow> string \<Rightarrow> bool" where
  "contains [] sub = (sub = [])"
| "contains (x # xs) sub = (hasPrefix (x # xs) sub \<or> contains xs sub)"

definition joinFsPath :: "string \<Rightarrow> string \<Rightarrow> string" where
  "joinFsPath dir name = (if dir = [] then name else trimSlashes dir @ slash # name)"

definition acceptsJSON :: "httpReq \<Rightarrow> bool" where
  "acceptsJSON c = contains (hr_accept c) ''application/json''"

text \<open>\<^verbatim>\<open>http.StatusText\<close> is a parameter.\<close>

definition agentResultMessage :: "(uint32 \<Rightarrow> string) \<Rightarrow> agentResult \<Rightarrow> string" where
  "agentResultMessage statusText result = (if rs_error result \<noteq> [] then rs_error result else statusText (rs_code result))"

definition dispatchPathRequest :: "(apiRequest \<Rightarrow> bytes option) \<Rightarrow> dispatcher \<Rightarrow> string \<Rightarrow> string \<Rightarrow> string \<Rightarrow> response" where
  "dispatchPathRequest marshal disp agentID reqPath m =
     (case marshal (FsPathRequest reqPath) of
        None \<Rightarrow> (500, BodyError ''encode fs request failed'')
      | Some payload \<Rightarrow>
          (case disp agentID m payload of
             Inl err \<Rightarrow> mapDispatchError err
           | Inr result \<Rightarrow> respondAgentResult result))"

definition fsDelete :: "(apiRequest \<Rightarrow> bytes option) \<Rightarrow> dispatcher \<Rightarrow> httpReq \<Rightarrow> response" where
  "fsDelete marshal disp c = dispatchPathRequest marshal disp (hr_param c ''agentId'') (hr_query c ''path'') MethodFsRemove"

definition fsMkdir :: "(apiRequest \<Rightarrow> bytes option) \<Rightarrow> dispatcher \<Rightarrow> string \<Rightarrow> string \<Rightarrow> response" where
  "fsMkdir marshal disp agentID reqPath = dispatchPathRequest marshal disp agentID reqPath MethodFsMkdir"

text \<open>
  A download: whether the header has been written (its content type and the file name it offers), an
  error response, the body written so far, and the outcomes of the writes that are left. The table of
  \<^verbatim>\<open>mime.TypeByExtension\<close> is a parameter.
\<close>

record download =
  dl_header :: "(string \<times> string) option"
  dl_error :: "response option"
  dl_body :: bytes
  dl_writes :: "bool list"

definition writeHeader :: "(string \<Rightarrow> string) \<Rightarrow> string \<Rightarrow> download \<Rightarrow> download" where
  "writeHeader typeByExt reqPath s =
     (let name = Base reqPath; ctype = typeByExt (Ext name) in
      s\<lparr>dl_header := Some (if ctype = [] then ''application/octet-stream'' else ctype, name)\<rparr>)"

definition emitDownload :: "(string \<Rightarrow> string) \<Rightarrow> string \<Rightarrow> streamFrame \<Rightarrow> download \<Rightarrow> bool \<times> download" where
  "emitDownload typeByExt reqPath f s =
     (if sf_final f then
        (if dl_header s = None \<and> sf_code f \<noteq> 0 \<and> sf_code f \<noteq> 200
         then (True, s\<lparr>dl_error := Some (unat (sf_code f), BodyError (sf_error f))\<rparr>)
         else (True, if dl_header s = None then writeHeader typeByExt reqPath s else s))
      else
        (let s = (if dl_header s = None then writeHeader typeByExt reqPath s else s);
             ok = (dl_writes s = [] \<or> hd (dl_writes s)); s = s\<lparr>dl_writes := tl (dl_writes s)\<rparr>
         in if \<not> ok then (True, s) else (False, s\<lparr>dl_body := dl_body s @ sf_payload f\<rparr>)))"

definition abortDownload :: "download \<Rightarrow> download" where
  "abortDownload s = (if dl_header s = None then s\<lparr>dl_error := Some (502, BodyError ''agent disconnected'')\<rparr> else s)"

datatype fsAnswer = FsPlain response | FsFile "string \<times> string" bytes | FsEmpty

text \<open>What the client gets: an error, or status 200 with the header and the body; nothing was written when
  the request's context ended first.\<close>

definition answerOf :: "download \<Rightarrow> fsAnswer" where
  "answerOf s =
     (case dl_error s of
        Some r \<Rightarrow> FsPlain r
      | None \<Rightarrow> (case dl_header s of Some h \<Rightarrow> FsFile h (dl_body s) | None \<Rightarrow> FsEmpty))"

definition streamDownload :: "(apiRequest \<Rightarrow> bytes option) \<Rightarrow> streamer \<Rightarrow> (string \<Rightarrow> string) \<Rightarrow> string \<Rightarrow> string \<Rightarrow> bool \<Rightarrow> bool list \<Rightarrow>
    fsAnswer option" where
  "streamDownload marshal open_stream typeByExt agentID reqPath flusher writes =
     (case marshal (FsPathRequest reqPath) of
        None \<Rightarrow> Some (FsPlain (500, BodyError ''encode fs request failed''))
      | Some payload \<Rightarrow>
          (case open_stream agentID MethodFsRead payload of
             Inl err \<Rightarrow> Some (FsPlain (mapDispatchError err))
           | Inr turns \<Rightarrow>
               if \<not> flusher then Some (FsPlain (500, BodyError ''streaming unsupported''))
               else map_option answerOf (consumeStream (emitDownload typeByExt reqPath) abortDownload turns
                 \<lparr>dl_header = None, dl_error = None, dl_body = [], dl_writes = writes\<rparr>)))"

definition fsGet :: "(apiRequest \<Rightarrow> bytes option) \<Rightarrow> (bytes \<Rightarrow> fsEntry option) \<Rightarrow> dispatcher \<Rightarrow> streamer \<Rightarrow> (string \<Rightarrow> string) \<Rightarrow>
    httpReq \<Rightarrow> bool \<Rightarrow> bool list \<Rightarrow> fsAnswer option" where
  "fsGet marshal decodeEntry disp open_stream typeByExt c flusher writes =
     (let agentID = hr_param c ''agentId''; reqPath = hr_query c ''path'' in
      case marshal (FsPathRequest reqPath) of
        None \<Rightarrow> Some (FsPlain (500, BodyError ''encode fs request failed''))
      | Some payload \<Rightarrow>
          (case disp agentID MethodFsStat payload of
             Inl err \<Rightarrow> Some (FsPlain (mapDispatchError err))
           | Inr stat \<Rightarrow>
               if rs_code stat \<noteq> 200 then Some (FsPlain (respondAgentResult stat))
               else (case decodeEntry (rs_payload stat) of
                 None \<Rightarrow> Some (FsPlain (502, BodyError ''invalid stat result from agent''))
               | Some entry \<Rightarrow>
                   if fe_dir entry then
                     (case disp agentID MethodFsList payload of
                        Inl err \<Rightarrow> Some (FsPlain (mapDispatchError err))
                      | Inr listing \<Rightarrow> Some (FsPlain (respondAgentResult listing)))
                   else if acceptsJSON c then Some (FsPlain (respondAgentResult stat))
                   else streamDownload marshal open_stream typeByExt agentID reqPath flusher writes)))"

text \<open>
  Uploads. A part of the form is a file with its name (empty for a field that is no file) and its body,
  the end of the form or an error. The upload of a body is the service's dispatch.
\<close>

datatype 'b part = PartFile string 'b | PartEOF | PartErr

type_synonym 'b uploader = "string \<Rightarrow> string \<Rightarrow> bytes \<Rightarrow> 'b \<Rightarrow> apiErr + agentResult"

definition partName :: "string \<Rightarrow> string" where
  "partName filename = Base (map (\<lambda>c. if c = CHR 92 then slash else c) filename)"

definition uploadStatus :: "uploadOutcome list \<Rightarrow> uploadOutcome list \<Rightarrow> nat" where
  "uploadStatus ok failed = (if failed \<noteq> [] \<and> ok = [] then 409 else if failed \<noteq> [] then 207 else 201)"

fun uploadParts :: "(apiRequest \<Rightarrow> bytes option) \<Rightarrow> (uint32 \<Rightarrow> string) \<Rightarrow> 'b uploader \<Rightarrow> string \<Rightarrow> string \<Rightarrow> bool \<Rightarrow> 'b part list \<Rightarrow>
    uploadOutcome list \<Rightarrow> uploadOutcome list \<Rightarrow> response option" where
  "uploadParts marshal statusText up agentID dirPath exclusive [] ok failed = None"
| "uploadParts marshal statusText up agentID dirPath exclusive (PartEOF # ps) ok failed =
     Some (uploadStatus ok failed, BodyUpload ok failed)"
| "uploadParts marshal statusText up agentID dirPath exclusive (PartErr # ps) ok failed =
     Some (400, BodyError ''read multipart form failed'')"
| "uploadParts marshal statusText up agentID dirPath exclusive (PartFile filename body # ps) ok failed =
     (if filename = [] then uploadParts marshal statusText up agentID dirPath exclusive ps ok failed
      else (let name = partName filename; target = joinFsPath dirPath name in
        case marshal (FsWriteRequest \<lparr>fw_path = target, fw_exclusive = exclusive\<rparr>) of
          None \<Rightarrow> Some (500, BodyError ''encode fs request failed'')
        | Some openPayload \<Rightarrow>
            (case up agentID MethodFsWrite openPayload body of
               Inl err \<Rightarrow> Some (mapDispatchError err)
             | Inr result \<Rightarrow>
                 if rs_code result = 201 \<or> rs_code result = 200
                 then uploadParts marshal statusText up agentID dirPath exclusive ps (ok @ [\<lparr>uo_name = name, uo_error = []\<rparr>]) failed
                 else uploadParts marshal statusText up agentID dirPath exclusive ps ok
                   (failed @ [\<lparr>uo_name = name, uo_error = agentResultMessage statusText result\<rparr>]))))"

definition fsUpload :: "(apiRequest \<Rightarrow> bytes option) \<Rightarrow> (uint32 \<Rightarrow> string) \<Rightarrow> 'b uploader \<Rightarrow> string \<Rightarrow> string \<Rightarrow> bool \<Rightarrow>
    'b part list option \<Rightarrow> response option" where
  "fsUpload marshal statusText up agentID dirPath exclusive form =
     (case form of
        None \<Rightarrow> Some (400, BodyError ''expected a multipart form'')
      | Some parts \<Rightarrow> uploadParts marshal statusText up agentID dirPath exclusive parts [] [])"

definition fsPost :: "(apiRequest \<Rightarrow> bytes option) \<Rightarrow> (uint32 \<Rightarrow> string) \<Rightarrow> dispatcher \<Rightarrow> 'b uploader \<Rightarrow> httpReq \<Rightarrow> 'b part list option \<Rightarrow>
    response option" where
  "fsPost marshal statusText disp up c form =
     (case parseBoolQuery c ''dir'' of
        None \<Rightarrow> Some (400, BodyError ''invalid dir query parameter'')
      | Some dir \<Rightarrow>
          if dir then Some (fsMkdir marshal disp (hr_param c ''agentId'') (hr_query c ''path''))
          else fsUpload marshal statusText up (hr_param c ''agentId'') (hr_query c ''path'') True form)"

text \<open>A replaced file: the raw body, or the first part of a multipart form (absent: no reader, or no part).\<close>

definition fsPut :: "(apiRequest \<Rightarrow> bytes option) \<Rightarrow> 'b uploader \<Rightarrow> httpReq \<Rightarrow> string \<Rightarrow> 'b \<Rightarrow> 'b option option \<Rightarrow> response" where
  "fsPut marshal up c contentType raw form =
     (let reqPath = hr_query c ''path'' in
      if reqPath = [] then (400, BodyError ''path is required'')
      else (case (if hasPrefix contentType ''multipart/form-data'' then
                    (case form of
                       None \<Rightarrow> Inl ''invalid multipart form''
                     | Some None \<Rightarrow> Inl ''multipart form has no file part''
                     | Some (Some part) \<Rightarrow> Inr part)
                  else Inr raw) of
        Inl msg \<Rightarrow> (400, BodyError msg)
      | Inr body \<Rightarrow>
          (case marshal (FsWriteRequest \<lparr>fw_path = reqPath, fw_exclusive = False\<rparr>) of
             None \<Rightarrow> (500, BodyError ''encode fs request failed'')
           | Some openPayload \<Rightarrow>
               (case up (hr_param c ''agentId'') MethodFsWrite openPayload body of
                  Inl err \<Rightarrow> mapDispatchError err
                | Inr result \<Rightarrow> respondAgentResult result))))"

section \<open>Handlers against the agent\<close>

text \<open>A dispatch that reaches the agent, with the id the connection gave it, and is answered by its handler.\<close>

definition agentResultOf :: "agentEvent \<Rightarrow> agentResult option" where
  "agentResultOf ev = (case ev_kind ev of EvResult r \<Rightarrow> Some r | _ \<Rightarrow> None)"

definition agentDispatch :: "agentHost \<Rightarrow> codecs \<Rightarrow> string \<Rightarrow> dispatcher" where
  "agentDispatch h cd rid agentID m payload =
     (case agentResultOf (snd (handleRequest h cd \<lparr>rq_request_id = rid, rq_method = m, rq_payload = payload\<rparr>)) of
        Some r \<Rightarrow> Inr r
      | None \<Rightarrow> Inl OtherErr)"

definition agentCalls :: "agentHost \<Rightarrow> codecs \<Rightarrow> string \<Rightarrow> bytes \<Rightarrow> hostCall list" where
  "agentCalls h cd m payload = fst (serve h cd m payload)"

lemma agentDispatch_serve:
  "agentDispatch h cd rid agentID m payload =
     (case serve h cd m payload of (cs, bs, code, msg) \<Rightarrow>
        Inr \<lparr>rs_request_id = rid, rs_code = code, rs_payload = bs, rs_error = msg, rs_final = True\<rparr>)"
  by (simp add: agentDispatch_def agentResultOf_def handleRequest_def split: prod.splits)

text \<open>What the client should see of a call to the daemon that returns no data.\<close>

definition daemonResponse :: "dockerErr option \<Rightarrow> response" where
  "daemonResponse res =
     (case res of
        None \<Rightarrow> (204, BodyNone)
      | Some err \<Rightarrow>
          (if de_notFound err then 404 else if de_conflict err then 409 else if de_invalid err then 400 else 500,
           if de_text err = [] then BodyNone else BodyError (de_text err)))"

lemma dispatchJSON_status:
  assumes "marshal body = Some p" "body \<noteq> NoPayload"
    and "serve h cd m p = docker_status ([call], case res of None \<Rightarrow> (204, []) | Some err \<Rightarrow> (dockerErrorCode err, de_text err))"
  shows "dispatchJSON marshal (agentDispatch h cd rid) c m body = daemonResponse res \<and> agentCalls h cd m p = [DockerCall call]"
  using assms
  by (auto simp: dispatchJSON_def agentDispatch_serve docker_status_def respondAgentResult_def daemonResponse_def Let_def
      dockerErrorCode_def agentCalls_def split: option.splits)

text \<open>The answers of the agent's four requests of this kind.\<close>

lemma serve_start:
  "dec_id cd p = Inr cid \<Longrightarrow> cid \<noteq> [] \<Longrightarrow>
   serve h cd MethodContainersStart p = docker_status ([DStart cid],
     case dk_start (ah_docker h) cid of None \<Rightarrow> (204, []) | Some err \<Rightarrow> (dockerErrorCode err, de_text err))"
  by (simp add: serve_def method_defs startContainer_def split: option.splits)

lemma serve_stop:
  "dec_stop cd p = Inr \<lparr>st_id = cid, st_timeout = t\<rparr> \<Longrightarrow> cid \<noteq> [] \<Longrightarrow>
   serve h cd MethodContainersStop p = docker_status ([DStop cid t],
     case dk_stop (ah_docker h) cid t of None \<Rightarrow> (204, []) | Some err \<Rightarrow> (dockerErrorCode err, de_text err))"
  by (simp add: serve_def method_defs stopContainer_def split: option.splits)

lemma serve_restart:
  "dec_stop cd p = Inr \<lparr>st_id = cid, st_timeout = t\<rparr> \<Longrightarrow> cid \<noteq> [] \<Longrightarrow>
   serve h cd MethodContainersRestart p = docker_status ([DRestart cid t],
     case dk_restart (ah_docker h) cid t of None \<Rightarrow> (204, []) | Some err \<Rightarrow> (dockerErrorCode err, de_text err))"
  by (simp add: serve_def method_defs restartContainer_def split: option.splits)

lemma serve_remove:
  "dec_rm cd p = Inr \<lparr>cr_id = cid, cr_force = f, cr_removeVolumes = v\<rparr> \<Longrightarrow> cid \<noteq> [] \<Longrightarrow>
   serve h cd MethodContainersRemove p = docker_status ([DRemove cid f v],
     case dk_remove (ah_docker h) cid f v of None \<Rightarrow> (204, []) | Some err \<Rightarrow> (dockerErrorCode err, de_text err))"
  by (simp add: serve_def method_defs removeContainer_def split: option.splits)

text \<open>The frames the controller makes of the events of one stream.\<close>

fun eventFrame :: "agentEventKind \<Rightarrow> streamFrame list" where
  "eventFrame (EvProgress p) = [\<lparr>sf_payload = pg_payload p, sf_code = 0, sf_error = [], sf_final = False\<rparr>]"
| "eventFrame (EvResult r) = [\<lparr>sf_payload = rs_payload r, sf_code = rs_code r, sf_error = rs_error r, sf_final = True\<rparr>]"
| "eventFrame _ = []"

definition eventFrames :: "agentEvent list \<Rightarrow> streamFrame list" where
  "eventFrames evs = concat (map (eventFrame \<circ> ev_kind) evs)"

lemma eventFrames_read:
  "eventFrames (map (progressEvent n rid) ps @ [resultEvent n rid code msg]) =
     map (\<lambda>p. \<lparr>sf_payload = p, sf_code = 0, sf_error = [], sf_final = False\<rparr>) ps @
     [\<lparr>sf_payload = [], sf_code = code, sf_error = msg, sf_final = True\<rparr>]"
  by (simp add: eventFrames_def comp_def progressEvent_def resultEvent_def)

definition offered :: "(string \<Rightarrow> string) \<Rightarrow> string \<Rightarrow> string \<times> string" where
  "offered typeByExt reqPath = the (dl_header (writeHeader typeByExt reqPath \<lparr>dl_header = None, dl_error = None, dl_body = [], dl_writes = []\<rparr>))"

lemma writeHeader_sel [simp]:
  "dl_header (writeHeader t p s) = Some (offered t p)" "dl_error (writeHeader t p s) = dl_error s"
  "dl_body (writeHeader t p s) = dl_body s" "dl_writes (writeHeader t p s) = dl_writes s"
  by (simp_all add: offered_def writeHeader_def Let_def)

lemma consume_download:
  assumes "dl_error s = None" "dl_writes s = []" "dl_header s = None \<longrightarrow> dl_body s = []"
    and "dl_header s \<noteq> None \<longrightarrow> dl_header s = Some (offered t p)"
  shows "\<exists>s'. consumeStream (emitDownload t p) abortDownload
      (map TurnFrame (map (\<lambda>d. \<lparr>sf_payload = d, sf_code = 0, sf_error = [], sf_final = False\<rparr>) ps @
         [\<lparr>sf_payload = [], sf_code = code, sf_error = msg, sf_final = True\<rparr>])) s = Some s' \<and>
    answerOf s' = (if dl_header s = None \<and> ps = [] \<and> code \<noteq> 0 \<and> code \<noteq> 200 then FsPlain (unat code, BodyError msg)
      else FsFile (offered t p) (dl_body s @ concat ps))"
  using assms
proof (induction ps arbitrary: s)
  case Nil
  then show ?case by (auto simp: emitDownload_def answerOf_def split: option.splits)
next
  case (Cons d ps)
  define s2 where "s2 = (if dl_header s = None then writeHeader t p s else s)\<lparr>dl_writes := []\<rparr>\<lparr>dl_body := dl_body s @ d\<rparr>"
  have e: "emitDownload t p \<lparr>sf_payload = d, sf_code = 0, sf_error = [], sf_final = False\<rparr> s = (False, s2)"
    using Cons.prems by (simp add: emitDownload_def Let_def s2_def)
  have sel: "dl_error s2 = None" "dl_writes s2 = []" "dl_header s2 = Some (offered t p)" "dl_body s2 = dl_body s @ d"
    using Cons.prems by (cases "dl_header s"; simp add: s2_def)+
  have h: "dl_header s2 \<noteq> None" using sel(3) by (rule option.discI)
  then have h3: "dl_header s2 = None \<longrightarrow> dl_body s2 = []" by blast
  from sel(3) have h4: "dl_header s2 \<noteq> None \<longrightarrow> dl_header s2 = Some (offered t p)" by blast
  from Cons.IH [OF sel(1,2) h3 h4] h
  show ?case by (simp add: e sel(4))
qed

lemma fsErrorCode_nonzero: "(0, x) \<noteq> fsErrorCode e" "fsErrorCode e \<noteq> (0, x)"
  by (cases e; simp add: fsErrorCode_def)+

lemma readLoop_code: "readLoop steps em = Some (out, code, msg) \<Longrightarrow> code \<noteq> 0"
  by (induction steps em rule: readLoop.induct) (auto simp: Let_def split: option.splits if_splits readEnd.splits)

lemma handleRead_code:
  assumes "handleRead n dataDir decode openPath steps req =
    Some (map (progressEvent n (rq_request_id req)) ps @ [resultEvent n (rq_request_id req) code msg])"
  shows "code \<noteq> 0"
proof -
  from assms obtain cs ps' where "readFile dataDir decode openPath steps (rq_payload req) = Some (cs, ps', code, msg)"
    by (auto simp: handleRead_def resultEvent_def split: option.splits)
  then show ?thesis
    by (auto simp: readFile_def fsErrorCode_nonzero dest: readLoop_code split: sum.splits if_splits)
qed

text \<open>The parts of a form, all of them files.\<close>

definition fileGood :: "agentResult \<Rightarrow> bool" where
  "fileGood r \<longleftrightarrow> rs_code r = 201 \<or> rs_code r = 200"

definition fileParts :: "(string \<times> 'b) list \<Rightarrow> 'b part list" where
  "fileParts files = map (\<lambda>(f, b). PartFile f b) files"

lemma uploadParts_files:
  assumes "\<And>f b. (f, b) \<in> set files \<Longrightarrow> f \<noteq> [] \<and>
      marshal (FsWriteRequest \<lparr>fw_path = joinFsPath dir (partName f), fw_exclusive = ex\<rparr>) = Some (pay f) \<and>
      up agentID MethodFsWrite (pay f) b = Inr (res f b)"
  shows "uploadParts marshal st up agentID dir ex (fileParts files @ PartEOF # rest) ok failed =
    (let ok' = ok @ [\<lparr>uo_name = partName f, uo_error = []\<rparr>. (f, b) \<leftarrow> files, fileGood (res f b)];
         failed' = failed @ [\<lparr>uo_name = partName f, uo_error = agentResultMessage st (res f b)\<rparr>. (f, b) \<leftarrow> files, \<not> fileGood (res f b)]
     in Some (uploadStatus ok' failed', BodyUpload ok' failed'))"
  using assms
proof (induction files arbitrary: ok failed)
  case Nil
  show ?case by (simp add: fileParts_def)
next
  case (Cons x files)
  obtain f b where x: "x = (f, b)" by (cases x)
  from Cons.prems [of f b] x have p: "f \<noteq> []"
    "marshal (FsWriteRequest \<lparr>fw_path = joinFsPath dir (partName f), fw_exclusive = ex\<rparr>) = Some (pay f)"
    "up agentID MethodFsWrite (pay f) b = Inr (res f b)" by auto
  have ih: "uploadParts marshal st up agentID dir ex (fileParts files @ PartEOF # rest) ok failed =
    (let ok' = ok @ [\<lparr>uo_name = partName f, uo_error = []\<rparr>. (f, b) \<leftarrow> files, fileGood (res f b)];
         failed' = failed @ [\<lparr>uo_name = partName f, uo_error = agentResultMessage st (res f b)\<rparr>. (f, b) \<leftarrow> files, \<not> fileGood (res f b)]
     in Some (uploadStatus ok' failed', BodyUpload ok' failed'))" for ok failed
    using Cons.IH Cons.prems by (meson list.set_intros(2))
  show ?case
  proof (cases "fileGood (res f b)")
    case True
    then have "rs_code (res f b) = 201 \<or> rs_code (res f b) = 200" by (simp add: fileGood_def)
    with p x True ih show ?thesis by (simp add: fileParts_def Let_def)
  next
    case False
    then have "\<not> (rs_code (res f b) = 201 \<or> rs_code (res f b) = 200)" by (simp add: fileGood_def)
    with p x False ih show ?thesis by (simp add: fileParts_def Let_def)
  qed
qed

lemma trimSlashes_last: "trimSlashes p \<noteq> [] \<Longrightarrow> last (trimSlashes p) \<noteq> slash"
  using hd_dropWhile [of "\<lambda>c. c = slash" "rev p"] by (simp add: trimSlashes_def last_rev)

lemma Base_plain: "Base p \<noteq> [] \<and> (slash \<notin> set (Base p) \<or> Base p = ''/'')"
proof (cases "p = [] \<or> trimSlashes p = []")
  case True
  then show ?thesis by (auto simp: Base_def)
next
  case False
  let ?t = "trimSlashes p"
  have "slash \<notin> set (afterLast slash ?t)" by (auto simp: afterLast_def dest: set_takeWhileD)
  moreover have "afterLast slash ?t \<noteq> []"
    using trimSlashes_last [of p] False by (cases ?t rule: rev_cases) (auto simp: afterLast_def)
  ultimately show ?thesis using False by (simp add: Base_def)
qed

section \<open>Properties\<close>

text \<open>
  (C32) Acting on a container over REST is acting on the daemon. For start, stop, restart and remove the
  agent makes exactly one call to the Docker daemon, with the container of the path and the options of
  the query, and the client gets 204 when it succeeds and the status and text of the daemon's error
  otherwise. The JSON that the controller writes is assumed to be read back by the agent.
\<close>

theorem container_actions_end_to_end:
  assumes "hr_param c ''containerId'' = cid" "cid \<noteq> []"
    and "parseTimeoutQuery c = Some t" "parseBoolQuery c ''force'' = Some f" "parseBoolQuery c ''volumes'' = Some v"
    and "marshal (ContainerIDRequest cid) = Some p" "dec_id cd p = Inr cid"
    and "marshal (ContainerStopRequest \<lparr>st_id = cid, st_timeout = t\<rparr>) = Some q" "dec_stop cd q = Inr \<lparr>st_id = cid, st_timeout = t\<rparr>"
    and "marshal (ContainerRemoveRequest \<lparr>cr_id = cid, cr_force = f, cr_removeVolumes = v\<rparr>) = Some r"
      "dec_rm cd r = Inr \<lparr>cr_id = cid, cr_force = f, cr_removeVolumes = v\<rparr>"
  shows "startAgentContainer marshal (agentDispatch h cd rid) c = daemonResponse (dk_start (ah_docker h) cid) \<and>
      agentCalls h cd MethodContainersStart p = [DockerCall (DStart cid)] \<and>
    stopAgentContainer marshal (agentDispatch h cd rid) c = daemonResponse (dk_stop (ah_docker h) cid t) \<and>
      agentCalls h cd MethodContainersStop q = [DockerCall (DStop cid t)] \<and>
    restartAgentContainer marshal (agentDispatch h cd rid) c = daemonResponse (dk_restart (ah_docker h) cid t) \<and>
      agentCalls h cd MethodContainersRestart q = [DockerCall (DRestart cid t)] \<and>
    removeAgentContainer marshal (agentDispatch h cd rid) c = daemonResponse (dk_remove (ah_docker h) cid f v) \<and>
      agentCalls h cd MethodContainersRemove r = [DockerCall (DRemove cid f v)]"
  using assms dispatchJSON_status [where marshal = marshal and c = c and rid = rid, OF assms(6) _ serve_start]
    dispatchJSON_status [where marshal = marshal and c = c and rid = rid, OF assms(8) _ serve_stop]
    dispatchJSON_status [where marshal = marshal and c = c and rid = rid, OF assms(8) _ serve_restart]
    dispatchJSON_status [where marshal = marshal and c = c and rid = rid, OF assms(10) _ serve_remove]
  by (simp_all add: startAgentContainer_def stopAgentContainer_def restartAgentContainer_def removeAgentContainer_def)

definition demo_docker :: docker where
  "demo_docker = \<lparr>dk_imageList = Inr [], dk_imageRemove = (\<lambda>_ _ _. Inr []), dk_imagePull = (\<lambda>_ _. Inr []),
     dk_list = (\<lambda>_. Inr []), dk_create = (\<lambda>_ _ _. Inr ([], [])), dk_start = (\<lambda>_. None),
     dk_stop = (\<lambda>_ _. Some \<lparr>de_text = ''no such container'', de_notFound = True, de_conflict = False, de_invalid = False\<rparr>),
     dk_restart = (\<lambda>_ _. None), dk_remove = (\<lambda>_ _ _. None),
     dk_inspect = (\<lambda>_. Inl \<lparr>de_text = [], de_notFound = True, de_conflict = False, de_invalid = False\<rparr>),
     dk_logs = (\<lambda>_. Inl \<lparr>de_text = [], de_notFound = True, de_conflict = False, de_invalid = False\<rparr>)\<rparr>"

definition demo_host :: agentHost where
  "demo_host = \<lparr>ah_nodeName = ''n'', ah_dataDir = [], ah_docker = demo_docker, ah_stat = (\<lambda>_. Inl ErrFsNotConfigured),
     ah_readDir = (\<lambda>_. Inr []), ah_mkdirAll = (\<lambda>_. None), ah_removeAll = (\<lambda>_. None), ah_newPort = (\<lambda>_ p. Inr p),
     ah_validateRestart = (\<lambda>_ _. None), ah_project = detailOf (\<lambda>_. 0) id (\<lambda>_. None)\<rparr>"

definition demo_codecs :: codecs where
  "demo_codecs = \<lparr>dec_path = Inr, dec_remove = (\<lambda>_. Inl []), dec_list = (\<lambda>_. Inr False), dec_create = (\<lambda>_. Inl []), dec_id = Inr,
     dec_stop = (\<lambda>b. Inr \<lparr>st_id = b, st_timeout = Some 5\<rparr>), dec_rm = (\<lambda>b. Inr \<lparr>cr_id = b, cr_force = True, cr_removeVolumes = False\<rparr>),
     enc_entry = (\<lambda>_. Inr []), enc_entries = (\<lambda>_. Inr []), enc_images = (\<lambda>_. Inr []), enc_removed = (\<lambda>_. Inr []),
     enc_containers = (\<lambda>_. Inr []), enc_created = (\<lambda>_. Inr []), enc_detail = (\<lambda>_. Inr [])\<rparr>"

definition demo_http :: httpReq where
  "demo_http = \<lparr>hr_param = (\<lambda>k. if k = ''containerId'' then ''web'' else ''a''),
     hr_query = (\<lambda>k. if k = ''timeout'' then ''5'' else if k = ''force'' then ''true'' else []),
     hr_queryArray = (\<lambda>_. []), hr_accept = []\<rparr>"

theorem container_actions_end_to_end_witness:
  "stopAgentContainer (\<lambda>_. Some ''web'') (agentDispatch demo_host demo_codecs ''1'') demo_http =
     (404, BodyError ''no such container'')"
proof -
  have h: "hr_param demo_http ''containerId'' = ''web''" "''web'' \<noteq> []" "parseTimeoutQuery demo_http = Some (Some 5)"
    "parseBoolQuery demo_http ''force'' = Some True" "parseBoolQuery demo_http ''volumes'' = Some False"
    by (simp_all add: demo_http_def parseTimeoutQuery_def parseBoolQuery_def parseBool_def Atoi_def parseUint_def isDigit_def
        digitVal_def)
  from container_actions_end_to_end [of demo_http _ _ _ _ "\<lambda>_. Some ''web''", OF h refl _ refl _ refl]
  show ?thesis by (simp add: demo_codecs_def demo_host_def demo_docker_def daemonResponse_def)
qed



text \<open>
  A multi-file upload reports each file. When every file of the form is dispatched, those that the agent
  wrote are listed as written and the others as failed with the agent's message; the status is 201
  exactly when none failed, 409 exactly when some failed and none was written, and 207 otherwise. The
  name each file is written under, below the directory of the request, is not empty and has no
  slash in it, or is the slash alone.
\<close>

theorem upload_reports_files:
  assumes "\<And>f b. (f, b) \<in> set files \<Longrightarrow> f \<noteq> [] \<and>
      marshal (FsWriteRequest \<lparr>fw_path = joinFsPath dir (partName f), fw_exclusive = ex\<rparr>) = Some (pay f) \<and>
      up agentID MethodFsWrite (pay f) b = Inr (res f b)"
  shows "\<exists>status ok failed. fsUpload marshal st up agentID dir ex (Some (fileParts files @ PartEOF # rest)) =
      Some (status, BodyUpload ok failed) \<and>
    ok = [\<lparr>uo_name = partName f, uo_error = []\<rparr>. (f, b) \<leftarrow> files, fileGood (res f b)] \<and>
    failed = [\<lparr>uo_name = partName f, uo_error = agentResultMessage st (res f b)\<rparr>. (f, b) \<leftarrow> files, \<not> fileGood (res f b)] \<and>
    (status = 201 \<longleftrightarrow> (\<forall>(f, b) \<in> set files. fileGood (res f b))) \<and>
    (status = 409 \<longleftrightarrow> files \<noteq> [] \<and> (\<forall>(f, b) \<in> set files. \<not> fileGood (res f b))) \<and> status \<in> {201, 207, 409} \<and>
    (\<forall>f. partName f \<noteq> [] \<and> (slash \<notin> set (partName f) \<or> partName f = ''/''))"
proof -
  let ?ok = "[\<lparr>uo_name = partName f, uo_error = []\<rparr>. (f, b) \<leftarrow> files, fileGood (res f b)]"
  let ?failed = "[\<lparr>uo_name = partName f, uo_error = agentResultMessage st (res f b)\<rparr>. (f, b) \<leftarrow> files, \<not> fileGood (res f b)]"
  have u: "fsUpload marshal st up agentID dir ex (Some (fileParts files @ PartEOF # rest)) =
      Some (uploadStatus ?ok ?failed, BodyUpload ?ok ?failed)"
    using uploadParts_files [of files marshal dir ex pay up agentID res st rest "[]" "[]"] assms
    by (simp add: fsUpload_def Let_def)
  have e: "?ok = [] \<longleftrightarrow> (\<forall>(f, b) \<in> set files. \<not> fileGood (res f b))"
    "?failed = [] \<longleftrightarrow> (\<forall>(f, b) \<in> set files. fileGood (res f b))" by (auto split: if_splits)
  have "files \<noteq> [] \<and> ?ok = [] \<Longrightarrow> ?failed \<noteq> []" using e by (cases files) auto
  with e have "uploadStatus ?ok ?failed = 201 \<longleftrightarrow> (\<forall>(f, b) \<in> set files. fileGood (res f b))"
    "uploadStatus ?ok ?failed = 409 \<longleftrightarrow> files \<noteq> [] \<and> (\<forall>(f, b) \<in> set files. \<not> fileGood (res f b))"
    "uploadStatus ?ok ?failed \<in> {201, 207, 409}"
    unfolding uploadStatus_def by auto
  with u Base_plain show ?thesis unfolding partName_def by blast
qed

theorem upload_reports_files_witness:
  "\<exists>ok failed. fsUpload (\<lambda>_. Some []) (\<lambda>_. ''error'') (\<lambda>_ _ _ b. Inr b) ''a'' ''dir'' True
       (Some (fileParts [(''x'', demo_result), (''y'', demo_result\<lparr>rs_code := 409\<rparr>)] @ PartEOF # [])) = Some (207, BodyUpload ok failed) \<and>
     ok = [\<lparr>uo_name = ''x'', uo_error = []\<rparr>]"
proof -
  let ?files = "[(''x'', demo_result), (''y'', demo_result\<lparr>rs_code := 409\<rparr>)]"
  have n: "partName ''x'' = ''x''" by (simp add: partName_def Base_def trimSlashes_def afterLast_def)
  from upload_reports_files [of ?files "\<lambda>_. Some []" "''dir''" True "\<lambda>_. []" "\<lambda>_ _ _ b. Inr b" "''a''" "\<lambda>_ b. b" "\<lambda>_. ''error''" "[]"]
  obtain status ok failed where u: "fsUpload (\<lambda>_. Some []) (\<lambda>_. ''error'') (\<lambda>_ _ _ b. Inr b) ''a'' ''dir'' True
      (Some (fileParts ?files @ PartEOF # [])) = Some (status, BodyUpload ok failed)"
    "ok = [\<lparr>uo_name = partName f, uo_error = []\<rparr>. (f, b) \<leftarrow> ?files, fileGood b]"
    "status = 201 \<longleftrightarrow> (\<forall>(f, b) \<in> set ?files. fileGood b)"
    "status = 409 \<longleftrightarrow> ?files \<noteq> [] \<and> (\<forall>(f, b) \<in> set ?files. \<not> fileGood b)" "status \<in> {201, 207, 409}" by auto
  have g: "fileGood demo_result" "\<not> fileGood (demo_result\<lparr>rs_code := 409\<rparr>)" by (simp_all add: fileGood_def demo_result_def)
  from u g n show ?thesis by auto
qed

end
