(* ===== verification/Metrics.thy ===== *)
theory Metrics
  imports RestApi
begin

text \<open>
  The metrics path: the agent's scrape of its exporters (\<^verbatim>\<open>pkg/agent/metrics.go\<close>), and the controller's
  reassembly and fleet-wide merge (\<^verbatim>\<open>pkg/controller/metrics.go\<close>). The exporters' answers, \<^verbatim>\<open>url.Parse\<close>, the
  parser of the exposition format and the JSON codec of the frames are parameters. A sample other than
  a synthesized gauge is opaque.
\<close>

section \<open>Targets\<close>

record scrapeTargetConfig =
  sc_name :: string
  sc_url :: string
  sc_path :: string

record parsedURL =
  u_scheme :: string
  u_host :: string
  u_path :: string
  u_rawPath :: string

datatype scrapeClient = TcpClient | UnixClient string

record scrapeTarget =
  tg_name :: string
  tg_reqURL :: string
  tg_client :: scrapeClient

datatype scrapeConfigErr =
    EmptyName | BadPath string | NoURL string | InvalidURL string | NoHost string | HostGiven string
  | NoSocket string | BadScheme string

definition defaultScrapePath :: string where
  "defaultScrapePath = ''/metrics''"

definition resolveScrapeTarget :: "(string \<Rightarrow> parsedURL option) \<Rightarrow> (parsedURL \<Rightarrow> string) \<Rightarrow> scrapeTargetConfig \<Rightarrow>
    scrapeConfigErr + scrapeTarget" where
  "resolveScrapeTarget parse urlString cfg =
     (if sc_name cfg = [] then Inl EmptyName
      else if sc_path cfg \<noteq> [] \<and> \<not> hasPrefix (sc_path cfg) ''/'' then Inl (BadPath (sc_name cfg))
      else if sc_url cfg = [] then Inl (NoURL (sc_name cfg))
      else (case parse (sc_url cfg) of
        None \<Rightarrow> Inl (InvalidURL (sc_name cfg))
      | Some u \<Rightarrow>
          if u_scheme u = ''http'' \<or> u_scheme u = ''https'' then
            (if u_host u = [] then Inl (NoHost (sc_name cfg))
             else (let u = (if sc_path cfg \<noteq> [] then u\<lparr>u_path := sc_path cfg, u_rawPath := []\<rparr>
                            else if u_path u = [] then u\<lparr>u_path := defaultScrapePath\<rparr> else u)
                   in Inr \<lparr>tg_name = sc_name cfg, tg_reqURL = urlString u, tg_client = TcpClient\<rparr>))
          else if u_scheme u = ''unix'' then
            (if u_host u \<noteq> [] then Inl (HostGiven (sc_name cfg))
             else if u_path u = [] then Inl (NoSocket (sc_name cfg))
             else Inr \<lparr>tg_name = sc_name cfg,
                    tg_reqURL = ''http://unix'' @ (if sc_path cfg = [] then defaultScrapePath else sc_path cfg),
                    tg_client = UnixClient (u_path u)\<rparr>)
          else Inl (BadScheme (sc_name cfg))))"

fun resolveScrapeTargets :: "(string \<Rightarrow> parsedURL option) \<Rightarrow> (parsedURL \<Rightarrow> string) \<Rightarrow> scrapeTargetConfig list \<Rightarrow>
    scrapeConfigErr + scrapeTarget list" where
  "resolveScrapeTargets parse urlString [] = Inr []"
| "resolveScrapeTargets parse urlString (cfg # cfgs) =
     (case resolveScrapeTarget parse urlString cfg of
        Inl err \<Rightarrow> Inl err
      | Inr t \<Rightarrow> (case resolveScrapeTargets parse urlString cfgs of Inl err \<Rightarrow> Inl err | Inr ts \<Rightarrow> Inr (t # ts)))"

section \<open>Streaming an exporter\<close>

definition scrapeMaxBodySize :: nat where
  "scrapeMaxBodySize = 16 * 1024 * 1024"

text \<open>
  What fetching a target returns: an error in building or in sending the request, a status other than
  200, or the reads of the body, each with its end and whether the handler's context was done after it.
\<close>

datatype scrapeEnd = ScMore bool | ScEOF | ScErr string

datatype fetched = FetchErr string | FetchStatus nat | FetchBody "(bytes \<times> scrapeEnd) list"

definition chunkFrame :: "string \<Rightarrow> bytes \<Rightarrow> metricsFrame" where
  "chunkFrame name d = \<lparr>mf_exporter = name, mf_chunk = d, mf_done = False, mf_error = []\<rparr>"

definition doneFrame :: "string \<Rightarrow> string \<Rightarrow> metricsFrame" where
  "doneFrame name err = \<lparr>mf_exporter = name, mf_chunk = [], mf_done = True, mf_error = err\<rparr>"

fun scrapeLoop :: "string \<Rightarrow> (bytes \<times> scrapeEnd) list \<Rightarrow> nat \<Rightarrow> metricsFrame list option" where
  "scrapeLoop name [] n = None"
| "scrapeLoop name ((d, e) # rest) n =
     (let n' = n + length d; sent = (if d = [] then [] else [chunkFrame name d]) in
      if d \<noteq> [] \<and> scrapeMaxBodySize < n' then Some [doneFrame name ''exposition exceeds size limit'']
      else (case e of
        ScEOF \<Rightarrow> Some (sent @ [doneFrame name []])
      | ScErr msg \<Rightarrow> Some (sent @ [doneFrame name msg])
      | ScMore True \<Rightarrow> Some sent
      | ScMore False \<Rightarrow> map_option (\<lambda>fs. sent @ fs) (scrapeLoop name rest n')))"

definition streamTarget :: "scrapeTarget \<Rightarrow> fetched \<Rightarrow> metricsFrame list option" where
  "streamTarget t res =
     (case res of
        FetchErr msg \<Rightarrow> Some [doneFrame (tg_name t) msg]
      | FetchStatus code \<Rightarrow> Some [doneFrame (tg_name t) (''unexpected status '' @ formatUint code @ '' from '' @ tg_reqURL t)]
      | FetchBody reads \<Rightarrow> scrapeLoop (tg_name t) reads 0)"

text \<open>The targets in turn, each with whether the context was done before it.\<close>

fun scrapeAll :: "(scrapeTarget \<times> bool \<times> fetched) list \<Rightarrow> metricsFrame list option" where
  "scrapeAll [] = Some []"
| "scrapeAll ((t, ctxDone, res) # ts) =
     (if ctxDone then Some []
      else (case streamTarget t res of
        None \<Rightarrow> None
      | Some fs \<Rightarrow> map_option (\<lambda>gs. fs @ gs) (scrapeAll ts)))"

definition handleScrape :: "string \<Rightarrow> (metricsFrame \<Rightarrow> string + bytes) \<Rightarrow> (scrapeTarget \<times> bool \<times> fetched) list \<Rightarrow> bool list \<Rightarrow>
    agentRequest \<Rightarrow> agentEvent list option" where
  "handleScrape nodeName encode targets sends req =
     map_option (\<lambda>frames. fst (emitFrames encode nodeName (rq_request_id req) frames sends) @
         [resultEvent nodeName (rq_request_id req) 200 []])
       (scrapeAll targets)"

section \<open>Metric families\<close>

text \<open>The labels every series gets and the names of the health gauges.\<close>

abbreviation metricLabelAgent :: string where
  "metricLabelAgent \<equiv> ''agent''"

abbreviation metricLabelExporter :: string where
  "metricLabelExporter \<equiv> ''exporter''"

abbreviation metricAgentUp :: string where
  "metricAgentUp \<equiv> ''agent_up''"

abbreviation metricTargetUp :: string where
  "metricTargetUp \<equiv> ''hostlink_scrape_target_up''"

datatype metricType = COUNTER | GAUGE | SUMMARY | UNTYPED | HISTOGRAM | GAUGE_HISTOGRAM

datatype 'v sample = GaugeOf bool | Sample 'v

record 'v metric =
  m_labels :: "(string \<times> string) list"
  m_sample :: "'v sample"

record 'v family =
  fm_name :: string
  fm_help :: string
  fm_type :: metricType
  fm_metrics :: "'v metric list"

text \<open>A set of constant labels, in the order in which the map is ranged over.\<close>

type_synonym labels = "(string \<times> string) list"

definition hasLabel :: "'v metric \<Rightarrow> string \<Rightarrow> bool" where
  "hasLabel m name \<longleftrightarrow> name \<in> set (map fst (m_labels m))"

fun addLabels :: "'v metric \<Rightarrow> labels \<Rightarrow> 'v metric" where
  "addLabels m [] = m"
| "addLabels m ((name, v) # ls) =
     addLabels (if hasLabel m name then m else m\<lparr>m_labels := m_labels m @ [(name, v)]\<rparr>) ls"

definition injectLabels :: "labels \<Rightarrow> 'v family \<Rightarrow> 'v family" where
  "injectLabels constLabels mf =
     mf\<lparr>fm_metrics := map (\<lambda>m. (addLabels m constLabels)\<lparr>m_labels := sort_key fst (m_labels (addLabels m constLabels))\<rparr>) (fm_metrics mf)\<rparr>"

definition gaugeFamily :: "string \<Rightarrow> string \<Rightarrow> bool \<Rightarrow> labels \<Rightarrow> 'v family" where
  "gaugeFamily name help up constLabels =
     \<lparr>fm_name = name, fm_help = help, fm_type = GAUGE,
      fm_metrics = [\<lparr>m_labels = sort_key fst constLabels, m_sample = GaugeOf up\<rparr>]\<rparr>"

type_synonym 'v familyMerger = "(string, 'v family) gomap"

abbreviation newFamilyMerger :: "'v familyMerger" where
  "newFamilyMerger \<equiv> []"

definition merger_add :: "'v family \<Rightarrow> 'v familyMerger \<Rightarrow> 'v familyMerger" where
  "merger_add mf byName =
     (if fm_name mf = [] then byName
      else (case mget byName (fm_name mf) of
        None \<Rightarrow> mput (fm_name mf) mf byName
      | Some existing \<Rightarrow>
          if fm_type existing \<noteq> fm_type mf then byName
          else mput (fm_name mf) (existing\<lparr>fm_metrics := fm_metrics existing @ fm_metrics mf\<rparr>) byName))"

definition merger_families :: "'v familyMerger \<Rightarrow> 'v family list" where
  "merger_families byName = sort_key fm_name (map snd byName)"

section \<open>Reassembly\<close>

text \<open>
  The accumulator of one agent. The families it hands to the shared merger are listed in order; the
  merger adds them under its mutex, interleaved with those of other agents.
\<close>

record 'v accumulator =
  ac_agentID :: string
  ac_buffers :: "(string, bytes) gomap"
  ac_completed :: bool
  ac_added :: "'v family list"

definition newScrapeAccumulator :: "string \<Rightarrow> 'v accumulator" where
  "newScrapeAccumulator agentID = \<lparr>ac_agentID = agentID, ac_buffers = [], ac_completed = False, ac_added = []\<rparr>"

definition targetUp :: "labels \<Rightarrow> bool \<Rightarrow> 'v family" where
  "targetUp constLabels up =
     gaugeFamily metricTargetUp ''1 if the agent scraped this exporter successfully, 0 otherwise.'' up constLabels"

definition agentUp :: "string \<Rightarrow> bool \<Rightarrow> 'v family" where
  "agentUp agentID up = gaugeFamily metricAgentUp ''1 if the agent was scraped this round, 0 otherwise.'' up [(metricLabelAgent, agentID)]"

definition foldBody :: "(bytes \<Rightarrow> 'v family list option) \<Rightarrow> bytes \<Rightarrow> labels \<Rightarrow> 'v family list \<times> bool" where
  "foldBody parse body constLabels =
     (case parse body of None \<Rightarrow> ([], False) | Some parsed \<Rightarrow> (map (injectLabels constLabels) parsed, True))"

definition ingest :: "(bytes \<Rightarrow> 'v family list option) \<Rightarrow> metricsFrame \<Rightarrow> 'v accumulator \<Rightarrow> 'v accumulator" where
  "ingest parse mf acc =
     (if \<not> mf_done mf then
        (if mf_chunk mf = [] then acc
         else acc\<lparr>ac_buffers := mput (mf_exporter mf)
           ((case mget (ac_buffers acc) (mf_exporter mf) of None \<Rightarrow> [] | Some buf \<Rightarrow> buf) @ mf_chunk mf) (ac_buffers acc)\<rparr>)
      else
        (let buf = mget (ac_buffers acc) (mf_exporter mf);
             constLabels = [(metricLabelAgent, ac_agentID acc), (metricLabelExporter, mf_exporter mf)];
             (fams, up) = (if mf_error mf \<noteq> [] then ([], False)
               else (case buf of None \<Rightarrow> ([], True) | Some body \<Rightarrow> foldBody parse body constLabels))
         in acc\<lparr>ac_buffers := mdel (mf_exporter mf) (ac_buffers acc),
                ac_added := ac_added acc @ fams @ [targetUp constLabels up]\<rparr>))"

definition scrape_onFrame :: "(bytes \<Rightarrow> metricsFrame option) \<Rightarrow> (bytes \<Rightarrow> 'v family list option) \<Rightarrow> streamFrame \<Rightarrow> 'v accumulator \<Rightarrow>
    bool \<times> 'v accumulator" where
  "scrape_onFrame decode parse f acc =
     (if sf_final f then (True, if sf_code f = 200 then acc\<lparr>ac_completed := True\<rparr> else acc)
      else (False, case decode (sf_payload f) of None \<Rightarrow> acc | Some mf \<Rightarrow> ingest parse mf acc))"

text \<open>A stream that ends without a terminal frame leaves the agent marked as not scraped.\<close>

definition scrape_onAbort :: "'v accumulator \<Rightarrow> 'v accumulator" where
  "scrape_onAbort acc = acc"

text \<open>What \<^verbatim>\<open>scrapeAgent\<close> hands to the merger, the agent's own gauge last.\<close>

definition scrapeAgent :: "(bytes \<Rightarrow> metricsFrame option) \<Rightarrow> (bytes \<Rightarrow> 'v family list option) \<Rightarrow> string \<Rightarrow>
    (apiErr + streamTurn list) \<Rightarrow> 'v family list option" where
  "scrapeAgent decode parse agentID dispatched =
     (case dispatched of
        Inl err \<Rightarrow> Some [agentUp agentID False]
      | Inr turns \<Rightarrow>
          map_option (\<lambda>acc. ac_added acc @ [agentUp agentID (ac_completed acc)])
            (consumeStream (scrape_onFrame decode parse) scrape_onAbort turns (newScrapeAccumulator agentID)))"

text \<open>
  The handler: the families added by all agents in the order in which the merger took them, and the
  families encoded before the first that fails. A list that fails is answered 502.
\<close>

definition writeExposition :: "('v family \<Rightarrow> bool) \<Rightarrow> 'v family list \<Rightarrow> 'v family list" where
  "writeExposition encodes fams = takeWhile encodes fams"

definition agentMetrics :: "(unit + string list) \<Rightarrow> ('v family \<Rightarrow> bool) \<Rightarrow> 'v family list \<Rightarrow> response + 'v family list" where
  "agentMetrics listed encodes added =
     (case listed of
        Inl _ \<Rightarrow> Inl (502, BodyError ''list online agents failed'')
      | Inr agentIDs \<Rightarrow> Inr (writeExposition encodes (merger_families (fold merger_add added newFamilyMerger))))"

section \<open>The merge\<close>

text \<open>Reference: the family of a name, made of the first one added and the series of the later ones of its type.\<close>

definition mergedFor :: "string \<Rightarrow> 'v family list \<Rightarrow> 'v family option" where
  "mergedFor n added =
     (case filter (\<lambda>f. fm_name f = n) added of
        [] \<Rightarrow> None
      | f # fs \<Rightarrow> Some (f\<lparr>fm_metrics := fm_metrics f @ concat (map fm_metrics (filter (\<lambda>g. fm_type g = fm_type f) fs))\<rparr>))"

lemma mergedFor_snoc:
  "mergedFor n (added @ [x]) =
     (if fm_name x \<noteq> n then mergedFor n added
      else (case mergedFor n added of
        None \<Rightarrow> Some x
      | Some f \<Rightarrow> if fm_type f \<noteq> fm_type x then Some f else Some (f\<lparr>fm_metrics := fm_metrics f @ fm_metrics x\<rparr>)))"
  by (auto simp: mergedFor_def split: list.splits)

lemma mget_merger_add:
  "mget (merger_add mf m) n =
     (if fm_name mf = [] \<or> fm_name mf \<noteq> n then mget m n
      else (case mget m n of
        None \<Rightarrow> Some mf
      | Some f \<Rightarrow> if fm_type f \<noteq> fm_type mf then Some f else Some (f\<lparr>fm_metrics := fm_metrics f @ fm_metrics mf\<rparr>)))"
  by (auto simp: merger_add_def gomap_simps split: option.splits)

lemma mget_merge: "mget (fold merger_add added newFamilyMerger) n = (if n = [] then None else mergedFor n added)"
  by (induction added rule: rev_induct) (auto simp: mget_merger_add mergedFor_snoc mergedFor_def [of n "[]"])

lemma mwf_merge: "mwf (fold merger_add added newFamilyMerger)"
  by (induction added rule: rev_induct) (auto simp: merger_add_def gomap_wf split: option.splits)

lemma mergedFor_name: "mergedFor n added = Some f \<Longrightarrow> fm_name f = n"
  using filter_eq_ConsD [of "\<lambda>f. fm_name f = n" added] by (fastforce simp: mergedFor_def split: list.splits)

lemma merge_entries: "(n, f) \<in> set (fold merger_add added newFamilyMerger) \<longleftrightarrow> n \<noteq> [] \<and> mergedFor n added = Some f"
  by (simp add: mwf_mget_iff [OF mwf_merge] mget_merge)

lemma merge_names: "map fm_name (map snd (fold merger_add added newFamilyMerger)) = map fst (fold merger_add added newFamilyMerger)"
proof -
  have "fm_name (snd x) = fst x" if "x \<in> set (fold merger_add added newFamilyMerger)" for x
    using that merge_entries [of "fst x" "snd x" added] mergedFor_name by (metis prod.collapse)
  then show ?thesis by simp
qed

lemma distinct_sort_names: "distinct (map f xs) \<Longrightarrow> distinct (map f (sort_key f xs))"
  by (simp add: distinct_map)

section \<open>The reassembly\<close>

text \<open>Reference: the exposition of a target, complete and within the limit, or the failure.\<close>

definition expositionFrom :: "nat \<Rightarrow> (bytes \<times> scrapeEnd) list \<Rightarrow> bytes option" where
  "expositionFrom n reads =
     (case dropWhile (\<lambda>(d, e). e = ScMore False) reads of
        (d, ScEOF) # _ \<Rightarrow>
          (let body = concat (map fst (takeWhile (\<lambda>(d, e). e = ScMore False) reads)) @ d in
           if n + length body \<le> scrapeMaxBodySize then Some body else None)
      | _ \<Rightarrow> None)"

definition exposition :: "fetched \<Rightarrow> bytes option" where
  "exposition res = (case res of FetchBody reads \<Rightarrow> expositionFrom 0 reads | _ \<Rightarrow> None)"

lemma expositionFrom_simps:
  "expositionFrom n [] = None"
  "expositionFrom n ((d, ScEOF) # rest) = (if n + length d \<le> scrapeMaxBodySize then Some d else None)"
  "expositionFrom n ((d, ScErr msg) # rest) = None"
  "expositionFrom n ((d, ScMore False) # rest) = map_option (\<lambda>b. d @ b) (expositionFrom (n + length d) rest)"
  by (simp_all add: expositionFrom_def Let_def)
    (cases "dropWhile (\<lambda>(d, e). e = ScMore False) rest";
     simp add: add.assoc split: scrapeEnd.splits prod.splits del: dropWhile_eq_Nil_conv)

lemma expositionFrom_large: "scrapeMaxBodySize < n \<Longrightarrow> expositionFrom n reads = None"
  by (auto simp: expositionFrom_def Let_def split: list.splits scrapeEnd.splits)

definition targetFamilies :: "(bytes \<Rightarrow> 'v family list option) \<Rightarrow> string \<Rightarrow> scrapeTarget \<Rightarrow> fetched \<Rightarrow> 'v family list" where
  "targetFamilies parse agentID t res =
     (let ls = [(metricLabelAgent, agentID), (metricLabelExporter, tg_name t)] in
      case exposition res of
        None \<Rightarrow> [targetUp ls False]
      | Some body \<Rightarrow>
          if body = [] then [targetUp ls True]
          else (case parse body of
            None \<Rightarrow> [targetUp ls False]
          | Some fams \<Rightarrow> map (injectLabels ls) fams @ [targetUp ls True]))"

definition uncancelled :: "fetched \<Rightarrow> bool" where
  "uncancelled res \<longleftrightarrow>
     (case res of
        FetchErr msg \<Rightarrow> msg \<noteq> []
      | FetchStatus code \<Rightarrow> True
      | FetchBody reads \<Rightarrow> (\<forall>(d, e) \<in> set reads. e \<noteq> ScMore True \<and> e \<noteq> ScErr []))"

lemma ingest_chunks:
  "[] \<notin> set ds \<Longrightarrow> mget (ac_buffers acc) name = (if b = [] then None else Some b) \<Longrightarrow>
   \<exists>bufs. fold (ingest parse) (map (chunkFrame name) ds) acc = acc\<lparr>ac_buffers := bufs\<rparr> \<and>
     mget bufs = (mget (ac_buffers acc))(name := (if b @ concat ds = [] then None else Some (b @ concat ds)))"
proof (induction ds arbitrary: acc b)
  case Nil
  then show ?case by (intro exI [of _ "ac_buffers acc"]) auto
next
  case (Cons d ds)
  define acc' where "acc' = ingest parse (chunkFrame name d) acc"
  have d: "d \<noteq> []" using Cons.prems(1) by auto
  then have acc': "acc' = acc\<lparr>ac_buffers := mput name (b @ d) (ac_buffers acc)\<rparr>"
    using Cons.prems(2) by (auto simp: acc'_def ingest_def chunkFrame_def)
  have "mget (ac_buffers acc') name = (if b @ d = [] then None else Some (b @ d))" using d by (simp add: acc' gomap_simps)
  moreover have "[] \<notin> set ds" using Cons.prems(1) by simp
  ultimately obtain bufs where
    "fold (ingest parse) (map (chunkFrame name) ds) acc' = acc'\<lparr>ac_buffers := bufs\<rparr>"
    "mget bufs = (mget (ac_buffers acc'))(name := (if (b @ d) @ concat ds = [] then None else Some ((b @ d) @ concat ds)))"
    using Cons.IH by blast
  then show ?case by (intro exI [of _ bufs]) (auto simp: acc'_def [symmetric] acc' gomap_simps)
qed

lemma scrapeLoop_shape:
  assumes "scrapeLoop name reads n = Some fs" "\<forall>(d, e) \<in> set reads. e \<noteq> ScMore True \<and> e \<noteq> ScErr []" "n \<le> scrapeMaxBodySize"
  shows "\<exists>ds err. fs = map (chunkFrame name) ds @ [doneFrame name err] \<and> [] \<notin> set ds \<and>
    expositionFrom n reads = (if err = [] then Some (concat ds) else None)"
  using assms
proof (induction name reads n arbitrary: fs rule: scrapeLoop.induct)
  case (1 name n)
  then show ?case by simp
next
  case (2 name d e rest n)
  let ?new = "if d = [] then [] else [d]"
  have new: "(if d = [] then [] else [chunkFrame name d]) = map (chunkFrame name) ?new" "[] \<notin> set ?new" "concat ?new = d" by auto
  have e: "e \<noteq> ScMore True" "e \<noteq> ScErr []" using 2(3) by auto
  show ?case
  proof (cases "scrapeMaxBodySize < n + length d")
    case True
    with 2(4) have "d \<noteq> []" by auto
    with True 2(2) have fs: "fs = [doneFrame name ''exposition exceeds size limit'']" by (simp add: Let_def)
    have "expositionFrom n ((d, e) # rest) = None"
      using True e by (cases e) (auto simp: expositionFrom_simps expositionFrom_large)
    with fs show ?thesis by (intro exI [of _ "[]"] exI [of _ "''exposition exceeds size limit''"]) simp
  next
    case False
    show ?thesis
    proof (cases e)
      case ScEOF
      with 2(2) False have "fs = map (chunkFrame name) ?new @ [doneFrame name []]" by (auto simp: Let_def)
      with ScEOF False new show ?thesis by (intro exI [of _ ?new] exI [of _ "[]"]) (simp add: expositionFrom_simps)
    next
      case (ScErr msg)
      with 2(2) False have "fs = map (chunkFrame name) ?new @ [doneFrame name msg]" by (auto simp: Let_def)
      with ScErr e new show ?thesis by (intro exI [of _ ?new] exI [of _ msg]) (simp add: expositionFrom_simps)
    next
      case (ScMore b)
      with e have more: "e = ScMore False" by auto
      with 2(2) False obtain fs' where fs': "scrapeLoop name rest (n + length d) = Some fs'" "fs = map (chunkFrame name) ?new @ fs'"
        by (auto simp: Let_def)
      have r: "\<forall>(d, e) \<in> set rest. e \<noteq> ScMore True \<and> e \<noteq> ScErr []" using 2(3) by auto
      have "\<exists>ds err. fs' = map (chunkFrame name) ds @ [doneFrame name err] \<and> [] \<notin> set ds \<and>
          expositionFrom (n + length d) rest = (if err = [] then Some (concat ds) else None)"
        by (rule 2(1) [OF refl refl _ more _ fs'(1) r]) (use False in auto)
      then obtain ds err where "fs' = map (chunkFrame name) ds @ [doneFrame name err]" "[] \<notin> set ds"
        "expositionFrom (n + length d) rest = (if err = [] then Some (concat ds) else None)" by blast
      with fs'(2) more new show ?thesis
        by (intro exI [of _ "?new @ ds"] exI [of _ err]) (simp add: expositionFrom_simps)
    qed
  qed
qed

lemma streamTarget_shape:
  assumes "streamTarget t res = Some fs" "uncancelled res"
  shows "\<exists>ds err. fs = map (chunkFrame (tg_name t)) ds @ [doneFrame (tg_name t) err] \<and> [] \<notin> set ds \<and>
    exposition res = (if err = [] then Some (concat ds) else None)"
proof (cases res)
  case (FetchErr msg)
  with assms show ?thesis by (intro exI [of _ "[]"] exI [of _ msg]) (auto simp: streamTarget_def uncancelled_def exposition_def)
next
  case (FetchStatus code)
  with assms show ?thesis
    by (intro exI [of _ "[]"] exI [of _ "''unexpected status '' @ formatUint code @ '' from '' @ tg_reqURL t"])
      (simp add: streamTarget_def exposition_def)
next
  case (FetchBody reads)
  with assms scrapeLoop_shape [of "tg_name t" reads 0 fs] show ?thesis
    by (simp add: streamTarget_def uncancelled_def exposition_def)
qed

lemma ingest_target:
  assumes "[] \<notin> set ds" "mget (ac_buffers acc) = Map.empty" "ac_agentID acc = agentID"
    and "exposition res = (if err = [] then Some (concat ds) else None)"
  shows "\<exists>bufs. fold (ingest parse) (map (chunkFrame (tg_name t)) ds @ [doneFrame (tg_name t) err]) acc =
      acc\<lparr>ac_buffers := bufs, ac_added := ac_added acc @ targetFamilies parse agentID t res\<rparr> \<and> mget bufs = Map.empty"
proof -
  let ?n = "tg_name t"
  from ingest_chunks [OF assms(1), of acc ?n "[]" parse] assms(2) obtain bufs where
    f: "fold (ingest parse) (map (chunkFrame ?n) ds) acc = acc\<lparr>ac_buffers := bufs\<rparr>"
    and b: "mget bufs = Map.empty(?n := (if concat ds = [] then None else Some (concat ds)))" by auto
  have "ingest parse (doneFrame ?n err) (acc\<lparr>ac_buffers := bufs\<rparr>) =
      acc\<lparr>ac_buffers := mdel ?n bufs, ac_added := ac_added acc @ targetFamilies parse agentID t res\<rparr>"
    using assms(3,4) b
    by (cases "err = []"; cases "concat ds = []"; cases "parse (concat ds)")
      (simp_all add: ingest_def doneFrame_def targetFamilies_def foldBody_def Let_def del: concat_eq_Nil_conv)
  moreover have "mget (mdel ?n bufs) = Map.empty" by (auto simp: gomap_simps b)
  ultimately show ?thesis using f by auto
qed

lemma ingest_all:
  assumes "scrapeAll (map (\<lambda>(t, res). (t, False, res)) ts) = Some fs" "\<forall>(t, res) \<in> set ts. uncancelled res"
    and "mget (ac_buffers acc) = Map.empty" "ac_agentID acc = agentID"
  shows "\<exists>bufs. fold (ingest parse) fs acc =
      acc\<lparr>ac_buffers := bufs, ac_added := ac_added acc @ concat (map (\<lambda>(t, res). targetFamilies parse agentID t res) ts)\<rparr>"
  using assms
proof (induction ts arbitrary: fs acc)
  case Nil
  then show ?case by (intro exI [of _ "ac_buffers acc"]) simp
next
  case (Cons x ts)
  obtain t res where x: "x = (t, res)" by (cases x)
  with Cons.prems(1) obtain f1 f2 where f: "streamTarget t res = Some f1"
    "scrapeAll (map (\<lambda>(t, res). (t, False, res)) ts) = Some f2" "fs = f1 @ f2"
    by (auto split: option.splits)
  from streamTarget_shape [OF f(1)] Cons.prems(2) x obtain ds err where
    s: "f1 = map (chunkFrame (tg_name t)) ds @ [doneFrame (tg_name t) err]" "[] \<notin> set ds"
      "exposition res = (if err = [] then Some (concat ds) else None)" by auto
  from ingest_target [OF s(2) Cons.prems(3,4) s(3)] obtain bufs where
    b: "fold (ingest parse) f1 acc = acc\<lparr>ac_buffers := bufs, ac_added := ac_added acc @ targetFamilies parse agentID t res\<rparr>"
      "mget bufs = Map.empty" unfolding s(1) by blast
  have "\<forall>(t, res) \<in> set ts. uncancelled res" using Cons.prems(2) by auto
  from Cons.IH [OF f(2) this, where acc = "fold (ingest parse) f1 acc"] b Cons.prems(4) f(3) x show ?case by auto
qed

lemma consume_scrape:
  assumes "\<forall>f \<in> set fs. \<exists>bs. encode f = Inr bs \<and> decode bs = Some f"
  shows "consumeStream (scrape_onFrame decode parse) scrape_onAbort
      (map TurnFrame (eventFrames (fst (emitFrames encode n rid fs []) @ [resultEvent n rid 200 []]))) acc =
    Some ((fold (ingest parse) fs acc)\<lparr>ac_completed := True\<rparr>)"
  using assms
proof (induction fs arbitrary: acc)
  case Nil
  show ?case by (simp add: eventFrames_def resultEvent_def scrape_onFrame_def)
next
  case (Cons f fs)
  then obtain bs where bs: "encode f = Inr bs" "decode bs = Some f" by auto
  from Cons.IH [of "ingest parse f acc"] Cons.prems bs show ?case
    by (auto simp: eventFrames_def progressEvent_def scrape_onFrame_def split: prod.splits)
qed

section \<open>Properties\<close>

text \<open>
  (C35) A scrape arrives whole. When the agent was not cancelled and its frames all arrive, the controller
  adds, for each exporter in turn, the families of its complete exposition with the agent and exporter
  labels and then its gauge, up; an exporter that could not be fetched, answered with another status,
  broke off, passed the limit or cannot be parsed adds nothing but its gauge, down; and the agent
  is up. An agent that cannot be reached adds nothing but its own gauge, down.
\<close>

theorem scrape_reassembled:
  assumes "scrapeAll (map (\<lambda>(t, res). (t, False, res)) ts) = Some frames"
    and "\<forall>(t, res) \<in> set ts. uncancelled res"
    and "\<forall>f \<in> set frames. \<exists>bs. encode f = Inr bs \<and> decode bs = Some f"
  shows "\<exists>evs. handleScrape node encode (map (\<lambda>(t, res). (t, False, res)) ts) [] req = Some evs \<and>
    scrapeAgent decode parse agentID (Inr (map TurnFrame (eventFrames evs))) =
      Some (concat (map (\<lambda>(t, res). targetFamilies parse agentID t res) ts) @ [agentUp agentID True]) \<and>
    scrapeAgent decode parse agentID (Inl err) = Some [agentUp agentID False]"
proof -
  let ?evs = "fst (emitFrames encode node (rq_request_id req) frames []) @ [resultEvent node (rq_request_id req) 200 []]"
  have h: "handleScrape node encode (map (\<lambda>(t, res). (t, False, res)) ts) [] req = Some ?evs"
    using assms(1) by (simp add: handleScrape_def)
  have "mget (ac_buffers (newScrapeAccumulator agentID)) = Map.empty" by (simp add: newScrapeAccumulator_def)
  from ingest_all [OF assms(1,2) this, where parse = parse and agentID = agentID] obtain bufs where
    "fold (ingest parse) frames (newScrapeAccumulator agentID) = (newScrapeAccumulator agentID)\<lparr>ac_buffers := bufs,
       ac_added := concat (map (\<lambda>(t, res). targetFamilies parse agentID t res) ts)\<rparr>"
    by (auto simp: newScrapeAccumulator_def)
  with consume_scrape [OF assms(3), where acc = "newScrapeAccumulator agentID" and parse = parse and n = node and rid = "rq_request_id req"]
  have "scrapeAgent decode parse agentID (Inr (map TurnFrame (eventFrames ?evs))) =
      Some (concat (map (\<lambda>(t, res). targetFamilies parse agentID t res) ts) @ [agentUp agentID True])"
    by (simp add: scrapeAgent_def)
  with h show ?thesis by (auto simp: scrapeAgent_def)
qed

text \<open>
  (C36) The merged exposition. In whatever order the agents' families reach the merger, the result has one
  family per name, in order of the names, with the help and type of the first one added under
  that name and exactly the series of all that were added with that name and type.
\<close>

theorem metrics_merged:
  "\<exists>fams. agentMetrics (Inr agentIDs) (\<lambda>_. True) added = Inr fams \<and>
     sorted (map fm_name fams) \<and> distinct (map fm_name fams) \<and>
     (\<forall>f. f \<in> set fams \<longleftrightarrow> fm_name f \<noteq> [] \<and> (\<exists>g gs. filter (\<lambda>h. fm_name h = fm_name f) added = g # gs \<and>
        f = g\<lparr>fm_metrics := fm_metrics g @ concat (map fm_metrics (filter (\<lambda>h. fm_type h = fm_type g) gs))\<rparr>))"
proof -
  let ?m = "fold merger_add added []"
  let ?f = "merger_families ?m"
  have d: "distinct (map fst ?m)" using mwf_merge [of added] by (simp add: mwf_def)
  then have "distinct (map fm_name (map snd ?m))" by (simp only: merge_names)
  then have "distinct (map fm_name ?f)" unfolding merger_families_def by (rule distinct_sort_names)
  moreover have "sorted (map fm_name ?f)" by (simp add: merger_families_def)
  moreover have "f \<in> set ?f \<longleftrightarrow> fm_name f \<noteq> [] \<and> mergedFor (fm_name f) added = Some f" for f
  proof -
    have "f \<in> set ?f \<longleftrightarrow> (\<exists>n. (n, f) \<in> set ?m)" unfolding merger_families_def set_sort by force
    also have "\<dots> \<longleftrightarrow> fm_name f \<noteq> [] \<and> mergedFor (fm_name f) added = Some f"
      using mergedFor_name [of _ added f] by (auto simp: merge_entries)
    finally show ?thesis .
  qed
  ultimately show ?thesis
    by (intro exI [of _ ?f]) (auto simp: agentMetrics_def writeExposition_def mergedFor_def split: list.splits)
qed

definition demo_target :: scrapeTarget where
  "demo_target = \<lparr>tg_name = ''node'', tg_reqURL = ''http://x/metrics'', tg_client = TcpClient\<rparr>"

definition demo_encode :: "metricsFrame \<Rightarrow> string + bytes" where
  "demo_encode f = Inr (if mf_done f then ''d'' else ''c'')"

definition demo_decode :: "bytes \<Rightarrow> metricsFrame option" where
  "demo_decode bs = Some (if bs = ''d'' then doneFrame ''node'' [] else chunkFrame ''node'' ''m 1'')"

theorem scrape_reassembled_witness:
  "\<exists>evs. handleScrape ''n'' demo_encode [(demo_target, False, FetchBody [(''m 1'', ScEOF)])] []
       \<lparr>rq_request_id = ''1'', rq_method = ''metrics.scrape'', rq_payload = []\<rparr> = Some evs \<and>
     scrapeAgent demo_decode (\<lambda>b. Some [gaugeFamily b [] True [] :: nat family]) ''a'' (Inr (map TurnFrame (eventFrames evs))) =
       Some ([injectLabels [(metricLabelAgent, ''a''), (metricLabelExporter, ''node'')] (gaugeFamily ''m 1'' [] True []),
              targetUp [(metricLabelAgent, ''a''), (metricLabelExporter, ''node'')] True] @ [agentUp ''a'' True])"
proof -
  let ?ts = "[(demo_target, FetchBody [(''m 1'', ScEOF)])]"
  have a: "scrapeAll (map (\<lambda>(t, res). (t, False, res)) ?ts) = Some [chunkFrame ''node'' ''m 1'', doneFrame ''node'' []]"
    by (simp add: streamTarget_def demo_target_def scrapeMaxBodySize_def Let_def)
  have u: "\<forall>(t, res) \<in> set ?ts. uncancelled res" by (simp add: uncancelled_def)
  have c: "\<forall>f \<in> set [chunkFrame ''node'' ''m 1'', doneFrame ''node'' []]. \<exists>bs. demo_encode f = Inr bs \<and> demo_decode bs = Some f"
    by (simp add: demo_encode_def demo_decode_def chunkFrame_def doneFrame_def)
  have t: "targetFamilies (\<lambda>b. Some [gaugeFamily b [] True [] :: nat family]) ''a'' demo_target (FetchBody [(''m 1'', ScEOF)]) =
      [injectLabels [(metricLabelAgent, ''a''), (metricLabelExporter, ''node'')] (gaugeFamily ''m 1'' [] True []),
       targetUp [(metricLabelAgent, ''a''), (metricLabelExporter, ''node'')] True]"
    by (simp add: targetFamilies_def exposition_def expositionFrom_simps scrapeMaxBodySize_def demo_target_def Let_def)
  from scrape_reassembled [OF a u c, where parse = "\<lambda>b. Some [gaugeFamily b [] True [] :: nat family]" and agentID = "''a''"
    and node = "''n''" and req = "\<lparr>rq_request_id = ''1'', rq_method = ''metrics.scrape'', rq_payload = []\<rparr>" and err = OtherErr] t
  show ?thesis by auto
qed

end
