(* ===== verification/PortSubscription.thy ===== *)
theory PortSubscription
  imports RedisPorts
begin

text \<open>
  The background subscription of \<^verbatim>\<open>redisPortStore\<close> (\<^verbatim>\<open>pkg/controller/ports.go\<close>): the goroutine that
  \<^verbatim>\<open>newRedisPortStore\<close> starts (\<^verbatim>\<open>runSubscription\<close>, \<^verbatim>\<open>listen\<close>, \<^verbatim>\<open>setSubscription\<close>,
  \<^verbatim>\<open>clearSubscription\<close>) beside any number of callers of \<^verbatim>\<open>close\<close>. Each is a program counter, one step
  per statement that reads or writes what they share (a section under \<^verbatim>\<open>subMu\<close> is one step), and an
  execution is any interleaving of their steps. The theorem is that \<^verbatim>\<open>close\<close> terminates: it always
  gets past its wait for the goroutine, and what it leaves behind is closed.

  Of go-redis the model uses documented facts and no more: \<^verbatim>\<open>Subscribe\<close> and \<^verbatim>\<open>PubSub.Close\<close> return, with or
  without an error; a \<^verbatim>\<open>ReceiveMessage\<close> that is called after \<^verbatim>\<open>Close\<close> fails; and one that is blocked may
  return a message, return an error, or stay blocked for ever, whatever its context says, unless
  \<^verbatim>\<open>Close\<close> is called, after which it returns.
\<close>

section \<open>State\<close>

text \<open>The statement the goroutine is about to run; the argument is the subscription \<^verbatim>\<open>listen\<close> holds.\<close>

datatype goPC =
    RunLoop           \<comment> \<open>the loop test of \<^verbatim>\<open>runSubscription\<close>\<close>
  | Subscribing       \<comment> \<open>\<^verbatim>\<open>s.redis.Subscribe\<close>\<close>
  | SetSub nat        \<comment> \<open>\<^verbatim>\<open>s.setSubscription(subscription)\<close>\<close>
  | RefusedClose nat  \<comment> \<open>\<^verbatim>\<open>return subscription.Close()\<close>\<close>
  | Receive nat       \<comment> \<open>the call of \<^verbatim>\<open>ReceiveMessage\<close>\<close>
  | Blocked nat       \<comment> \<open>inside \<^verbatim>\<open>ReceiveMessage\<close>\<close>
  | Notifying nat     \<comment> \<open>\<^verbatim>\<open>s.watchers.notify()\<close>\<close>
  | DeferClear nat    \<comment> \<open>the deferred \<^verbatim>\<open>s.clearSubscription(subscription)\<close>\<close>
  | DeferClose nat    \<comment> \<open>the deferred \<^verbatim>\<open>subscription.Close()\<close>\<close>
  | AfterListen       \<comment> \<open>\<^verbatim>\<open>if s.watchCtx.Err() != nil\<close>\<close>
  | Sleeping          \<comment> \<open>the select on \<^verbatim>\<open>Done\<close> and the timer\<close>
  | Leaving           \<comment> \<open>the deferred \<^verbatim>\<open>close(s.done)\<close>\<close>
  | Exited

text \<open>The statement a caller of \<^verbatim>\<open>close\<close> is about to run.\<close>

datatype callerPC =
    NotCalled
  | InDo                       \<comment> \<open>\<^verbatim>\<open>s.closeOnce.Do\<close>, waiting for the function when another runs it\<close>
  | Stopping                   \<comment> \<open>\<^verbatim>\<open>s.stopWatch()\<close>\<close>
  | ClosingWatchers            \<comment> \<open>\<^verbatim>\<open>s.watchers.close()\<close>\<close>
  | ReadingSub                 \<comment> \<open>\<^verbatim>\<open>subscription := s.subscription\<close>, under \<^verbatim>\<open>subMu\<close>\<close>
  | ClosingSub "nat option"    \<comment> \<open>\<^verbatim>\<open>if subscription != nil\<close>\<close>
  | AwaitDone                  \<comment> \<open>\<^verbatim>\<open><-s.done\<close>\<close>
  | ReturnedClose bool         \<comment> \<open>with whether \<^verbatim>\<open>closeErr\<close> is an error\<close>

datatype onceState = OnceNew | OnceRunning | OnceDone

text \<open>
  The store's remaining fields: \<open>watchCtxDone\<close> is \<^verbatim>\<open>watchCtx.Err() != nil\<close>, \<open>subscription\<close> a pointer
  (an index into \<open>pubsubs\<close>, which says of each whether \<^verbatim>\<open>Close\<close> was called on it), \<open>done_closed\<close> the channel.
\<close>

record 'r redisSubStore = "'r redisPortStore" +
  watchCtxDone :: bool
  subOnce :: onceState
  subErr :: bool
  subscription :: "nat option"
  done_closed :: bool
  pubsubs :: "bool list"
  goroutine :: goPC
  callers :: "callerPC list"

definition newRedisPortStore :: "'r \<Rightarrow> nat \<Rightarrow> 'r redisSubStore" where
  "newRedisPortStore redis n =
     \<lparr>rdb = redis, rwatchers = newPortWatchers, watchCtxDone = False, subOnce = OnceNew,
      subErr = False, subscription = None, done_closed = False, pubsubs = [],
      goroutine = RunLoop, callers = replicate n NotCalled\<rparr>"

section \<open>The goroutine\<close>

definition pubsub_closed :: "nat \<Rightarrow> 'r redisSubStore \<Rightarrow> bool" where
  "pubsub_closed i s = (pubsubs s ! i)"

text \<open>A call of \<^verbatim>\<open>PubSub.Close\<close>: whether it reports an error is an input.\<close>

definition pubsub_close :: "nat \<Rightarrow> bool \<Rightarrow> 'r redisSubStore \<Rightarrow> bool \<times> 'r redisSubStore" where
  "pubsub_close i fails s = (fails, s\<lparr>pubsubs := (pubsubs s)[i := True]\<rparr>)"

definition setSubscription :: "nat \<Rightarrow> 'r redisSubStore \<Rightarrow> bool \<times> 'r redisSubStore" where
  "setSubscription i s =
     (if watchCtxDone s then (False, s) else (True, s\<lparr>subscription := Some i\<rparr>))"

definition clearSubscription :: "nat \<Rightarrow> 'r redisSubStore \<Rightarrow> 'r redisSubStore" where
  "clearSubscription i s =
     (if subscription s = Some i then s\<lparr>subscription := None\<rparr> else s)"

text \<open>
  What a step brings from outside: the error of a \<^verbatim>\<open>Close\<close> of a subscription (\<open>GoNext\<close>,
  \<open>CallerNext\<close>), the return of \<^verbatim>\<open>ReceiveMessage\<close> with a message or an error, or the timer.
\<close>

datatype subAct = GoNext bool | GoMessage | GoError | GoTimer | CallerNext nat bool

fun listen_step :: "subAct \<Rightarrow> 'r redisSubStore \<Rightarrow> 'r redisSubStore option" where
  "listen_step act s =
     (case (goroutine s, act) of
        (Subscribing, GoNext _) \<Rightarrow>
          Some (s\<lparr>pubsubs := pubsubs s @ [False], goroutine := SetSub (length (pubsubs s))\<rparr>)
      | (SetSub i, GoNext _) \<Rightarrow>
          (case setSubscription i s of
             (True, s') \<Rightarrow> Some (s'\<lparr>goroutine := Receive i\<rparr>)
           | (False, s') \<Rightarrow> Some (s'\<lparr>goroutine := RefusedClose i\<rparr>))
      | (RefusedClose i, GoNext fails) \<Rightarrow>
          Some (snd (pubsub_close i fails s)\<lparr>goroutine := AfterListen\<rparr>)
      | (Receive i, GoNext _) \<Rightarrow>
          Some (s\<lparr>goroutine := (if pubsub_closed i s then DeferClear i else Blocked i)\<rparr>)
      | (Blocked i, GoMessage) \<Rightarrow> Some (s\<lparr>goroutine := Notifying i\<rparr>)
      | (Blocked i, GoError) \<Rightarrow> Some (s\<lparr>goroutine := DeferClear i\<rparr>)
      | (Notifying i, GoNext _) \<Rightarrow>
          Some (s\<lparr>rwatchers := watchers_notify (rwatchers s), goroutine := Receive i\<rparr>)
      | (DeferClear i, GoNext _) \<Rightarrow> Some (clearSubscription i s\<lparr>goroutine := DeferClose i\<rparr>)
      | (DeferClose i, GoNext fails) \<Rightarrow>
          Some (snd (pubsub_close i fails s)\<lparr>goroutine := AfterListen\<rparr>)
      | _ \<Rightarrow> None)"

fun runSubscription_step :: "subAct \<Rightarrow> 'r redisSubStore \<Rightarrow> 'r redisSubStore option" where
  "runSubscription_step act s =
     (case (goroutine s, act) of
        (RunLoop, GoNext _) \<Rightarrow>
          Some (s\<lparr>goroutine := (if watchCtxDone s then Leaving else Subscribing)\<rparr>)
      | (AfterListen, GoNext _) \<Rightarrow>
          Some (s\<lparr>goroutine := (if watchCtxDone s then Leaving else Sleeping)\<rparr>)
      | (Sleeping, GoNext _) \<Rightarrow>
          if watchCtxDone s then Some (s\<lparr>goroutine := Leaving\<rparr>) else None
      | (Sleeping, GoTimer) \<Rightarrow> Some (s\<lparr>goroutine := RunLoop\<rparr>)
      | (Leaving, GoNext _) \<Rightarrow> Some (s\<lparr>done_closed := True, goroutine := Exited\<rparr>)
      | _ \<Rightarrow> listen_step act s)"

lemmas go_steps = runSubscription_step.simps listen_step.simps

declare go_steps [simp del]

lemma pubsub_closed_frame [simp]:
  "pubsub_closed i (s\<lparr>callers := cs\<rparr>) = pubsub_closed i s"
  "pubsub_closed i (s\<lparr>subOnce := c\<rparr>) = pubsub_closed i s"
  "pubsub_closed i (s\<lparr>subErr := b\<rparr>) = pubsub_closed i s"
  "pubsub_closed i (s\<lparr>watchCtxDone := b\<rparr>) = pubsub_closed i s"
  "pubsub_closed i (s\<lparr>rwatchers := w\<rparr>) = pubsub_closed i s"
  by (simp_all add: pubsub_closed_def)

section \<open>The callers of close\<close>

abbreviation caller_at :: "nat \<Rightarrow> callerPC \<Rightarrow> 'r redisSubStore \<Rightarrow> 'r redisSubStore" where
  "caller_at i pc s \<equiv> s\<lparr>callers := (callers s)[i := pc]\<rparr>"

definition close_step :: "nat \<Rightarrow> bool \<Rightarrow> 'r redisSubStore \<Rightarrow> 'r redisSubStore option" where
  "close_step i fails s =
     (if length (callers s) \<le> i then None
      else case callers s ! i of
        NotCalled \<Rightarrow> Some (caller_at i InDo s)
      | InDo \<Rightarrow>
          (case subOnce s of
             OnceNew \<Rightarrow> Some (caller_at i Stopping (s\<lparr>subOnce := OnceRunning\<rparr>))
           | OnceRunning \<Rightarrow> None
           | OnceDone \<Rightarrow> Some (caller_at i (ReturnedClose (subErr s)) s))
      | Stopping \<Rightarrow> Some (caller_at i ClosingWatchers (s\<lparr>watchCtxDone := True\<rparr>))
      | ClosingWatchers \<Rightarrow>
          Some (caller_at i ReadingSub (s\<lparr>rwatchers := watchers_close (rwatchers s)\<rparr>))
      | ReadingSub \<Rightarrow> Some (caller_at i (ClosingSub (subscription s)) s)
      | ClosingSub None \<Rightarrow> Some (caller_at i AwaitDone s)
      | ClosingSub (Some j) \<Rightarrow>
          (case pubsub_close j fails s of
             (err, s') \<Rightarrow> Some (caller_at i AwaitDone (s'\<lparr>subErr := err\<rparr>)))
      | AwaitDone \<Rightarrow>
          if done_closed s
          then Some (caller_at i (ReturnedClose (subErr s)) (s\<lparr>subOnce := OnceDone\<rparr>))
          else None
      | ReturnedClose _ \<Rightarrow> None)"

fun sub_step :: "subAct \<Rightarrow> 'r redisSubStore \<Rightarrow> 'r redisSubStore option" where
  "sub_step (CallerNext i fails) s = close_step i fails s"
| "sub_step act s = runSubscription_step act s"

fun sub_run :: "subAct list \<Rightarrow> 'r redisSubStore \<Rightarrow> 'r redisSubStore option" where
  "sub_run [] s = Some s"
| "sub_run (act # acts) s =
     (case sub_step act s of None \<Rightarrow> None | Some s' \<Rightarrow> sub_run acts s')"

inductive sub_reach :: "'r \<Rightarrow> nat \<Rightarrow> 'r redisSubStore \<Rightarrow> bool" for redis n where
  sub_start: "sub_reach redis n (newRedisPortStore redis n)"
| sub_next: "sub_reach redis n s \<Longrightarrow> sub_step act s = Some s' \<Longrightarrow> sub_reach redis n s'"

section \<open>Invariant\<close>

text \<open>
  \<open>holding\<close> is the subscription that \<^verbatim>\<open>listen\<close> has opened and not yet closed itself, \<open>listening\<close> the one
  it has also published in the field; \<open>runs_once\<close> says that a caller is inside the function of
  \<^verbatim>\<open>closeOnce\<close>.
\<close>

fun listening :: "goPC \<Rightarrow> nat option" where
  "listening (Receive i) = Some i"
| "listening (Blocked i) = Some i"
| "listening (Notifying i) = Some i"
| "listening (DeferClear i) = Some i"
| "listening _ = None"

fun holding :: "goPC \<Rightarrow> nat option" where
  "holding (SetSub i) = Some i"
| "holding (RefusedClose i) = Some i"
| "holding (DeferClose i) = Some i"
| "holding pc = listening pc"

fun runs_once :: "callerPC \<Rightarrow> bool" where
  "runs_once NotCalled = False"
| "runs_once InDo = False"
| "runs_once (ReturnedClose _) = False"
| "runs_once _ = True"

fun caller_ok :: "'r redisSubStore \<Rightarrow> callerPC \<Rightarrow> bool" where
  "caller_ok s NotCalled = True"
| "caller_ok s InDo = True"
| "caller_ok s Stopping = (subOnce s = OnceRunning \<and> \<not> watchCtxDone s)"
| "caller_ok s ClosingWatchers = (subOnce s = OnceRunning \<and> watchCtxDone s)"
| "caller_ok s ReadingSub =
     (subOnce s = OnceRunning \<and> watchCtxDone s \<and> watchers_closed (rwatchers s))"
| "caller_ok s (ClosingSub x) =
     (subOnce s = OnceRunning \<and> watchCtxDone s \<and> watchers_closed (rwatchers s) \<and>
      (\<forall>i. listening (goroutine s) = Some i \<longrightarrow> x = Some i) \<and>
      (\<forall>j. x = Some j \<longrightarrow> j < length (pubsubs s)))"
| "caller_ok s AwaitDone =
     (subOnce s = OnceRunning \<and> watchCtxDone s \<and> watchers_closed (rwatchers s) \<and>
      (\<forall>i. listening (goroutine s) = Some i \<longrightarrow> pubsub_closed i s))"
| "caller_ok s (ReturnedClose _) = (subOnce s = OnceDone)"

definition go_ok :: "'r redisSubStore \<Rightarrow> bool" where
  "go_ok s \<longleftrightarrow>
     subscription s = listening (goroutine s) \<and>
     (\<forall>i. holding (goroutine s) = Some i \<longrightarrow> i < length (pubsubs s)) \<and>
     (\<forall>j<length (pubsubs s). holding (goroutine s) \<noteq> Some j \<longrightarrow> pubsub_closed j s) \<and>
     (done_closed s \<longleftrightarrow> goroutine s = Exited)"

definition once_ok :: "'r redisSubStore \<Rightarrow> bool" where
  "once_ok s \<longleftrightarrow>
     (subOnce s = OnceNew \<longrightarrow> \<not> watchCtxDone s) \<and>
     (subOnce s = OnceDone \<longrightarrow>
        watchCtxDone s \<and> watchers_closed (rwatchers s) \<and> goroutine s = Exited) \<and>
     (subOnce s = OnceRunning \<longrightarrow> (\<exists>i<length (callers s). runs_once (callers s ! i))) \<and>
     (\<forall>i<length (callers s). \<forall>j<length (callers s).
        runs_once (callers s ! i) \<longrightarrow> runs_once (callers s ! j) \<longrightarrow> i = j)"

definition sub_inv :: "'r redisSubStore \<Rightarrow> bool" where
  "sub_inv s \<longleftrightarrow> go_ok s \<and> once_ok s \<and> (\<forall>i<length (callers s). caller_ok s (callers s ! i))"

lemmas sub_inv_defs = sub_inv_def go_ok_def once_ok_def

lemma sub_inv_start: "sub_inv (newRedisPortStore redis n)"
  by (simp add: sub_inv_defs newRedisPortStore_def)

lemma watchers_notify_closed [simp]: "watchers_closed (watchers_notify w) = watchers_closed w"
  by (simp add: watchers_notify_def)

text \<open>
  What a step of the goroutine may do to what the callers look at: it publishes a subscription only
  while the context is not cancelled, and never reopens one.
\<close>

definition go_frame :: "'r redisSubStore \<Rightarrow> 'r redisSubStore \<Rightarrow> bool" where
  "go_frame s s' \<longleftrightarrow>
     callers s' = callers s \<and> subOnce s' = subOnce s \<and> subErr s' = subErr s \<and>
     watchCtxDone s' = watchCtxDone s \<and>
     watchers_closed (rwatchers s') = watchers_closed (rwatchers s) \<and>
     length (pubsubs s) \<le> length (pubsubs s') \<and>
     (\<forall>i<length (pubsubs s). pubsub_closed i s \<longrightarrow> pubsub_closed i s') \<and>
     (watchCtxDone s \<longrightarrow> (\<forall>i. listening (goroutine s') = Some i \<longrightarrow>
                              listening (goroutine s) = Some i)) \<and>
     (goroutine s = Exited \<longrightarrow> goroutine s' = Exited)"

lemma go_step_ok:
  assumes "go_ok s" and "runSubscription_step act s = Some s'"
  shows "go_ok s' \<and> go_frame s s'"
proof (cases "goroutine s")
  case (SetSub i)
  with assms(2) consider
      "watchCtxDone s" "s' = s\<lparr>goroutine := RefusedClose i\<rparr>"
    | "\<not> watchCtxDone s" "s' = s\<lparr>subscription := Some i, goroutine := Receive i\<rparr>"
    by (cases act) (auto simp: go_steps setSubscription_def split: if_splits)
  then show ?thesis using assms(1) SetSub
    by cases (simp_all add: go_ok_def go_frame_def pubsub_closed_def)
qed (use assms in \<open>cases act; cases "watchCtxDone s"; auto simp: go_steps go_ok_def go_frame_def
      pubsub_close_def clearSubscription_def pubsub_closed_def nth_append nth_list_update
      split: if_splits\<close>)+

lemma caller_ok_go_frame:
  assumes "go_frame s s'" "go_ok s" "caller_ok s pc"
  shows "caller_ok s' pc"
proof (cases pc)
  case AwaitDone
  have "i < length (pubsubs s)" if "listening (goroutine s) = Some i" for i
    using assms(2) that by (cases "goroutine s") (auto simp: go_ok_def)
  with AwaitDone assms show ?thesis by (auto simp: go_frame_def)
qed (use assms in \<open>auto simp: go_frame_def\<close>)

lemma sub_inv_go:
  assumes "sub_inv s" "runSubscription_step act s = Some s'"
  shows "sub_inv s'"
proof -
  have f: "go_ok s'" "go_frame s s'" and ok: "go_ok s"
    using go_step_ok [OF _ assms(2)] assms(1) by (auto simp: sub_inv_def)
  have "once_ok s'"
    using assms(1) f(2) by (simp add: sub_inv_def once_ok_def go_frame_def)
  moreover have "caller_ok s' (callers s' ! i)" if "i < length (callers s')" for i
    using assms(1) f(2) ok that caller_ok_go_frame [OF f(2) ok]
    by (simp add: sub_inv_def go_frame_def)
  ultimately show ?thesis using f(1) by (simp add: sub_inv_def)
qed

text \<open>
  A caller inside the function of \<^verbatim>\<open>closeOnce\<close> is the only one there, so its step leaves what the
  invariant says of the other callers.
\<close>

lemma caller_ok_outside: "\<not> runs_once pc \<Longrightarrow> caller_ok s pc \<Longrightarrow> subOnce s' = subOnce s \<Longrightarrow> caller_ok s' pc"
  by (cases pc) simp_all

lemma close_pubsub_ok:
  assumes "go_ok s" "j < length (pubsubs s)"
  shows "go_ok (snd (pubsub_close j fails s))"
  using assms by (auto simp: go_ok_def pubsub_close_def pubsub_closed_def nth_list_update)

lemma once_runner:
  assumes "sub_inv s" "i < length (callers s)" "runs_once (callers s ! i)"
    and "j < length (callers s)" "j \<noteq> i"
  shows "\<not> runs_once (callers s ! j)"
  using assms by (auto simp: sub_inv_def once_ok_def)

lemma sub_inv_runner:
  assumes inv: "sub_inv s" and i: "i < length (callers s)" "runs_once (callers s ! i)"
    and s': "callers s' = (callers s)[i := pc]" "subOnce s' = OnceRunning" "go_ok s'"
      "runs_once pc" "caller_ok s' pc"
  shows "sub_inv s'"
proof -
  have run: "subOnce s = OnceRunning"
    using inv i by (cases "callers s ! i") (auto simp: sub_inv_def dest!: spec [of _ i])
  have "once_ok s'"
    using inv i s' by (auto simp: sub_inv_def once_ok_def nth_list_update)
  moreover have "caller_ok s' (callers s' ! j)" if "j < length (callers s')" for j
  proof (cases "j = i")
    case False
    then have "\<not> runs_once (callers s ! j)" using once_runner [OF inv i] that s'(1) by simp
    moreover have "caller_ok s (callers s ! j)" using inv that s'(1) by (simp add: sub_inv_def)
    ultimately show ?thesis
      using caller_ok_outside [of "callers s ! j" s s'] run s'(1,2) False that
      by (simp add: nth_list_update)
  qed (use i s' that in simp)
  ultimately show ?thesis using s'(3) by (simp add: sub_inv_def)
qed

lemma caller_ok_callers [simp]:
  "caller_ok (s\<lparr>callers := cs\<rparr>) pc = caller_ok s pc"
  by (cases pc) simp_all

lemma go_ok_callers [simp]:
  "go_ok (s\<lparr>callers := cs\<rparr>) = go_ok s" "go_ok (s\<lparr>subOnce := c\<rparr>) = go_ok s"
  "go_ok (s\<lparr>watchCtxDone := b\<rparr>) = go_ok s" "go_ok (s\<lparr>rwatchers := w\<rparr>) = go_ok s"
  "go_ok (s\<lparr>subErr := b\<rparr>) = go_ok s"
  by (simp_all add: go_ok_def)

lemma pubsub_close_frame [simp]:
  "callers (snd (pubsub_close j f s)) = callers s"
  "subOnce (snd (pubsub_close j f s)) = subOnce s"
  "watchCtxDone (snd (pubsub_close j f s)) = watchCtxDone s"
  "rwatchers (snd (pubsub_close j f s)) = rwatchers s"
  "goroutine (snd (pubsub_close j f s)) = goroutine s"
  by (simp_all add: pubsub_close_def)

lemma pubsub_close_closes:
  "j < length (pubsubs s) \<Longrightarrow> pubsub_closed j (snd (pubsub_close j f s))"
  by (simp add: pubsub_close_def pubsub_closed_def)

lemma sub_inv_outside:
  assumes inv: "sub_inv s" and i: "i < length (callers s)" "\<not> runs_once (callers s ! i)"
    and pc: "\<not> runs_once pc" "caller_ok s pc"
  shows "sub_inv (caller_at i pc s)"
  using assms by (auto simp: sub_inv_def once_ok_def nth_list_update)

lemma sub_inv_close:
  assumes inv: "sub_inv s" and st: "close_step i fails s = Some s'"
  shows "sub_inv s'"
proof -
  have i: "i < length (callers s)" using st by (simp add: close_step_def split: if_splits)
  have ok: "go_ok s" and cok: "caller_ok s (callers s ! i)" using inv i by (auto simp: sub_inv_def)
  note step = st [unfolded close_step_def] and runner = sub_inv_runner [OF inv i]
  show ?thesis
  proof (cases "callers s ! i")
    case NotCalled
    then show ?thesis using step i sub_inv_outside [OF inv i, of InDo] by simp
  next
    case InDo
    show ?thesis
    proof (cases "subOnce s")
      case OnceNew
      then have none: "\<not> runs_once (callers s ! j)" if "j < length (callers s)" for j
        using inv that by (cases "callers s ! j") (auto simp: sub_inv_def dest!: spec [of _ j])
      moreover have "callers s ! j \<noteq> ReturnedClose e" if "j < length (callers s)" for j e
        using inv that OnceNew by (auto simp: sub_inv_def dest!: spec [of _ j])
      ultimately have idle: "caller_ok t (callers s ! j)" if "j < length (callers s)"
        for j and t :: "'a redisSubStore" using that by (cases "callers s ! j") force+
      have s': "s' = caller_at i Stopping (s\<lparr>subOnce := OnceRunning\<rparr>)"
        using step i InDo OnceNew by simp
      have "once_ok s'" using s' i none inv OnceNew
        by (auto simp: sub_inv_def once_ok_def nth_list_update split: if_splits)
      moreover have "caller_ok s' (callers s' ! j)" if "j < length (callers s')" for j
        using that s' i idle inv OnceNew by (auto simp: sub_inv_def once_ok_def nth_list_update)
      ultimately show ?thesis using ok s' by (simp add: sub_inv_def)
    next
      case OnceDone
      then show ?thesis
        using step i InDo sub_inv_outside [OF inv i, of "ReturnedClose (subErr s)"] by simp
    qed (use step i InDo in simp)
  next
    case Stopping
    then show ?thesis using step i cok ok by (auto intro: runner [of _ ClosingWatchers])
  next
    case ClosingWatchers
    then show ?thesis
      using step i cok ok by (auto simp: watchers_close_def intro: runner [of _ ReadingSub])
  next
    case ReadingSub
    have "j < length (pubsubs s)" if "listening (goroutine s) = Some j" for j
      using ok that by (cases "goroutine s") (auto simp: go_ok_def)
    moreover have "subscription s = listening (goroutine s)" using ok by (simp add: go_ok_def)
    ultimately show ?thesis using step i cok ok ReadingSub
      by (auto intro!: runner [of _ "ClosingSub (subscription s)"])
  next
    case (ClosingSub x)
    show ?thesis
    proof (cases x)
      case None
      then show ?thesis using step i cok ok ClosingSub by (auto intro!: runner [of _ AwaitDone])
    next
      case (Some j)
      let ?t = "snd (pubsub_close j fails s)"
      have "s' = caller_at i AwaitDone (?t\<lparr>subErr := fst (pubsub_close j fails s)\<rparr>)"
        using step i ClosingSub Some by (simp add: case_prod_beta)
      moreover have "go_ok ?t" "pubsub_closed j ?t"
        using cok ok ClosingSub Some by (auto intro: close_pubsub_ok pubsub_close_closes)
      ultimately show ?thesis using i cok ok ClosingSub Some
        by (auto intro!: runner [of _ AwaitDone] simp: pubsub_closed_def)
    qed
  next
    case AwaitDone
    then have s': "s' = caller_at i (ReturnedClose (subErr s)) (s\<lparr>subOnce := OnceDone\<rparr>)"
      and d: "goroutine s = Exited" using step i ok by (auto simp: go_ok_def split: if_splits)
    have none: "\<not> runs_once (callers s ! j)" if "j < length (callers s)" "j \<noteq> i" for j
      using once_runner [OF inv i(1) _ that] AwaitDone by simp
    have "once_ok s'" using s' d none cok AwaitDone i by (auto simp: once_ok_def nth_list_update)
    moreover have "caller_ok s' (callers s' ! j)" if "j < length (callers s')" for j
      using none [of j] that i s' by (cases "callers s ! j"; cases "j = i") auto
    ultimately show ?thesis using ok s' by (simp add: sub_inv_def)
  qed (use step i in simp)
qed

lemma sub_step_inv: "sub_inv s \<Longrightarrow> sub_step act s = Some s' \<Longrightarrow> sub_inv s'"
  by (cases act) (auto intro: sub_inv_go sub_inv_close)

lemma sub_reach_inv: "sub_reach redis n s \<Longrightarrow> sub_inv s"
  by (induction rule: sub_reach.induct) (auto intro: sub_inv_start sub_step_inv)

section \<open>Termination measure\<close>

text \<open>
  Steps the goroutine still has before it exits, once the context is cancelled. Only a message on an
  open subscription takes it back; on a closed one at most the message already in flight is left.
\<close>

definition go_rank :: "'r redisSubStore \<Rightarrow> nat" where
  "go_rank s =
     (case goroutine s of
        Exited \<Rightarrow> 0 | Leaving \<Rightarrow> 1 | AfterListen \<Rightarrow> 2 | RunLoop \<Rightarrow> 2 | Sleeping \<Rightarrow> 3
      | RefusedClose _ \<Rightarrow> 3 | SetSub _ \<Rightarrow> 4 | Subscribing \<Rightarrow> 5 | DeferClose _ \<Rightarrow> 3 | DeferClear _ \<Rightarrow> 4
      | Receive i \<Rightarrow> (if pubsub_closed i s then 5 else 6)
      | Notifying i \<Rightarrow> (if pubsub_closed i s then 6 else 7)
      | Blocked i \<Rightarrow> (if pubsub_closed i s then 7 else 5))"

fun caller_rank :: "callerPC \<Rightarrow> nat" where
  "caller_rank NotCalled = 2"
| "caller_rank InDo = 1"
| "caller_rank Stopping = 7"
| "caller_rank ClosingWatchers = 6"
| "caller_rank ReadingSub = 5"
| "caller_rank (ClosingSub _) = 4"
| "caller_rank AwaitDone = 1"
| "caller_rank (ReturnedClose _) = 0"

definition sub_measure :: "'r redisSubStore \<Rightarrow> nat" where
  "sub_measure s = go_rank s + sum_list (map caller_rank (callers s))"

text \<open>A message that \<^verbatim>\<open>ReceiveMessage\<close> delivers from a subscription that is still open.\<close>

definition openMessage :: "subAct \<Rightarrow> 'r redisSubStore \<Rightarrow> bool" where
  "openMessage act s \<longleftrightarrow>
     act = GoMessage \<and>
     (case goroutine s of Blocked i \<Rightarrow> \<not> pubsub_closed i s | _ \<Rightarrow> False)"

fun openMessages :: "subAct list \<Rightarrow> 'r redisSubStore \<Rightarrow> nat" where
  "openMessages [] s = 0"
| "openMessages (act # acts) s =
     of_bool (openMessage act s) +
     (case sub_step act s of None \<Rightarrow> 0 | Some s' \<Rightarrow> openMessages acts s')"

lemma sum_list_map_update:
  fixes f :: "'a \<Rightarrow> nat"
  shows "i < length xs \<Longrightarrow> sum_list (map f (xs[i := y])) + f (xs ! i) = sum_list (map f xs) + f y"
proof (induction xs arbitrary: i)
  case (Cons x xs)
  then show ?case by (cases i) (auto simp: algebra_simps)
qed simp

lemma go_rank_le: "go_rank s \<le> 7"
  by (simp add: go_rank_def split: goPC.split)

lemma go_measure:
  assumes "sub_inv s" "watchCtxDone s" "runSubscription_step act s = Some s'"
  shows "sub_measure s' < sub_measure s + 3 * of_bool (openMessage act s)"
proof -
  have "callers s' = callers s" using go_step_ok [OF _ assms(3)] assms(1)
    by (simp add: sub_inv_def go_frame_def)
  moreover have "go_rank s' < go_rank s + 3 * of_bool (openMessage act s)"
    using assms(2,3)
    by (cases "goroutine s"; cases act)
      (auto simp: go_steps go_rank_def openMessage_def setSubscription_def clearSubscription_def
        pubsub_closed_def pubsub_close_def)
  ultimately show ?thesis by (simp add: sub_measure_def)
qed

lemma go_rank_frame [simp]:
  "go_rank (s\<lparr>callers := cs\<rparr>) = go_rank s" "go_rank (s\<lparr>subOnce := c\<rparr>) = go_rank s"
  "go_rank (s\<lparr>watchCtxDone := b\<rparr>) = go_rank s" "go_rank (s\<lparr>rwatchers := w\<rparr>) = go_rank s"
  "go_rank (s\<lparr>subErr := b\<rparr>) = go_rank s"
  by (simp_all add: go_rank_def split: goPC.split)

lemma go_rank_close: "go_rank (snd (pubsub_close j f s)) \<le> go_rank s + 2"
proof -
  have "(pubsubs s)[j := True] ! i = (i = j \<and> j < length (pubsubs s) \<or> pubsubs s ! i)" for i
    by (cases "j < length (pubsubs s)") (auto simp: nth_list_update list_update_beyond)
  then show ?thesis
    by (simp add: go_rank_def pubsub_close_def pubsub_closed_def split: goPC.split)
qed

lemma caller_measure:
  assumes "sub_inv s" "watchCtxDone s" "close_step i fails s = Some s'"
  shows "sub_measure s' < sub_measure s"
proof -
  have i: "i < length (callers s)" using assms(3) by (simp add: close_step_def split: if_splits)
  have "caller_ok s (callers s ! i)" "subOnce s \<noteq> OnceNew"
    using assms(1,2) i by (auto simp: sub_inv_def once_ok_def)
  then obtain pc where cs: "callers s' = (callers s)[i := pc]"
    and r: "go_rank s' + caller_rank pc < go_rank s + caller_rank (callers s ! i)"
  proof (cases "callers s ! i")
    case (ClosingSub x)
    then have "go_rank s' \<le> go_rank s + 2" "callers s' = (callers s)[i := AwaitDone]"
      using assms(3) i go_rank_close [of "the x" fails s]
      by (auto simp: close_step_def case_prod_beta split: option.splits)
    with ClosingSub show ?thesis by (auto intro: that)
  qed (use assms i that in \<open>auto simp: close_step_def split: onceState.splits if_splits\<close>)
  show ?thesis using sum_list_map_update [OF i, of caller_rank pc] r cs by (simp add: sub_measure_def)
qed

lemma sub_step_measure:
  assumes "sub_inv s" "watchCtxDone s" "sub_step act s = Some s'"
  shows "sub_measure s' < sub_measure s + 3 * of_bool (openMessage act s)"
  using assms by (cases act) (auto dest: go_measure caller_measure)

lemma sub_step_ctx:
  assumes "sub_inv s" "sub_step act s = Some s'"
  shows "length (callers s') = length (callers s) \<and> (watchCtxDone s \<longrightarrow> watchCtxDone s') \<and>
    (\<forall>i. callers s ! i = AwaitDone \<longrightarrow> i < length (callers s) \<longrightarrow>
       callers s' ! i = AwaitDone \<or> goroutine s' = Exited)"
proof (cases act)
  case (CallerNext i fails)
  with assms show ?thesis
    by (auto simp: close_step_def case_prod_beta nth_list_update sub_inv_def go_ok_def
        split: if_splits callerPC.splits onceState.splits option.splits)
qed (use assms go_step_ok [of s act s'] in \<open>auto simp: sub_inv_def go_frame_def\<close>)

lemma await_no_open_message:
  assumes "sub_inv s" "i < length (callers s)" "callers s ! i = AwaitDone \<or> goroutine s = Exited"
  shows "\<not> openMessage act s"
  using assms
  by (auto simp: openMessage_def sub_inv_def dest!: spec [of _ i] split: goPC.splits)

section \<open>Executions\<close>

lemma outside_ranks_le:
  "\<forall>pc\<in>set cs. \<not> runs_once pc \<Longrightarrow> sum_list (map caller_rank cs) \<le> 2 * length cs"
proof (induction cs)
  case (Cons pc cs)
  then show ?case by (cases pc) simp_all
qed simp

lemma caller_ranks_le:
  assumes "sub_inv s" "watchCtxDone s"
  shows "sum_list (map caller_rank (callers s)) \<le> 2 * length (callers s) + 4"
proof (cases "\<exists>i<length (callers s). runs_once (callers s ! i)")
  case True
  then obtain i where i: "i < length (callers s)" "runs_once (callers s ! i)" by blast
  let ?cs = "(callers s)[i := NotCalled]"
  have "\<not> runs_once (?cs ! j)" if "j < length ?cs" for j
    using once_runner [OF assms(1) i, of j] i(1) that by (cases "j = i") simp_all
  then have "\<forall>pc\<in>set ?cs. \<not> runs_once pc" by (metis in_set_conv_nth)
  then have "sum_list (map caller_rank ?cs) \<le> 2 * length ?cs" by (rule outside_ranks_le)
  moreover have "caller_rank (callers s ! i) \<le> 6"
    using assms i by (cases "callers s ! i") (auto simp: sub_inv_def dest!: spec [of _ i])
  ultimately show ?thesis
    using sum_list_map_update [OF i(1), of caller_rank NotCalled] by simp
next
  case False
  then have "\<forall>pc\<in>set (callers s). \<not> runs_once pc" by (metis in_set_conv_nth)
  from outside_ranks_le [OF this] show ?thesis by simp
qed

lemma sub_run_bound:
  assumes "sub_inv s" "watchCtxDone s" "sub_run acts s = Some t"
  shows "length acts + sub_measure t \<le> sub_measure s + 3 * openMessages acts s \<and>
    sub_inv t \<and> length (callers t) = length (callers s)"
  using assms
proof (induction acts arbitrary: s)
  case (Cons act acts)
  then obtain s' where st: "sub_step act s = Some s'" "sub_run acts s' = Some t"
    by (auto split: option.splits)
  have "sub_inv s'" "watchCtxDone s'" "length (callers s') = length (callers s)"
    using sub_step_inv [OF Cons.prems(1) st(1)] sub_step_ctx [OF Cons.prems(1) st(1)] Cons.prems(2)
    by auto
  with Cons.IH [OF _ _ st(2)] sub_step_measure [OF Cons.prems(1,2) st(1)] st(1)
  show ?case by simp
qed simp

lemma await_no_messages:
  assumes "sub_inv s" "sub_run acts s = Some t" "i < length (callers s)"
    and "callers s ! i = AwaitDone \<or> goroutine s = Exited"
  shows "openMessages acts s = 0"
  using assms
proof (induction acts arbitrary: s)
  case (Cons act acts)
  then obtain s' where st: "sub_step act s = Some s'" "sub_run acts s' = Some t"
    by (auto split: option.splits)
  have "goroutine s' = Exited" if "goroutine s = Exited"
    using st(1) that by (cases act) (auto simp: go_steps close_step_def pubsub_close_def
        split: if_splits callerPC.splits onceState.splits option.splits)
  with Cons.IH [OF sub_step_inv [OF Cons.prems(1) st(1)] st(2)]
    sub_step_ctx [OF Cons.prems(1) st(1)] await_no_open_message [OF Cons.prems(1,3,4)] st(1) Cons.prems(3,4)
  show ?case by auto
qed simp

text \<open>
  Steps that are certain to come: the next statement of the goroutine or of a caller that can run,
  and the return of \<^verbatim>\<open>ReceiveMessage\<close> from a closed subscription. Not certain are a message or an
  error from an open one, and the timer.
\<close>

fun prompt :: "subAct \<Rightarrow> 'r redisSubStore \<Rightarrow> bool" where
  "prompt (GoNext _) s = True"
| "prompt (CallerNext _ _) s = True"
| "prompt GoError s = (case goroutine s of Blocked i \<Rightarrow> pubsub_closed i s | _ \<Rightarrow> False)"
| "prompt _ s = False"

fun in_call :: "callerPC \<Rightarrow> bool" where
  "in_call NotCalled = False"
| "in_call (ReturnedClose _) = False"
| "in_call _ = True"

lemma go_progress:
  assumes "watchCtxDone s" "goroutine s \<noteq> Exited"
    and "\<forall>i. goroutine s = Blocked i \<longrightarrow> pubsub_closed i s"
  shows "\<exists>act. prompt act s \<and> sub_step act s \<noteq> None"
proof (cases "\<exists>i. goroutine s = Blocked i")
  case True
  with assms(3) show ?thesis by (intro exI [of _ GoError]) (auto simp: go_steps)
next
  case False
  with assms(1,2) show ?thesis
    by (intro exI [of _ "GoNext False"], cases "goroutine s")
      (auto simp: go_steps setSubscription_def)
qed

lemma runner_progress:
  assumes "sub_inv s" "i < length (callers s)" "runs_once (callers s ! i)"
  shows "\<exists>act. prompt act s \<and> sub_step act s \<noteq> None"
proof (cases "callers s ! i = AwaitDone \<and> \<not> done_closed s")
  case True
  then have "watchCtxDone s" "goroutine s \<noteq> Exited"
    "\<forall>j. listening (goroutine s) = Some j \<longrightarrow> pubsub_closed j s"
    using assms by (auto simp: sub_inv_def go_ok_def dest!: spec [of _ i])
  then show ?thesis by (intro go_progress) auto
next
  case False
  with assms(2,3) have "sub_step (CallerNext i False) s \<noteq> None"
    by (cases "callers s ! i") (auto simp: close_step_def split: option.splits prod.splits)
  then show ?thesis by (intro exI [of _ "CallerNext i False"]) simp
qed

lemma call_progress:
  assumes "sub_inv s" "i < length (callers s)" "in_call (callers s ! i)"
  shows "\<exists>act. prompt act s \<and> sub_step act s \<noteq> None"
proof (cases "subOnce s = OnceRunning")
  case True
  then obtain j where "j < length (callers s)" "runs_once (callers s ! j)"
    using assms(1) by (auto simp: sub_inv_def once_ok_def)
  with assms(1) show ?thesis by (rule runner_progress)
next
  case False
  with assms have "callers s ! i = InDo"
    by (cases "callers s ! i") (auto simp: sub_inv_def dest!: spec [of _ i])
  with False assms(2) show ?thesis
    by (intro exI [of _ "CallerNext i False"]) (auto simp: close_step_def split: onceState.split)
qed

section \<open>Properties\<close>

lemma sub_reach_callers: "sub_reach redis n s \<Longrightarrow> length (callers s) = n"
proof (induction rule: sub_reach.induct)
  case (sub_next s act s')
  then show ?case using sub_step_ctx [of s act s'] sub_reach_inv by metis
qed (simp add: newRedisPortStore_def)

text \<open>
  (C3) \<^verbatim>\<open>redisPortStore.close\<close> terminates and closes everything. Take any reachable state of the
  store with \<open>n\<close> callers of \<^verbatim>\<open>close\<close> in which the watch context has been cancelled, and any
  interleaving of further steps. The number of steps is at most \<open>2 * n + 11\<close> plus three for each
  message that arrives on a subscription before it is closed, and none of those arrives once the
  closing caller waits for the goroutine. As long as a call of \<^verbatim>\<open>close\<close> has not returned, some step
  that is certain to come is possible, even if \<^verbatim>\<open>ReceiveMessage\<close> ignores its context: there is no
  deadlock between \<^verbatim>\<open>close\<close> and the goroutine, whatever point of subscribing it was at. When a call
  has returned, the goroutine has exited, the watchers are closed, the field is nil and every
  subscription that was ever opened is closed.
\<close>

theorem redis_close_terminates:
  assumes "sub_reach redis n s" "watchCtxDone s" "sub_run acts s = Some t"
  shows "length acts \<le> 2 * n + 11 + 3 * openMessages acts s \<and>
    ((\<exists>i<n. callers s ! i = AwaitDone) \<longrightarrow> openMessages acts s = 0) \<and>
    ((\<exists>i<n. in_call (callers t ! i)) \<longrightarrow> (\<exists>act. prompt act t \<and> sub_step act t \<noteq> None)) \<and>
    (\<forall>i<n. \<forall>err. callers t ! i = ReturnedClose err \<longrightarrow>
       goroutine t = Exited \<and> watchers_closed (rwatchers t) \<and> subscription t = None \<and>
       (\<forall>closed\<in>set (pubsubs t). closed))"
proof (intro conjI impI allI)
  note inv = sub_reach_inv [OF assms(1)] and n = sub_reach_callers [OF assms(1)]
  note run = sub_run_bound [OF inv assms(2,3)]
  have "sub_measure s \<le> 2 * n + 11"
    using caller_ranks_le [OF inv assms(2)] go_rank_le [of s] n by (simp add: sub_measure_def)
  with run show "length acts \<le> 2 * n + 11 + 3 * openMessages acts s" by simp
  show "openMessages acts s = 0" if "\<exists>i<n. callers s ! i = AwaitDone"
    using that await_no_messages [OF inv assms(3)] n by auto
  show "\<exists>act. prompt act t \<and> sub_step act t \<noteq> None" if "\<exists>i<n. in_call (callers t ! i)"
    using that call_progress [of t] run n by auto
  fix i err
  assume "i < n" "callers t ! i = ReturnedClose err"
  then have "caller_ok t (ReturnedClose err)" using run n by (metis sub_inv_def)
  then have d: "goroutine t = Exited" "watchers_closed (rwatchers t)"
    using run by (auto simp: sub_inv_def once_ok_def)
  then show "goroutine t = Exited" and "watchers_closed (rwatchers t)" by simp_all
  show "subscription t = None" and "\<forall>closed\<in>set (pubsubs t). closed"
    using d run by (auto simp: sub_inv_def go_ok_def pubsub_closed_def in_set_conv_nth)
qed

text \<open>
  The race the check under \<^verbatim>\<open>subMu\<close> is there for: \<^verbatim>\<open>close\<close> cancels the context and finds no subscription
  while the goroutine is between \<^verbatim>\<open>Subscribe\<close> and \<^verbatim>\<open>setSubscription\<close>.
\<close>

definition race_start :: "nat redisSubStore" where
  "race_start = (newRedisPortStore 0 1)
     \<lparr>goroutine := SetSub 0, pubsubs := [False], watchCtxDone := True, subOnce := OnceRunning,
      rwatchers := watchers_close newPortWatchers, callers := [AwaitDone]\<rparr>"

lemma race_start_reach: "sub_reach 0 1 race_start"
proof -
  have run: "sub_reach redis n s \<Longrightarrow> sub_run acts s = Some t \<Longrightarrow> sub_reach redis n t"
    for redis :: nat and n s acts t
    by (induction acts arbitrary: s) (auto split: option.splits intro: sub_next)
  show ?thesis
    by (rule run [OF sub_start, of "[GoNext False, GoNext False, CallerNext 0 False, CallerNext 0 False,
        CallerNext 0 False, CallerNext 0 False, CallerNext 0 False, CallerNext 0 False]"])
      (simp add: race_start_def newRedisPortStore_def go_steps close_step_def)
qed

theorem redis_close_terminates_witness:
  "sub_run [GoNext False, GoNext False, GoNext False, GoNext False, CallerNext 0 False] race_start =
     Some (race_start\<lparr>goroutine := Exited, pubsubs := [True], done_closed := True,
             subOnce := OnceDone, callers := [ReturnedClose False]\<rparr>) \<and>
   openMessages [GoNext False] race_start = 0 \<and>
   (\<exists>act. prompt act race_start \<and> sub_step act race_start \<noteq> None)"
proof (intro conjI)
  have r: "watchCtxDone race_start" by (simp add: race_start_def)
  have "sub_run [GoNext False] race_start = Some (race_start\<lparr>goroutine := RefusedClose 0\<rparr>)"
    by (simp add: race_start_def newRedisPortStore_def go_steps setSubscription_def)
  from redis_close_terminates [OF race_start_reach r this]
  show "openMessages [GoNext False] race_start = 0"
    by (simp add: race_start_def newRedisPortStore_def)
  have "sub_run [] race_start = Some race_start" by simp
  from redis_close_terminates [OF race_start_reach r this]
  show "\<exists>act. prompt act race_start \<and> sub_step act race_start \<noteq> None"
    by (simp add: race_start_def newRedisPortStore_def)
qed (simp add: race_start_def newRedisPortStore_def go_steps close_step_def setSubscription_def
      pubsub_close_def pubsub_closed_def)

section \<open>The choice of the store\<close>

text \<open>The controller closes its store once, so one caller of \<^verbatim>\<open>close\<close> is enough.\<close>

definition newPortStore :: "'r option \<Rightarrow> memPortStore + 'r redisSubStore" where
  "newPortStore redis =
     (case redis of None \<Rightarrow> Inl newMemPortStore | Some r \<Rightarrow> Inr (newRedisPortStore r 1))"

text \<open>
  \<^verbatim>\<open>close\<close> can call \<^verbatim>\<open>Close\<close> on a subscription that is closed already: it read the field, and before it
  goes on the goroutine, whose connection broke, has cleared the field and closed the same one. What
  this second \<^verbatim>\<open>Close\<close> reports is what \<^verbatim>\<open>close\<close> returns.
\<close>

lemma close_can_come_second:
  "\<exists>acts t. sub_run acts (newRedisPortStore redis 1) = Some t \<and>
     callers t = [ClosingSub (Some 0)] \<and> pubsubs t = [True] \<and> subscription t = None \<and>
     map_option (\<lambda>s. callers s)
       (sub_run [CallerNext 0 err, GoNext False, GoNext False, CallerNext 0 False] t) =
     Some [ReturnedClose err]"
  by (rule exI [of _ "[GoNext False, GoNext False, GoNext False, GoNext False] @
        [CallerNext 0 False, CallerNext 0 False, CallerNext 0 False, CallerNext 0 False, CallerNext 0 False] @
        [GoError, GoNext False, GoNext False]"])
    (simp add: newRedisPortStore_def go_steps close_step_def setSubscription_def clearSubscription_def
      pubsub_close_def pubsub_closed_def)

end
