(* ===== verification/MetricsFanout.thy ===== *)
theory MetricsFanout
  imports Metrics "HOL-Library.Multiset"
begin

text \<open>
  The fan-out of \<^verbatim>\<open>agentMetrics\<close> (\<^verbatim>\<open>pkg/controller/metrics.go\<close>): the loop that starts one goroutine per agent, at
  most \<^verbatim>\<open>metricsFanoutConcurrency\<close> at a time through a buffered channel, the goroutines, which add their
  families to the shared merger one by one, and the wait for all of them. What \<^verbatim>\<open>scrapeAgent\<close> adds for an
  agent is an argument, \<open>scrape\<close>, as \<open>Metrics\<close> computes it; that it ends is what its deadline is for.
\<close>

section \<open>Steps\<close>

definition metricsFanoutConcurrency :: nat where
  "metricsFanoutConcurrency = 16"

text \<open>
  \<open>fo_todo\<close> are the agents the loop has still to take, \<open>fo_sem\<close> the elements in the channel, \<open>fo_running\<close>
  the goroutines with what each has still to add, \<open>fo_leaving\<close> those between their two deferred calls,
  \<open>fo_wg\<close> the counter of the wait group, \<open>fo_added\<close> what the merger took, in order.
\<close>

record 'v fanout =
  fo_todo :: "string list"
  fo_sem :: nat
  fo_running :: "(string \<times> 'v family list) list"
  fo_leaving :: nat
  fo_wg :: nat
  fo_added :: "'v family list"
  fo_returned :: bool

definition fanout_start :: "string list \<Rightarrow> 'v fanout" where
  "fanout_start agentIDs =
     \<lparr>fo_todo = agentIDs, fo_sem = 0, fo_running = [], fo_leaving = 0, fo_wg = length agentIDs,
      fo_added = [], fo_returned = False\<rparr>"

datatype fanoutAct = Spawn | Merge nat | Release nat | WgDone | WaitReturns

definition dropIndex :: "nat \<Rightarrow> 'a list \<Rightarrow> 'a list" where
  "dropIndex i xs = take i xs @ drop (Suc i) xs"

fun fanout_step :: "(string \<Rightarrow> 'v family list) \<Rightarrow> fanoutAct \<Rightarrow> 'v fanout \<Rightarrow> 'v fanout option" where
  "fanout_step scrape Spawn s =
     (case fo_todo s of
        [] \<Rightarrow> None
      | agentID # rest \<Rightarrow>
          if fo_sem s < metricsFanoutConcurrency
          then Some (s\<lparr>fo_todo := rest, fo_sem := fo_sem s + 1,
                       fo_running := fo_running s @ [(agentID, scrape agentID)]\<rparr>)
          else None)"
| "fanout_step scrape (Merge i) s =
     (if length (fo_running s) \<le> i then None
      else case fo_running s ! i of
        (agentID, []) \<Rightarrow> None
      | (agentID, mf # rest) \<Rightarrow>
          Some (s\<lparr>fo_running := (fo_running s)[i := (agentID, rest)], fo_added := fo_added s @ [mf]\<rparr>))"
| "fanout_step scrape (Release i) s =
     (if length (fo_running s) \<le> i then None
      else case fo_running s ! i of
        (agentID, []) \<Rightarrow>
          Some (s\<lparr>fo_running := dropIndex i (fo_running s), fo_sem := fo_sem s - 1,
                  fo_leaving := fo_leaving s + 1\<rparr>)
      | (agentID, mf # rest) \<Rightarrow> None)"
| "fanout_step scrape WgDone s =
     (if fo_leaving s = 0 then None
      else Some (s\<lparr>fo_leaving := fo_leaving s - 1, fo_wg := fo_wg s - 1\<rparr>))"
| "fanout_step scrape WaitReturns s =
     (if fo_todo s = [] \<and> fo_wg s = 0 \<and> \<not> fo_returned s then Some (s\<lparr>fo_returned := True\<rparr>) else None)"

inductive fanout_reach :: "(string \<Rightarrow> 'v family list) \<Rightarrow> string list \<Rightarrow> 'v fanout \<Rightarrow> bool" for scrape agentIDs where
  fanout_init: "fanout_reach scrape agentIDs (fanout_start agentIDs)"
| fanout_next: "fanout_reach scrape agentIDs s \<Longrightarrow> fanout_step scrape act s = Some s' \<Longrightarrow>
    fanout_reach scrape agentIDs s'"

section \<open>Invariant\<close>

text \<open>What has been added, what the goroutines hold and what the loop has not taken make up the whole.\<close>

definition fo_pending :: "(string \<Rightarrow> 'v family list) \<Rightarrow> 'v fanout \<Rightarrow> 'v family multiset" where
  "fo_pending scrape s =
     mset (concat (map snd (fo_running s))) + mset (concat (map scrape (fo_todo s)))"

definition fanout_inv :: "(string \<Rightarrow> 'v family list) \<Rightarrow> string list \<Rightarrow> 'v fanout \<Rightarrow> bool" where
  "fanout_inv scrape agentIDs s \<longleftrightarrow>
     fo_sem s = length (fo_running s) \<and> fo_sem s \<le> metricsFanoutConcurrency \<and>
     fo_wg s = length (fo_todo s) + length (fo_running s) + fo_leaving s \<and>
     mset (fo_added s) + fo_pending scrape s = mset (concat (map scrape agentIDs)) \<and>
     (fo_returned s \<longrightarrow> fo_wg s = 0)"

lemma dropIndex_split:
  "i < length xs \<Longrightarrow> xs = take i xs @ xs ! i # drop (Suc i) xs"
  by (rule id_take_nth_drop)

lemma length_dropIndex [simp]: "i < length xs \<Longrightarrow> length (dropIndex i xs) = length xs - 1"
  by (simp add: dropIndex_def)

lemma running_split:
  assumes "i < length rs"
  shows "mset (concat (map snd rs)) = mset (snd (rs ! i)) + mset (concat (map snd (dropIndex i rs)))"
proof -
  have "concat (map snd rs) = concat (map snd (take i rs @ rs ! i # drop (Suc i) rs))"
    using dropIndex_split [OF assms] by simp
  then show ?thesis by (simp add: dropIndex_def)
qed

lemma running_update:
  assumes "i < length rs"
  shows "mset (concat (map snd (rs[i := x]))) = mset (snd x) + mset (concat (map snd (dropIndex i rs)))"
  using running_split [of i "rs[i := x]"] assms by (simp add: dropIndex_def)

lemma fanout_step_inv:
  assumes "fanout_inv scrape agentIDs s" "fanout_step scrape act s = Some s'"
  shows "fanout_inv scrape agentIDs s'"
proof (cases act)
  case Spawn
  with assms show ?thesis
    by (auto simp: fanout_inv_def fo_pending_def ac_simps split: list.splits if_splits)
next
  case (Merge i)
  with assms(2) obtain a mf rest where i: "i < length (fo_running s)" "fo_running s ! i = (a, mf # rest)"
    and s': "s' = s\<lparr>fo_running := (fo_running s)[i := (a, rest)], fo_added := fo_added s @ [mf]\<rparr>"
    by (auto split: if_splits prod.splits list.splits)
  show ?thesis using assms(1) running_split [OF i(1)] i(2)
    by (auto simp: s' fanout_inv_def fo_pending_def running_update [OF i(1)])
next
  case (Release i)
  with assms(2) obtain a where i: "i < length (fo_running s)" "fo_running s ! i = (a, [])"
    and s': "s' = s\<lparr>fo_running := dropIndex i (fo_running s), fo_sem := fo_sem s - 1,
                  fo_leaving := fo_leaving s + 1\<rparr>"
    by (auto split: if_splits prod.splits list.splits)
  show ?thesis using assms(1) running_split [OF i(1)] i
    by (auto simp: s' fanout_inv_def fo_pending_def)
next
  case WgDone
  with assms show ?thesis by (auto simp: fanout_inv_def fo_pending_def split: if_splits)
next
  case WaitReturns
  with assms show ?thesis by (auto simp: fanout_inv_def fo_pending_def split: if_splits)
qed

lemma fanout_reach_inv: "fanout_reach scrape agentIDs s \<Longrightarrow> fanout_inv scrape agentIDs s"
proof (induction rule: fanout_reach.induct)
  case fanout_init
  show ?case by (simp add: fanout_inv_def fanout_start_def fo_pending_def)
qed (rule fanout_step_inv)

section \<open>Termination\<close>

definition fanout_measure :: "(string \<Rightarrow> 'v family list) \<Rightarrow> 'v fanout \<Rightarrow> nat" where
  "fanout_measure scrape s =
     size (fo_pending scrape s) + 3 * length (fo_todo s) + 2 * length (fo_running s) + fo_leaving s +
     of_bool (\<not> fo_returned s)"

lemma fanout_step_measure:
  assumes "fanout_step scrape act s = Some s'"
  shows "fanout_measure scrape s' < fanout_measure scrape s"
proof (cases act)
  case (Merge i)
  with assms obtain a mf rest where i: "i < length (fo_running s)" "fo_running s ! i = (a, mf # rest)"
    and s': "s' = s\<lparr>fo_running := (fo_running s)[i := (a, rest)], fo_added := fo_added s @ [mf]\<rparr>"
    by (auto split: if_splits prod.splits list.splits)
  show ?thesis using running_split [OF i(1)] i(2)
    by (simp add: s' fanout_measure_def fo_pending_def running_update [OF i(1)])
next
  case (Release i)
  with assms obtain a where i: "i < length (fo_running s)" "fo_running s ! i = (a, [])"
    and s': "s' = s\<lparr>fo_running := dropIndex i (fo_running s), fo_sem := fo_sem s - 1,
                  fo_leaving := fo_leaving s + 1\<rparr>"
    by (auto split: if_splits prod.splits list.splits)
  then have "length (fo_running s) \<noteq> 0" by auto
  then show ?thesis using running_split [OF i(1)] i
    by (auto simp: s' fanout_measure_def fo_pending_def)
qed (use assms in \<open>auto simp: fanout_measure_def fo_pending_def split: if_splits list.splits\<close>)

lemma fanout_progress:
  assumes "fanout_inv scrape agentIDs s" "\<not> fo_returned s"
  shows "\<exists>act. fanout_step scrape act s \<noteq> None"
proof (cases "fo_running s")
  case Nil
  show ?thesis
  proof (cases "fo_leaving s = 0")
    case False
    then show ?thesis by (intro exI [of _ WgDone]) simp
  next
    case True
    show ?thesis
    proof (cases "fo_todo s")
      case Nil
      with True assms \<open>fo_running s = []\<close> show ?thesis
        by (intro exI [of _ WaitReturns]) (simp add: fanout_inv_def)
    next
      case (Cons a as)
      with assms(1) \<open>fo_running s = []\<close> show ?thesis
        by (intro exI [of _ Spawn]) (simp add: fanout_inv_def metricsFanoutConcurrency_def)
    qed
  qed
next
  case (Cons r rs)
  then show ?thesis
    by (cases r; cases "snd r") (auto intro: exI [of _ "Merge 0"] exI [of _ "Release 0"])
qed

section \<open>Property\<close>

text \<open>
  (C37) The fan-out is bounded, complete and ends. Over every interleaving of the loop, the scrapes and
  their deferred calls, at most 16 agents are scraped at once; every step decreases a measure and
  until the handler's wait returns some step is possible, so the wait returns; and when it has
  returned no scrape is running and the merger was given exactly the families of every listed agent,
  each as often as it was scraped for, in some order.
\<close>

theorem metrics_fanout:
  assumes "fanout_reach scrape agentIDs s"
  shows "length (fo_running s) \<le> 16 \<and>
    (\<forall>act s'. fanout_step scrape act s = Some s' \<longrightarrow> fanout_measure scrape s' < fanout_measure scrape s) \<and>
    (\<not> fo_returned s \<longrightarrow> (\<exists>act. fanout_step scrape act s \<noteq> None)) \<and>
    (fo_returned s \<longrightarrow> fo_running s = [] \<and> mset (fo_added s) = mset (concat (map scrape agentIDs)))"
proof (intro conjI allI impI)
  note inv = fanout_reach_inv [OF assms]
  show "\<exists>act. fanout_step scrape act s \<noteq> None" if "\<not> fo_returned s"
    using inv that by (rule fanout_progress)
  show "length (fo_running s) \<le> 16"
    using inv by (simp add: fanout_inv_def metricsFanoutConcurrency_def)
  show "fo_running s = []" and "mset (fo_added s) = mset (concat (map scrape agentIDs))"
    if "fo_returned s"
    using inv that by (auto simp: fanout_inv_def fo_pending_def)
qed (rule fanout_step_measure)

definition demo_scrape :: "string \<Rightarrow> unit family list" where
  "demo_scrape agentID = [agentUp agentID True]"

theorem metrics_fanout_witness:
  "\<exists>s. fanout_reach demo_scrape [''a'', ''b''] s \<and> fo_returned s \<and>
     fo_added s = [agentUp ''b'' True, agentUp ''a'' True] \<and>
     mset (fo_added s) = mset (concat (map demo_scrape [''a'', ''b'']))"
proof -
  let ?acts = "[Spawn, Spawn, Merge 1, Release 1, Merge 0, Release 0, WgDone, WgDone, WaitReturns]"
  have run: "fanout_reach demo_scrape ids s \<Longrightarrow>
      (case fold (\<lambda>act r. Option.bind r (fanout_step demo_scrape act)) acts (Some s) of
         None \<Rightarrow> True | Some t \<Rightarrow> fanout_reach demo_scrape ids t)" for ids s acts
  proof (induction acts arbitrary: s)
    case (Cons act acts)
    have "fold (\<lambda>act r. Option.bind r (fanout_step demo_scrape act)) xs None = None" for xs
      by (induction xs) simp_all
    with Cons show ?case by (cases "fanout_step demo_scrape act s") (auto intro: fanout_next)
  qed simp
  have "fold (\<lambda>act r. Option.bind r (fanout_step demo_scrape act)) ?acts
      (Some (fanout_start [''a'', ''b''])) =
      Some \<lparr>fo_todo = [], fo_sem = 0, fo_running = [], fo_leaving = 0, fo_wg = 0,
            fo_added = [agentUp ''b'' True, agentUp ''a'' True], fo_returned = True\<rparr>"
    by (simp add: fanout_start_def demo_scrape_def metricsFanoutConcurrency_def dropIndex_def)
  with run [OF fanout_init, of "[''a'', ''b'']" ?acts]
  obtain s where s: "fanout_reach demo_scrape [''a'', ''b''] s" "fo_returned s"
    "fo_added s = [agentUp ''b'' True, agentUp ''a'' True]" by auto
  with metrics_fanout [OF s(1)] show ?thesis by blast
qed

end
