(* ===== verification/ControllerSetup.thy ===== *)
theory ControllerSetup
  imports Composition PortSubscription Registry Metrics
begin

text \<open>
  How a controller is put together and taken apart: \<^verbatim>\<open>RegisterGRPCService\<close>, \<^verbatim>\<open>startPeerPlane\<close>,
  \<^verbatim>\<open>startForwardPlane\<close> and \<^verbatim>\<open>Close\<close> of \<^verbatim>\<open>pkg/controller/controller.go\<close>, \<^verbatim>\<open>newRedisClient\<close> of \<^verbatim>\<open>redis.go\<close>, the
  credentials and the listener of the peer plane in \<^verbatim>\<open>peer.go\<close>, and the flags of \<^verbatim>\<open>flags.go\<close>. The
  service is a record with the states of the components it owns, and every
  function also returns the list of what it opened and released, in order. What the operating
  system and the libraries answer (URL parsers, certificate loaders, the bind of the peer listener,
  the results of closing) is an argument.
\<close>

section \<open>Configuration\<close>

record config =
  c_grpcBindAddress :: string
  c_grpcTLSCertPath :: string
  c_grpcTLSKeyPath :: string
  c_grpcTLSCAPath :: string
  c_redisURL :: string
  c_forwardPortRange :: string
  c_agentScrapeTimeout :: int
  c_grpcMaxRecvMsgSize :: int
  c_peerBindAddress :: string
  c_peerAdvertiseAddress :: string
  c_peerTLSCertPath :: string
  c_peerTLSKeyPath :: string
  c_peerTLSCAPath :: string
  c_peerTLSServerName :: string

text \<open>Durations in nanoseconds, sizes in bytes.\<close>

definition defaultAgentScrapeTimeout :: int where
  "defaultAgentScrapeTimeout = 5 * 10 ^ 9"

definition defaultGRPCMaxRecvMsgSize :: int where
  "defaultGRPCMaxRecvMsgSize = 16 * 2 ^ 20"

definition forwardPairTimeout :: int where
  "forwardPairTimeout = 30 * 10 ^ 9"

text \<open>The values that \<^verbatim>\<open>RegisterFlags\<close> declares, in force for every flag that is not given.\<close>

definition RegisterFlags :: config where
  "RegisterFlags =
     \<lparr>c_grpcBindAddress = [], c_grpcTLSCertPath = [], c_grpcTLSKeyPath = [], c_grpcTLSCAPath = [],
      c_redisURL = [], c_forwardPortRange = [],
      c_agentScrapeTimeout = defaultAgentScrapeTimeout,
      c_grpcMaxRecvMsgSize = defaultGRPCMaxRecvMsgSize,
      c_peerBindAddress = [], c_peerAdvertiseAddress = [],
      c_peerTLSCertPath = [], c_peerTLSKeyPath = [], c_peerTLSCAPath = [],
      c_peerTLSServerName = []\<rparr>"

definition GRPCMaxRecvMsgSize :: "config \<Rightarrow> int" where
  "GRPCMaxRecvMsgSize cfg =
     (let n = c_grpcMaxRecvMsgSize cfg in if n \<le> 0 then defaultGRPCMaxRecvMsgSize else n)"

text \<open>The listener for agents: its address, its certificate and the CA that client certificates must chain to.\<close>

record listenerOptions =
  lo_addr :: string
  lo_cert :: "string \<times> string"
  lo_clientCA :: string

definition ListenerOptions :: "config \<Rightarrow> listenerOptions" where
  "ListenerOptions cfg =
     \<lparr>lo_addr = c_grpcBindAddress cfg, lo_cert = (c_grpcTLSCertPath cfg, c_grpcTLSKeyPath cfg),
      lo_clientCA = c_grpcTLSCAPath cfg\<rparr>"

definition agentScrapeTimeout :: "config \<Rightarrow> int" where
  "agentScrapeTimeout cfg =
     (let d = c_agentScrapeTimeout cfg in if d \<le> 0 then defaultAgentScrapeTimeout else d)"

section \<open>The Redis client\<close>

datatype redisURLErr =
  ErrParseSentinelURL | ErrParseClusterURL | ErrParseURL | ErrUnsupportedRedisTopology string

datatype 'o redisConn = FailoverClient 'o | ClusterClient 'o | SingleClient 'o

record 'o redisParsers =
  ParseFailoverURL :: "string \<Rightarrow> 'o option"
  ParseClusterURL :: "string \<Rightarrow> 'o option"
  ParseURL :: "string \<Rightarrow> 'o option"

definition newRedisClient :: "'o redisParsers \<Rightarrow> string \<Rightarrow> redisURLErr + 'o redisConn" where
  "newRedisClient P url =
     (case redisTopologyOf url of
        Sentinel rest \<Rightarrow>
          (case ParseFailoverURL P rest of
             None \<Rightarrow> Inl ErrParseSentinelURL
           | Some opts \<Rightarrow> Inr (FailoverClient opts))
      | Cluster rest \<Rightarrow>
          (case ParseClusterURL P rest of
             None \<Rightarrow> Inl ErrParseClusterURL
           | Some opts \<Rightarrow> Inr (ClusterClient opts))
      | Unsupported scheme \<Rightarrow> Inl (ErrUnsupportedRedisTopology scheme)
      | Standalone u \<Rightarrow>
          (case ParseURL P u of
             None \<Rightarrow> Inl ErrParseURL
           | Some opts \<Rightarrow> Inr (SingleClient opts)))"

section \<open>The peer plane\<close>

datatype setupErr =
    ErrForwardRange port_error
  | ErrHalfConfigured
  | ErrAdvertiseRequired
  | ErrRedisURL redisURLErr
  | ErrPeerTLSFlags
  | ErrPeerCertificate
  | ErrPeerCA
  | ErrBindPeer

text \<open>
  \<open>clientCert\<close>, \<open>clientCA\<close>, \<open>serverCert\<close> and \<open>serverCA\<close> say whether the four reloaders load their files;
  \<open>listen\<close> whether the peer address can be bound.
\<close>

record 'o setupEnv =
  parsers :: "'o redisParsers"
  clientCert :: "string \<Rightarrow> string \<Rightarrow> bool"
  clientCA :: "string \<Rightarrow> bool"
  serverCert :: "string \<Rightarrow> string \<Rightarrow> bool"
  serverCA :: "string \<Rightarrow> bool"
  listenPeer :: "string \<Rightarrow> bool"

text \<open>
  Credentials: the files that are presented and verified against, as they are at each handshake, the
  name the verification asks for, and whether the server requires a client certificate.
\<close>

record peerCreds =
  pk_cert :: string
  pk_key :: string
  pk_ca :: string
  pk_serverName :: string
  pk_requireClientCert :: bool

definition peerServerCredentials :: "config \<Rightarrow> 'o setupEnv \<Rightarrow> setupErr + peerCreds" where
  "peerServerCredentials cfg env =
     (let certPath = c_peerTLSCertPath cfg; keyPath = c_peerTLSKeyPath cfg;
          caPath = c_peerTLSCAPath cfg in
      if certPath = [] \<or> keyPath = [] \<or> caPath = [] then Inl ErrPeerTLSFlags
      else if \<not> serverCert env certPath keyPath then Inl ErrPeerCertificate
      else if \<not> serverCA env caPath then Inl ErrPeerCA
      else Inr \<lparr>pk_cert = certPath, pk_key = keyPath, pk_ca = caPath, pk_serverName = [],
                pk_requireClientCert = True\<rparr>)"

definition peerClientCredentials :: "config \<Rightarrow> 'o setupEnv \<Rightarrow> setupErr + peerCreds" where
  "peerClientCredentials cfg env =
     (let certPath = c_peerTLSCertPath cfg; keyPath = c_peerTLSKeyPath cfg;
          caPath = c_peerTLSCAPath cfg in
      if certPath = [] \<or> keyPath = [] \<or> caPath = [] then Inl ErrPeerTLSFlags
      else if \<not> clientCert env certPath keyPath then Inl ErrPeerCertificate
      else if \<not> clientCA env caPath then Inl ErrPeerCA
      else Inr \<lparr>pk_cert = certPath, pk_key = keyPath, pk_ca = caPath,
                pk_serverName = c_peerTLSServerName cfg, pk_requireClientCert = False\<rparr>)"

text \<open>
  The check a client makes of a sibling's certificates. \<open>x509_verify\<close> is \<^verbatim>\<open>Certificate.Verify\<close> as its
  documentation has it: the host name is checked only when \<^verbatim>\<open>DNSName\<close> is set. \<open>chain\<close> and \<open>host\<close> stand
  for the chain building and the host name match of \<^verbatim>\<open>crypto/x509\<close>; \<open>pool\<close> is the content of the CA file at
  this handshake.
\<close>

datatype verifyErr = ErrNoPeerCertificate | ErrVerifyPeer

definition x509_verify :: "('pool \<Rightarrow> 'cert list \<Rightarrow> 'cert \<Rightarrow> bool) \<Rightarrow> ('cert \<Rightarrow> string \<Rightarrow> bool) \<Rightarrow>
    'pool \<Rightarrow> string \<Rightarrow> 'cert list \<Rightarrow> 'cert \<Rightarrow> bool" where
  "x509_verify chain host roots dnsName intermediates leaf \<longleftrightarrow>
     (dnsName = [] \<or> host leaf dnsName) \<and> chain roots intermediates leaf"

definition VerifyConnection :: "('pool \<Rightarrow> 'cert list \<Rightarrow> 'cert \<Rightarrow> bool) \<Rightarrow> ('cert \<Rightarrow> string \<Rightarrow> bool) \<Rightarrow>
    peerCreds \<Rightarrow> 'pool \<Rightarrow> 'cert list \<Rightarrow> verifyErr option" where
  "VerifyConnection chain host creds pool certs =
     (case certs of
        [] \<Rightarrow> Some ErrNoPeerCertificate
      | leaf # rest \<Rightarrow>
          if x509_verify chain host pool (pk_serverName creds) rest leaf then None
          else Some ErrVerifyPeer)"

record peerClients =
  pcl_creds :: peerCreds
  pcl_serverName :: string
  pcl_conns :: "(string, nat) gomap"

definition newPeerClients :: "peerCreds \<Rightarrow> string \<Rightarrow> peerClients" where
  "newPeerClients creds serverName =
     \<lparr>pcl_creds = creds, pcl_serverName = serverName, pcl_conns = []\<rparr>"

record peerServer =
  psv_creds :: peerCreds
  psv_addr :: string
  psv_maxRecv :: int
  psv_pairTimeout :: int

section \<open>What is opened and released\<close>

datatype resource =
    RRedis          \<comment> \<open>the Redis client\<close>
  | RStore          \<comment> \<open>the port store with its watchers and, over Redis, its subscription\<close>
  | RPeerClients    \<comment> \<open>the cache of connections to siblings\<close>
  | RPeerListener   \<comment> \<open>the bound peer listener and its relays\<close>
  | RServe          \<comment> \<open>the goroutine that serves it\<close>
  | RForwardCtx     \<comment> \<open>the context of the forward plane, and with it the reconciler\<close>
  | RListeners      \<comment> \<open>the public listeners\<close>

datatype setupAct = Opened resource | Released resource

definition startPeerServer :: "config \<Rightarrow> 'o setupEnv \<Rightarrow> string \<Rightarrow> (setupErr + peerServer) \<times> setupAct list" where
  "startPeerServer cfg env bindAddr =
     (case peerServerCredentials cfg env of
        Inl e \<Rightarrow> (Inl e, [])
      | Inr creds \<Rightarrow>
          if \<not> listenPeer env bindAddr then (Inl ErrBindPeer, [])
          else (Inr \<lparr>psv_creds = creds, psv_addr = bindAddr, psv_maxRecv = GRPCMaxRecvMsgSize cfg,
                     psv_pairTimeout = forwardPairTimeout\<rparr>,
                [Opened RPeerListener, Opened RServe]))"

section \<open>The service\<close>

record 'o registry =
  reg_redis :: "'o redisConn option"
  reg_selfAddr :: string
  reg_agents :: agents

definition newRegistry :: "'o redisConn option \<Rightarrow> string \<Rightarrow> 'o registry" where
  "newRegistry redis selfAddr = \<lparr>reg_redis = redis, reg_selfAddr = selfAddr, reg_agents = []\<rparr>"

record 'o bindingTracker =
  bt_redis :: "'o redisConn option"
  bt_selfAddr :: string

definition newBindingTracker :: "'o redisConn option \<Rightarrow> string \<Rightarrow> 'o bindingTracker" where
  "newBindingTracker redis selfAddr = \<lparr>bt_redis = redis, bt_selfAddr = selfAddr\<rparr>"

text \<open>
  The forwarder's pointers to the registry, the sessions and the store are those of the service. The
  code holds it only through the listeners' handler \<^verbatim>\<open>fwd.handleConn\<close>; here it is a field of the service.
\<close>

record forwarder =
  fw_crossPod :: bool
  fw_selfAddr :: string
  fw_pairTimeout :: int

definition newForwarder :: "peerClients option \<Rightarrow> string \<Rightarrow> forwarder" where
  "newForwarder peers selfAddr =
     \<lparr>fw_crossPod = (peers \<noteq> None), fw_selfAddr = selfAddr, fw_pairTimeout = forwardPairTimeout\<rparr>"

record 'o service =
  svc_registry :: "'o registry"
  svc_selfAddr :: string
  svc_sessions :: sessionTable
  svc_store :: "(memPortStore + 'o redisConn redisSubStore) option"
  svc_forwarder :: "forwarder option"
  svc_listeners :: "listenerManager option"
  svc_bindings :: "'o bindingTracker option"
  svc_fwdCancel :: bool
  svc_rangeFrom :: uint32
  svc_rangeTo :: uint32
  svc_peers :: "peerClients option"
  svc_peerServer :: "peerServer option"

definition startPeerPlane :: "config \<Rightarrow> 'o setupEnv \<Rightarrow> 'o service \<Rightarrow>
    setupErr option \<times> 'o service \<times> setupAct list" where
  "startPeerPlane cfg env svc =
     (if c_peerBindAddress cfg = [] then (None, svc, [])
      else case peerClientCredentials cfg env of
        Inl e \<Rightarrow> (Some e, svc, [])
      | Inr clientCreds \<Rightarrow>
          (let svc' = svc\<lparr>svc_peers := Some (newPeerClients clientCreds (c_peerTLSServerName cfg))\<rparr> in
           case startPeerServer cfg env (c_peerBindAddress cfg) of
             (Inl e, acts) \<Rightarrow> (Some e, svc', Opened RPeerClients # acts)
           | (Inr srv, acts) \<Rightarrow>
               (None, svc'\<lparr>svc_peerServer := Some srv\<rparr>, Opened RPeerClients # acts)))"

definition startForwardPlane :: "'o redisConn option \<Rightarrow> portRange \<Rightarrow> 'o service \<Rightarrow>
    'o service \<times> setupAct list" where
  "startForwardPlane redis forwardRange svc =
     (if svc_store svc = None then (svc, [])
      else (svc\<lparr>svc_fwdCancel := True,
                svc_forwarder := Some (newForwarder (svc_peers svc) (svc_selfAddr svc)),
                svc_listeners := Some newListenerManager,
                svc_bindings := Some (newBindingTracker redis (svc_selfAddr svc)),
                svc_rangeFrom := range_from forwardRange,
                svc_rangeTo := range_to forwardRange\<rparr>,
            [Opened RForwardCtx, Opened RListeners]))"

text \<open>
  What the closes report: per public listener, per peer connection, for the Redis client, for the
  store. \<open>Close\<close> returns the joined errors, by the step they come from.
\<close>

record closeEnv =
  ce_listeners :: "nat \<Rightarrow> closeRes"
  ce_peers :: "nat \<Rightarrow> bool"
  ce_redis :: bool
  ce_store :: bool

definition registry_close :: "closeEnv \<Rightarrow> 'o registry \<Rightarrow> bool \<times> setupAct list" where
  "registry_close env reg =
     (if reg_redis reg = None then (True, []) else (ce_redis env, [Released RRedis]))"

definition Close_listeners :: "closeEnv \<Rightarrow> 'o service \<Rightarrow> resource list \<times> setupAct list \<times> 'o service" where
  "Close_listeners env svc =
     (case svc_listeners svc of
        None \<Rightarrow> ([], [], svc)
      | Some m \<Rightarrow>
          (case Listeners.close (ce_listeners env) m of
             (failed, m') \<Rightarrow> (if failed = [] then [] else [RListeners], [Released RListeners],
                               svc\<lparr>svc_listeners := Some m'\<rparr>)))"

definition Close_peers :: "closeEnv \<Rightarrow> 'o service \<Rightarrow> resource list \<times> setupAct list \<times> 'o service" where
  "Close_peers env svc =
     (case svc_peers svc of
        None \<Rightarrow> ([], [], svc)
      | Some p \<Rightarrow>
          (case peersClose (ce_peers env) (pcl_conns p) of
             (failed, conns) \<Rightarrow> (if failed = [] then [] else [RPeerClients], [Released RPeerClients],
                                  svc\<lparr>svc_peers := Some (p\<lparr>pcl_conns := conns\<rparr>)\<rparr>)))"

definition Close :: "closeEnv \<Rightarrow> 'o service \<Rightarrow> resource list \<times> setupAct list \<times> 'o service" where
  "Close env svc =
     (let a1 = (if svc_fwdCancel svc then [Released RForwardCtx] else []);
          (e2, a2, svc2) = Close_listeners env svc;
          a3 = (if svc_peerServer svc2 \<noteq> None then [Released RPeerListener] else []);
          (e4, a4, svc4) = Close_peers env svc2;
          (redisOk, a5) = registry_close env (svc_registry svc4);
          e5 = (if redisOk then [] else [RRedis]);
          (e6, a6) = (if svc_store svc4 = None then ([], [])
                      else (if ce_store env then [] else [RStore], [Released RStore]));
          a7 = (if svc_peerServer svc4 \<noteq> None then [Released RServe] else [])
      in (e2 @ e4 @ e5 @ e6, a1 @ a2 @ a3 @ a4 @ a5 @ a6 @ a7, svc4))"

definition crossPodMode :: "config \<Rightarrow> setupErr + bool" where
  "crossPodMode cfg =
     (if c_redisURL cfg \<noteq> [] \<or> c_peerBindAddress cfg \<noteq> []
      then if c_redisURL cfg = [] \<or> c_peerBindAddress cfg = [] then Inl ErrHalfConfigured
           else if c_peerAdvertiseAddress cfg = [] then Inl ErrAdvertiseRequired
           else Inr True
      else Inr False)"

text \<open>\<^verbatim>\<open>RegisterGRPCService\<close>: \<open>cenv\<close> is what the closes of a failed setup report, which is only logged.\<close>

definition RegisterGRPCService :: "config \<Rightarrow> 'o setupEnv \<Rightarrow> closeEnv \<Rightarrow>
    (setupErr + 'o service) \<times> setupAct list" where
  "RegisterGRPCService cfg env cenv =
     (case (if c_forwardPortRange cfg \<noteq> [] then parsePortRange (c_forwardPortRange cfg)
            else Inr \<lparr>range_from = 0, range_to = 0\<rparr>) of
        Inl e \<Rightarrow> (Inl (ErrForwardRange e), [])
      | Inr forwardRange \<Rightarrow>
          (case crossPodMode cfg of
             Inl e \<Rightarrow> (Inl e, [])
           | Inr crossPod \<Rightarrow>
               (case (if crossPod then map_sum id Some (newRedisClient (parsers env) (c_redisURL cfg))
                      else Inr None) of
                  Inl e \<Rightarrow> (Inl (ErrRedisURL e), [])
                | Inr redis \<Rightarrow>
                    (let a1 = (if redis = None then [] else [Opened RRedis]);
                         store = (if c_forwardPortRange cfg \<noteq> [] then Some (newPortStore redis) else None);
                         a2 = (if store = None then [] else [Opened RStore]);
                         s = \<lparr>svc_registry = newRegistry redis (c_peerAdvertiseAddress cfg),
                              svc_selfAddr = c_peerAdvertiseAddress cfg,
                              svc_sessions = newSessionTable, svc_store = store,
                              svc_forwarder = None, svc_listeners = None, svc_bindings = None,
                              svc_fwdCancel = False, svc_rangeFrom = 0, svc_rangeTo = 0,
                              svc_peers = None, svc_peerServer = None\<rparr>
                     in case startPeerPlane cfg env s of
                          (Some e, s', a3) \<Rightarrow>
                            (Inl e, a1 @ a2 @ a3 @ fst (snd (Close cenv s')))
                        | (None, s', a3) \<Rightarrow>
                            (case startForwardPlane redis forwardRange s' of
                               (s'', a4) \<Rightarrow> (Inr s'', a1 @ a2 @ a3 @ a4))))))"

section \<open>The shape of a service\<close>

text \<open>
  \<open>service_ok\<close> is the consistency of the optional parts: the directory, the client pool and the peer
  listener come together or not at all, the parts of the forward plane come with the store, every
  part uses the same directory and the same address, and a range is one the store accepts.
\<close>

definition service_ok :: "config \<Rightarrow> 'o service \<Rightarrow> bool" where
  "service_ok cfg svc \<longleftrightarrow>
     (let redis = reg_redis (svc_registry svc); crossPod = (redis \<noteq> None);
          forward = (svc_store svc \<noteq> None) in
      (svc_peers svc \<noteq> None \<longleftrightarrow> crossPod) \<and> (svc_peerServer svc \<noteq> None \<longleftrightarrow> crossPod) \<and>
      (c_redisURL cfg \<noteq> [] \<longleftrightarrow> crossPod) \<and> (c_peerBindAddress cfg \<noteq> [] \<longleftrightarrow> crossPod) \<and>
      (crossPod \<longrightarrow> svc_selfAddr svc \<noteq> []) \<and>
      reg_selfAddr (svc_registry svc) = svc_selfAddr svc \<and>
      (c_forwardPortRange cfg \<noteq> [] \<longleftrightarrow> forward) \<and>
      (\<forall>store. svc_store svc = Some store \<longrightarrow> store = newPortStore redis) \<and>
      (svc_fwdCancel svc \<longleftrightarrow> forward) \<and>
      svc_listeners svc = (if forward then Some newListenerManager else None) \<and>
      svc_forwarder svc =
        (if forward then Some \<lparr>fw_crossPod = crossPod, fw_selfAddr = svc_selfAddr svc,
                               fw_pairTimeout = forwardPairTimeout\<rparr> else None) \<and>
      svc_bindings svc =
        (if forward then Some \<lparr>bt_redis = redis, bt_selfAddr = svc_selfAddr svc\<rparr> else None) \<and>
      (forward \<longrightarrow> validatePortRange (svc_rangeFrom svc) (svc_rangeTo svc) = None))"

text \<open>What a service of a given shape holds, and the order in which \<open>Close\<close> releases it.\<close>

definition closeOrder :: "resource list" where
  "closeOrder = [RForwardCtx, RListeners, RPeerListener, RPeerClients, RRedis, RStore, RServe]"

definition holds :: "'o service \<Rightarrow> resource \<Rightarrow> bool" where
  "holds svc r =
     (case r of
        RRedis \<Rightarrow> reg_redis (svc_registry svc) \<noteq> None
      | RStore \<Rightarrow> svc_store svc \<noteq> None
      | RPeerClients \<Rightarrow> svc_peers svc \<noteq> None
      | RPeerListener \<Rightarrow> svc_peerServer svc \<noteq> None
      | RServe \<Rightarrow> svc_peerServer svc \<noteq> None
      | RForwardCtx \<Rightarrow> svc_fwdCancel svc
      | RListeners \<Rightarrow> svc_listeners svc \<noteq> None)"

text \<open>Whether closing a part reports an error.\<close>

definition close_fails :: "closeEnv \<Rightarrow> 'o service \<Rightarrow> resource \<Rightarrow> bool" where
  "close_fails env svc r =
     (case r of
        RRedis \<Rightarrow> \<not> ce_redis env
      | RStore \<Rightarrow> \<not> ce_store env
      | RPeerClients \<Rightarrow> (\<exists>(addr, conn)\<in>set (pcl_conns (the (svc_peers svc))). \<not> ce_peers env conn)
      | RListeners \<Rightarrow> fst (Listeners.close (ce_listeners env) (the (svc_listeners svc))) \<noteq> []
      | _ \<Rightarrow> False)"

lemma Close_listeners_eq:
  "Close_listeners env svc =
     (if holds svc RListeners \<and> close_fails env svc RListeners then [RListeners] else [],
      if holds svc RListeners then [Released RListeners] else [],
      svc\<lparr>svc_listeners := map_option (\<lambda>m. snd (Listeners.close (ce_listeners env) m)) (svc_listeners svc)\<rparr>)"
  by (simp add: Close_listeners_def holds_def close_fails_def case_prod_beta split: option.split)

lemma Close_peers_eq:
  "Close_peers env svc =
     (if holds svc RPeerClients \<and> close_fails env svc RPeerClients then [RPeerClients] else [],
      if holds svc RPeerClients then [Released RPeerClients] else [],
      svc\<lparr>svc_peers := map_option (\<lambda>p. p\<lparr>pcl_conns := []\<rparr>) (svc_peers svc)\<rparr>)"
  by (auto simp: Close_peers_def holds_def close_fails_def peersClose_def filter_empty_conv
      split: option.split)

lemma filter_Cons_append: "filter P (x # xs) = (if P x then [x] else []) @ filter P xs"
  by simp

lemma Close_eq:
  "Close env svc =
     (filter (\<lambda>r. holds svc r \<and> close_fails env svc r) closeOrder,
      map Released (filter (holds svc) closeOrder),
      svc\<lparr>svc_listeners := map_option (\<lambda>m. snd (Listeners.close (ce_listeners env) m)) (svc_listeners svc),
          svc_peers := map_option (\<lambda>p. p\<lparr>pcl_conns := []\<rparr>) (svc_peers svc)\<rparr>)"
proof -
  have one: "map Released (if c then [r] else []) = (if c then [Released r] else [])" for c r
    by simp
  let ?svc = "svc\<lparr>svc_listeners :=
    map_option (\<lambda>m. snd (Listeners.close (ce_listeners env) m)) (svc_listeners svc)\<rparr>"
  have same: "holds ?svc RPeerClients = holds svc RPeerClients"
    "close_fails env ?svc RPeerClients = close_fails env svc RPeerClients"
    by (simp_all add: holds_def close_fails_def)
  have reg: "registry_close env reg = (if reg_redis reg = None then True else ce_redis env,
      if reg_redis reg \<noteq> None then [Released RRedis] else [])" for reg :: "'a registry"
    by (simp add: registry_close_def)
  have store: "(if svc_store s = None then ([], []) else (if ok then [] else [RStore], [Released RStore])) =
      (if svc_store s \<noteq> None \<and> \<not> ok then [RStore] else [],
       if svc_store s \<noteq> None then [Released RStore] else [])" for s :: "'a service" and ok
    by simp
  have redis: "(if if reg_redis reg = None then True else ok then [] else [RRedis]) =
      (if reg_redis reg \<noteq> None \<and> \<not> ok then [RRedis] else [])" for reg :: "'a registry" and ok
    by simp
  show ?thesis
    unfolding Close_def Close_listeners_eq Close_peers_eq Let_def prod.case reg store same redis
    by (simp add: closeOrder_def filter_Cons_append one holds_def close_fails_def
        split del: if_split del: filter.simps(2))
qed

section \<open>Setup\<close>

lemma startPeerPlane_ok:
  assumes "startPeerPlane cfg env svc = (None, svc', acts)"
    and "svc_peers svc = None" "svc_peerServer svc = None"
  shows "\<exists>p srv. svc' = (if c_peerBindAddress cfg = [] then svc
            else svc\<lparr>svc_peers := Some p, svc_peerServer := Some srv\<rparr>) \<and>
         acts = (if c_peerBindAddress cfg = [] then []
            else map Opened [RPeerClients, RPeerListener, RServe])"
  using assms
  by (auto simp: startPeerPlane_def startPeerServer_def Let_def
      split: if_splits sum.splits prod.splits)

lemma startPeerPlane_failed:
  assumes "startPeerPlane cfg env svc = (Some e, svc', acts)"
    and "svc_peers svc = None" "svc_peerServer svc = None"
  shows "\<exists>peers. svc' = svc\<lparr>svc_peers := peers\<rparr> \<and>
         acts = (if peers = None then [] else [Opened RPeerClients])"
proof (cases "peerClientCredentials cfg env")
  case (Inl e')
  then have "svc' = svc\<lparr>svc_peers := None\<rparr>" "acts = []"
    using assms by (auto simp: startPeerPlane_def split: if_splits)
  then show ?thesis by auto
next
  case (Inr creds)
  then show ?thesis using assms
    by (auto simp: startPeerPlane_def startPeerServer_def Let_def
        split: if_splits sum.splits prod.splits)
qed

lemma crossPodMode_Inr:
  "crossPodMode cfg = Inr b \<Longrightarrow>
     b = (c_redisURL cfg \<noteq> []) \<and> b = (c_peerBindAddress cfg \<noteq> []) \<and>
     (b \<longrightarrow> c_peerAdvertiseAddress cfg \<noteq> [])"
  by (auto simp: crossPodMode_def split: if_splits)

text \<open>The service before the planes are started.\<close>

definition service_start :: "config \<Rightarrow> 'o redisConn option \<Rightarrow> 'o service" where
  "service_start cfg redis =
     \<lparr>svc_registry = newRegistry redis (c_peerAdvertiseAddress cfg),
      svc_selfAddr = c_peerAdvertiseAddress cfg, svc_sessions = newSessionTable,
      svc_store = (if c_forwardPortRange cfg \<noteq> [] then Some (newPortStore redis) else None),
      svc_forwarder = None, svc_listeners = None, svc_bindings = None, svc_fwdCancel = False,
      svc_rangeFrom = 0, svc_rangeTo = 0, svc_peers = None, svc_peerServer = None\<rparr>"

definition startActs :: "config \<Rightarrow> 'o redisConn option \<Rightarrow> setupAct list" where
  "startActs cfg redis =
     (if redis = None then [] else [Opened RRedis]) @
     (if c_forwardPortRange cfg = [] then [] else [Opened RStore])"

lemma RegisterGRPCService_cases:
  assumes "RegisterGRPCService cfg env cenv = (res, acts)"
  obtains
    (refused) e where "res = Inl e" "acts = []"
  | (peers_failed) e b redis s a where
      "res = Inl e" "crossPodMode cfg = Inr b" "b = (redis \<noteq> None)"
      "startPeerPlane cfg env (service_start cfg redis) = (Some e, s, a)"
      "acts = startActs cfg redis @ a @ fst (snd (Close cenv s))"
  | (started) b redis rng s svc a a' where
      "res = Inr svc" "crossPodMode cfg = Inr b" "b = (redis \<noteq> None)"
      "c_forwardPortRange cfg \<noteq> [] \<longrightarrow> parsePortRange (c_forwardPortRange cfg) = Inr rng"
      "startPeerPlane cfg env (service_start cfg redis) = (None, s, a)"
      "startForwardPlane redis rng s = (svc, a')"
      "acts = startActs cfg redis @ a @ a'"
proof -
  let ?range = "if c_forwardPortRange cfg \<noteq> [] then parsePortRange (c_forwardPortRange cfg)
    else Inr \<lparr>range_from = 0, range_to = 0\<rparr>"
  let ?client = "\<lambda>b. if b then map_sum id Some (newRedisClient (parsers env) (c_redisURL cfg))
    else Inr None"
  show thesis
  proof (cases ?range)
    case (Inl e)
    then show ?thesis using assms by (auto simp: RegisterGRPCService_def intro: refused)
  next
    case rng: (Inr rng)
    show ?thesis
    proof (cases "crossPodMode cfg")
      case (Inl e)
      then show ?thesis using assms rng by (auto simp: RegisterGRPCService_def intro: refused)
    next
      case mode: (Inr b)
      show ?thesis
      proof (cases "?client b")
        case (Inl e)
        then show ?thesis using assms rng mode by (auto simp: RegisterGRPCService_def intro: refused)
      next
        case redis: (Inr redis)
        then have b: "b = (redis \<noteq> None)"
          by (cases "newRedisClient (parsers env) (c_redisURL cfg)") (auto split: if_splits)
        obtain x s a where p: "startPeerPlane cfg env (service_start cfg redis) = (x, s, a)"
          by (metis prod_cases3)
        have "(case x of
             Some e \<Rightarrow> (Inl e, startActs cfg redis @ a @ fst (snd (Close cenv s)))
           | None \<Rightarrow> (case startForwardPlane redis rng s of
               (svc, a') \<Rightarrow> (Inr svc, startActs cfg redis @ a @ a'))) = (res, acts)"
          using assms rng mode redis p
          by (simp add: RegisterGRPCService_def service_start_def startActs_def Let_def
              split: if_splits option.splits)
        then show ?thesis
          using peers_failed [OF _ mode b] started [OF _ mode b _ _ _] p rng
          by (auto split: option.splits prod.splits if_splits)
      qed
    qed
  qed
qed

lemma started_ok:
  assumes "crossPodMode cfg = Inr b" "b = (redis \<noteq> None)"
    and "c_forwardPortRange cfg \<noteq> [] \<longrightarrow> parsePortRange (c_forwardPortRange cfg) = Inr rng"
    and "startPeerPlane cfg env (service_start cfg redis) = (None, s, a)"
    and "startForwardPlane redis rng s = (svc, a')"
  shows "service_ok cfg svc"
proof -
  obtain p srv where s: "s = (if c_peerBindAddress cfg = [] then service_start cfg redis
      else (service_start cfg redis)\<lparr>svc_peers := Some p, svc_peerServer := Some srv\<rparr>)"
    using startPeerPlane_ok [OF assms(4)] by (auto simp: service_start_def)
  have rng: "c_forwardPortRange cfg \<noteq> [] \<longrightarrow> validatePortRange (range_from rng) (range_to rng) = None"
    using assms(3) parsePortRange_valid by blast
  have mode: "(redis \<noteq> None) = (c_redisURL cfg \<noteq> [])" "(redis \<noteq> None) = (c_peerBindAddress cfg \<noteq> [])"
    "redis \<noteq> None \<longrightarrow> c_peerAdvertiseAddress cfg \<noteq> []"
    using crossPodMode_Inr [OF assms(1)] assms(2) by auto
  show ?thesis
    using assms(5) rng mode
    by (cases "redis = None"; cases "c_forwardPortRange cfg = []")
      (auto simp: s service_ok_def service_start_def startForwardPlane_def newRegistry_def
        newForwarder_def newBindingTracker_def Let_def)
qed

definition openOrder :: "resource list" where
  "openOrder = [RRedis, RStore, RPeerClients, RPeerListener, RServe, RForwardCtx, RListeners]"

lemma started_acts:
  assumes "crossPodMode cfg = Inr b" "b = (redis \<noteq> None)"
    and "startPeerPlane cfg env (service_start cfg redis) = (None, s, a)"
    and "startForwardPlane redis rng s = (svc, a')"
  shows "startActs cfg redis @ a @ a' = map Opened (filter (holds svc) openOrder)"
proof -
  obtain p srv where s: "s = (if c_peerBindAddress cfg = [] then service_start cfg redis
      else (service_start cfg redis)\<lparr>svc_peers := Some p, svc_peerServer := Some srv\<rparr>)"
    and a: "a = (if c_peerBindAddress cfg = [] then []
      else map Opened [RPeerClients, RPeerListener, RServe])"
    using startPeerPlane_ok [OF assms(3)] by (auto simp: service_start_def)
  have mode: "(redis \<noteq> None) = (c_peerBindAddress cfg \<noteq> [])"
    using crossPodMode_Inr [OF assms(1)] assms(2) by auto
  show ?thesis
    using assms(4) mode
    by (cases "redis = None"; cases "c_forwardPortRange cfg = []")
      (auto simp: s a openOrder_def startActs_def holds_def service_start_def startForwardPlane_def
        newRegistry_def)
qed

lemma failed_acts:
  assumes "startPeerPlane cfg env (service_start cfg redis) = (Some e, s, a)"
  shows "\<exists>rs. startActs cfg redis @ a @ fst (snd (Close cenv s)) =
      map Opened rs @ map Released (filter (\<lambda>r. r \<in> set rs) closeOrder) \<and> distinct rs"
proof -
  obtain peers where s: "s = (service_start cfg redis)\<lparr>svc_peers := peers\<rparr>"
    and a: "a = (if peers = None then [] else [Opened RPeerClients])"
    using startPeerPlane_failed [OF assms] by (auto simp: service_start_def)
  let ?rs = "filter (holds s) [RRedis, RStore, RPeerClients]"
  have "startActs cfg redis @ a = map Opened ?rs"
    by (simp add: startActs_def a s holds_def service_start_def newRegistry_def)
  moreover have "filter (holds s) closeOrder = filter (\<lambda>r. r \<in> set ?rs) closeOrder"
    by (simp add: s closeOrder_def holds_def service_start_def newRegistry_def)
  ultimately show ?thesis
    by (intro exI [of _ ?rs]) (simp add: Close_eq)
qed

lemma setup_started:
  assumes "RegisterGRPCService cfg env cenv = (Inr svc, acts)"
  shows "service_ok cfg svc \<and> acts = map Opened (filter (holds svc) openOrder)"
  using assms
proof (cases rule: RegisterGRPCService_cases)
  case (started b redis rng s svc' a a')
  then show ?thesis using started_ok [OF started(2-6)] started_acts [OF started(2,3,5,6)] by auto
qed simp_all

lemma setup_failed:
  assumes "RegisterGRPCService cfg env cenv = (Inl e, acts)"
  shows "\<exists>rs. acts = map Opened rs @ map Released (filter (\<lambda>r. r \<in> set rs) closeOrder) \<and> distinct rs"
  using assms
proof (cases rule: RegisterGRPCService_cases)
  case (peers_failed e' b redis s a)
  then show ?thesis using failed_acts [OF peers_failed(4)] by auto
qed (auto intro: exI [of _ "[]"])

section \<open>The life of a service\<close>

text \<open>What changes a part between setup and \<open>Close\<close>: relays dial siblings, the reconciler runs.\<close>

datatype svcOp = DialPeer "string \<Rightarrow> nat option" string | ListenerOp lmOp

fun svc_step :: "svcOp \<Rightarrow> 'o service \<Rightarrow> 'o service" where
  "svc_step (DialPeer dial addr) svc =
     svc\<lparr>svc_peers := map_option (\<lambda>p. p\<lparr>pcl_conns := snd (peerConn dial addr (pcl_conns p))\<rparr>) (svc_peers svc)\<rparr>"
| "svc_step (ListenerOp op) svc = svc\<lparr>svc_listeners := map_option (lm_run [op]) (svc_listeners svc)\<rparr>"

lemma svc_step_holds: "holds (svc_step op svc) = holds svc"
  by (cases op) (auto simp: holds_def fun_eq_iff split: resource.split)

lemma svc_fold_holds: "holds (fold svc_step ops svc) = holds svc"
  by (induction ops arbitrary: svc) (simp_all add: svc_step_holds)

lemma svc_fold_lm_inv:
  "(\<forall>m. svc_listeners svc = Some m \<longrightarrow> lm_inv m) \<Longrightarrow>
     svc_listeners (fold svc_step ops svc) = Some m \<Longrightarrow> lm_inv m"
proof (induction ops arbitrary: svc)
  case (Cons op ops)
  have "\<forall>m. svc_listeners (svc_step op svc) = Some m \<longrightarrow> lm_inv m"
    using Cons.prems(1) lm_run_inv by (cases op) auto
  with Cons show ?case by simp
qed simp

lemma closed_listeners_stay_closed:
  assumes "lm_inv m" shows "active (lm_run late (snd (Listeners.close closes m))) = []"
proof -
  let ?m = "snd (Listeners.close closes m)"
  have "Listeners.closeOnce ?m" "lm_inv ?m" "active ?m = []"
    using assms by (auto simp: Listeners.close_def lm_inv_def Let_def)
  then show ?thesis by (simp add: lm_run_closed)
qed

section \<open>Properties\<close>

text \<open>
  (C23) A controller comes up whole or not at all. When \<^verbatim>\<open>RegisterGRPCService\<close> returns a service, its
  optional parts are consistent: directory, sibling clients and peer listener are all there (in
  cross-pod mode, with an address to advertise) or all absent, the store is the Redis store exactly
  in cross-pod mode, the listeners, the binding tracker and the forwarder are there exactly when a
  valid port range was given, and everything that was opened, each once, is held by the service.
  When it fails, everything opened so far has been released, each once, in the order of
  \<^verbatim>\<open>Close\<close>. With only one of the Redis URL and the peer address set it fails before opening anything.
\<close>

theorem setup_consistent:
  assumes "RegisterGRPCService cfg env cenv = (res, acts)"
  shows "(\<forall>svc. res = Inr svc \<longrightarrow>
            service_ok cfg svc \<and> acts = map Opened (filter (holds svc) openOrder)) \<and>
         (\<forall>e. res = Inl e \<longrightarrow>
            (\<exists>rs. acts = map Opened rs @ map Released (filter (\<lambda>r. r \<in> set rs) closeOrder) \<and>
                  distinct rs)) \<and>
         ((c_redisURL cfg = []) \<noteq> (c_peerBindAddress cfg = []) \<longrightarrow> isl res \<and> acts = [])"
  using assms
proof (cases rule: RegisterGRPCService_cases)
  case (refused e)
  then show ?thesis by (auto intro: exI [of _ "[]"])
next
  case (peers_failed e b redis s a)
  then show ?thesis using setup_failed [of cfg env cenv e acts] assms crossPodMode_Inr by auto
next
  case (started b redis rng s svc a a')
  then show ?thesis
    using setup_started [of cfg env cenv svc acts] assms crossPodMode_Inr [OF started(2)] by auto
qed

definition demo_config :: config where
  "demo_config = RegisterFlags\<lparr>c_redisURL := ''redis://r:6379'', c_peerBindAddress := '':8444''\<rparr>"

definition demo_setup :: "string setupEnv" where
  "demo_setup =
     \<lparr>parsers = \<lparr>ParseFailoverURL = Some, ParseClusterURL = Some, ParseURL = Some\<rparr>,
      clientCert = (\<lambda>_ _. True), clientCA = (\<lambda>_. True), serverCert = (\<lambda>_ _. True),
      serverCA = (\<lambda>_. True), listenPeer = (\<lambda>_. False)\<rparr>"

definition demo_close :: closeEnv where
  "demo_close = \<lparr>ce_listeners = (\<lambda>_. CloseOk), ce_peers = (\<lambda>_. True), ce_redis = True, ce_store = True\<rparr>"

text \<open>A peer address that cannot be bound: the Redis client and the client pool are released again.\<close>

theorem setup_consistent_witness:
  "let cfg = demo_config\<lparr>c_peerAdvertiseAddress := ''a'', c_peerTLSCertPath := ''c'',
               c_peerTLSKeyPath := ''k'', c_peerTLSCAPath := ''ca''\<rparr>;
       r = RegisterGRPCService cfg demo_setup demo_close
   in fst r = Inl ErrBindPeer \<and> (\<exists>rs. snd r = map Opened rs @ map Released (filter (\<lambda>r. r \<in> set rs) closeOrder) \<and> distinct rs) \<and>
      snd r = [Opened RRedis, Opened RPeerClients, Released RPeerClients, Released RRedis]"
proof -
  let ?cfg = "demo_config\<lparr>c_peerAdvertiseAddress := ''a'', c_peerTLSCertPath := ''c'',
    c_peerTLSKeyPath := ''k'', c_peerTLSCAPath := ''ca''\<rparr>"
  let ?r = "RegisterGRPCService ?cfg demo_setup demo_close"
  have r: "?r = (Inl ErrBindPeer,
      [Opened RRedis, Opened RPeerClients, Released RPeerClients, Released RRedis])"
    by code_simp
  with setup_consistent [OF r] show ?thesis by simp
qed

text \<open>
  (C24) \<^verbatim>\<open>Close\<close> takes a running controller apart completely. Whatever siblings were dialled and whatever
  the reconciler did since setup, it releases everything setup opened, each once, in a fixed order:
  the forward context before the public listeners, the peer listener (which drains relays) before the
  client pool, the directory and the store, and the serving goroutine last. A failing close stops
  nothing: every error is in the result, and only those. Afterwards no peer connection is cached, no
  public port is bound, and a reconcile that was still running cannot bind one again.
\<close>

theorem close_releases_all:
  assumes "RegisterGRPCService cfg env cenv = (Inr svc, acts)"
    and "Close clo (fold svc_step ops svc) = (errs, rel, svc')"
  shows "rel = map Released (filter (\<lambda>r. Opened r \<in> set acts) closeOrder) \<and>
    distinct acts \<and> (\<forall>a\<in>set acts. \<exists>r. a = Opened r \<and> Released r \<in> set rel) \<and>
    errs = filter (\<lambda>r. Opened r \<in> set acts \<and> close_fails clo (fold svc_step ops svc) r) closeOrder \<and>
    (\<forall>p. svc_peers svc' = Some p \<longrightarrow> pcl_conns p = []) \<and>
    (\<forall>m late. svc_listeners svc' = Some m \<longrightarrow> active (lm_run late m) = [])"
proof -
  have acts: "acts = map Opened (filter (holds svc) openOrder)" and ok: "service_ok cfg svc"
    using setup_started [OF assms(1)] by simp_all
  have opened: "Opened r \<in> set acts \<longleftrightarrow> holds svc r" for r
    by (cases r) (auto simp: acts openOrder_def)
  have rel: "rel = map Released (filter (holds svc) closeOrder)"
    and errs: "errs = filter (\<lambda>r. holds svc r \<and> close_fails clo (fold svc_step ops svc) r) closeOrder"
    using assms(2) by (simp_all add: Close_eq svc_fold_holds)
  have inv: "lm_inv m" if "svc_listeners (fold svc_step ops svc) = Some m" for m
    using svc_fold_lm_inv [OF _ that] ok
    by (auto simp: service_ok_def Let_def newListenerManager_def lm_inv_def split: if_splits)
  have "\<forall>a\<in>set acts. \<exists>r. a = Opened r \<and> Released r \<in> set rel"
    by (auto simp: acts rel openOrder_def closeOrder_def)
  moreover have "distinct acts" by (simp add: acts openOrder_def distinct_map inj_on_def)
  moreover have "active (lm_run late m) = []" if "svc_listeners svc' = Some m" for m late
    using that assms(2) inv closed_listeners_stay_closed by (auto simp: Close_eq)
  moreover have "pcl_conns p = []" if "svc_peers svc' = Some p" for p
    using that assms(2) by (auto simp: Close_eq)
  ultimately show ?thesis by (simp add: rel errs opened)
qed

text \<open>Cross-pod mode with a forward range; a sibling was dialled, and its connection fails to close.\<close>

theorem close_releases_all_witness:
  "\<exists>svc acts errs rel svc'.
     RegisterGRPCService (demo_config\<lparr>c_peerAdvertiseAddress := ''a'', c_peerTLSCertPath := ''c'',
         c_peerTLSKeyPath := ''k'', c_peerTLSCAPath := ''ca'', c_forwardPortRange := ''1025-2025''\<rparr>)
       (demo_setup\<lparr>listenPeer := \<lambda>_. True\<rparr>) demo_close = (Inr svc, acts) \<and>
     Close (demo_close\<lparr>ce_peers := \<lambda>_. False\<rparr>) (fold svc_step [DialPeer (\<lambda>_. Some 7) ''b''] svc) =
       (errs, rel, svc') \<and>
     length acts = 7 \<and> errs = [RPeerClients] \<and> (\<forall>p. svc_peers svc' = Some p \<longrightarrow> pcl_conns p = [])"
proof -
  let ?cfg = "demo_config\<lparr>c_peerAdvertiseAddress := ''a'', c_peerTLSCertPath := ''c'',
    c_peerTLSKeyPath := ''k'', c_peerTLSCAPath := ''ca'', c_forwardPortRange := ''1025-2025''\<rparr>"
  let ?env = "demo_setup\<lparr>listenPeer := \<lambda>_. True\<rparr>"
  have f: "formatUint 1025 = ''1025''" "formatUint 2025 = ''2025''"
    by (simp_all add: formatUint.simps)
  have "parsePortRange ''1025-2025'' = Inr \<lparr>range_from = 1025, range_to = 2025\<rparr>"
    using parsePortRange_format [of 1025 2025]
    by (simp add: f validatePortRange_def maximumPublicPort_def)
  moreover have "newRedisClient (parsers ?env) (c_redisURL ?cfg) = Inr (SingleClient ''redis://r:6379'')"
    "crossPodMode ?cfg = Inr True"
    by code_simp+
  ultimately obtain svc acts p where r: "RegisterGRPCService ?cfg ?env demo_close = (Inr svc, acts)"
    and svc: "svc_peers svc = Some p" "pcl_conns p = []" "svc_listeners svc = Some newListenerManager"
    and acts: "acts = map Opened openOrder"
    by (simp add: RegisterGRPCService_def startPeerPlane_def startPeerServer_def Let_def demo_setup_def
        demo_config_def RegisterFlags_def peerClientCredentials_def peerServerCredentials_def
        startForwardPlane_def newPeerClients_def openOrder_def)
  let ?svc = "fold svc_step [DialPeer (\<lambda>_. Some 7) ''b''] svc"
  obtain errs rel svc' where c: "Close (demo_close\<lparr>ce_peers := \<lambda>_. False\<rparr>) ?svc = (errs, rel, svc')"
    by (metis prod_cases3)
  note all = close_releases_all [OF r c]
  have "errs = [RPeerClients]"
    using all svc acts
    by (simp add: openOrder_def closeOrder_def close_fails_def demo_close_def peerConn_def
        Listeners.close_def newListenerManager_def)
  moreover have "length acts = 7" by (simp add: acts openOrder_def)
  ultimately show ?thesis using r c all by blast
qed

text \<open>
  The peer plane is mutually authenticated, and this is all that a relaying controller checks of
  its sibling. Credentials exist only with all three files set, and the listener always requires a
  client certificate. A handshake with a sibling is accepted exactly when the sibling presents a
  certificate that chains to the CA file as it is at this handshake and, if a server name is
  configured, matches that name. Without one the host name is not compared with anything: a
  certificate of the same CA for any other host is accepted, although the flag's description says
  that the host of the dialed address is used.
\<close>

theorem peer_handshake:
  assumes "peerClientCredentials cfg env = Inr creds" "peerServerCredentials cfg env = Inr srv"
  shows "c_peerTLSCertPath cfg \<noteq> [] \<and> c_peerTLSKeyPath cfg \<noteq> [] \<and> c_peerTLSCAPath cfg \<noteq> [] \<and>
    pk_requireClientCert srv \<and>
    (VerifyConnection chain host creds pool certs = None \<longleftrightarrow>
       (\<exists>leaf rest. certs = leaf # rest \<and> chain pool rest leaf \<and>
          (c_peerTLSServerName cfg \<noteq> [] \<longrightarrow> host leaf (c_peerTLSServerName cfg)))) \<and>
    (c_peerTLSServerName cfg = [] \<and> chain pool rest' leaf' \<longrightarrow>
       VerifyConnection chain (\<lambda>_ _. False) creds pool (leaf' # rest') = None)"
  using assms
  by (cases certs) (auto simp: peerClientCredentials_def peerServerCredentials_def VerifyConnection_def
      x509_verify_def Let_def split: if_splits)

text \<open>Certificates as pairs of issuer and host; one for another host is accepted.\<close>

theorem peer_handshake_witness:
  "VerifyConnection (\<lambda>ca rest leaf. fst leaf = ca) (\<lambda>_ _. False)
     (projr (peerClientCredentials (RegisterFlags\<lparr>c_peerTLSCertPath := ''c'', c_peerTLSKeyPath := ''k'',
        c_peerTLSCAPath := ''ca''\<rparr>) demo_setup)) ''CA'' [(''CA'', ''elsewhere'')] = None"
proof -
  let ?cfg = "RegisterFlags\<lparr>c_peerTLSCertPath := ''c'', c_peerTLSKeyPath := ''k'', c_peerTLSCAPath := ''ca''\<rparr>"
  obtain creds srv where c: "peerClientCredentials ?cfg demo_setup = Inr creds"
    "peerServerCredentials ?cfg demo_setup = Inr srv"
    by (simp add: peerClientCredentials_def peerServerCredentials_def demo_setup_def Let_def)
  then show ?thesis
    using peer_handshake [OF c, of "\<lambda>ca rest leaf. fst leaf = ca" _ "''CA''" _ "[]" "(''CA'', ''elsewhere'')"]
    by (simp add: RegisterFlags_def)
qed

end
