(* ===== verification/Routes.thy ===== *)
theory Routes
  imports GoPath
begin

text \<open>
  The table of routes of \<^verbatim>\<open>service.RegisterRoute\<close> (\<^verbatim>\<open>pkg/controller/controller.go\<close>) and the match of a
  request against it. Of gin the model uses what its documentation says of patterns: a segment that
  starts with a colon matches one segment of the path and names it, any other matches itself. The
  order in which gin looks through its table is not used: the theorem is that it does not matter.
\<close>

section \<open>Patterns\<close>

datatype httpMethod = GET | POST | PUT | DELETE

datatype routeHandler =
    ListAgents | AgentMetrics | ListAllForwards | DeleteForward | CreateForward | ListAgentForwards
  | ListAgentImages | PullAgentImage | RemoveAgentImages | ListAgentContainers
  | CreateAgentContainer | InspectAgentContainer | LogsAgentContainer | StartAgentContainer
  | StopAgentContainer | RestartAgentContainer | RemoveAgentContainer
  | FsGet | FsPost | FsPut | FsDelete

definition groupPrefix :: string where
  "groupPrefix = ''/api/v1''"

definition RegisterRoute :: "(httpMethod \<times> string \<times> routeHandler) list" where
  "RegisterRoute =
     [(GET, ''/agents'', ListAgents),
      (GET, ''/metrics'', AgentMetrics),
      (GET, ''/forwards'', ListAllForwards),
      (DELETE, ''/forwards/:port'', DeleteForward),
      (POST, ''/agents/:agentId/forwards'', CreateForward),
      (GET, ''/agents/:agentId/forwards'', ListAgentForwards),
      (GET, ''/agents/:agentId/images'', ListAgentImages),
      (POST, ''/agents/:agentId/images'', PullAgentImage),
      (DELETE, ''/agents/:agentId/images'', RemoveAgentImages),
      (DELETE, ''/agents/:agentId/images/:imageId'', RemoveAgentImages),
      (GET, ''/agents/:agentId/containers'', ListAgentContainers),
      (POST, ''/agents/:agentId/containers'', CreateAgentContainer),
      (GET, ''/agents/:agentId/containers/:containerId'', InspectAgentContainer),
      (GET, ''/agents/:agentId/containers/:containerId/logs'', LogsAgentContainer),
      (POST, ''/agents/:agentId/containers/:containerId/start'', StartAgentContainer),
      (POST, ''/agents/:agentId/containers/:containerId/stop'', StopAgentContainer),
      (POST, ''/agents/:agentId/containers/:containerId/restart'', RestartAgentContainer),
      (DELETE, ''/agents/:agentId/containers/:containerId'', RemoveAgentContainer),
      (GET, ''/agents/:agentId/files'', FsGet),
      (POST, ''/agents/:agentId/files'', FsPost),
      (PUT, ''/agents/:agentId/files'', FsPut),
      (DELETE, ''/agents/:agentId/files'', FsDelete)]"

definition isParam :: "string \<Rightarrow> bool" where
  "isParam seg \<longleftrightarrow> hasPrefix seg '':''"

definition segments :: "string \<Rightarrow> string list" where
  "segments path = splitOn slash path"

fun matchSegs :: "string list \<Rightarrow> string list \<Rightarrow> (string \<times> string) list option" where
  "matchSegs [] [] = Some []"
| "matchSegs (pat # pats) (seg # segs) =
     (if isParam pat then map_option ((#) (tl pat, seg)) (matchSegs pats segs)
      else if pat = seg then matchSegs pats segs else None)"
| "matchSegs _ _ = None"

text \<open>The handlers that a request could be given to, with the parameters each would see.\<close>

definition candidates :: "httpMethod \<Rightarrow> string \<Rightarrow> (routeHandler \<times> (string \<times> string) list) list" where
  "candidates meth path =
     List.map_filter (\<lambda>(m, pat, h).
         if m = meth then map_option (Pair h) (matchSegs (segments (groupPrefix @ pat)) (segments path))
         else None) RegisterRoute"

text \<open>The path of a route with its parameters filled in.\<close>

fun fillSegs :: "string list \<Rightarrow> string list \<Rightarrow> string list" where
  "fillSegs [] vals = []"
| "fillSegs (pat # pats) vals =
     (if isParam pat then hd vals # fillSegs pats (tl vals) else pat # fillSegs pats vals)"

definition routePath :: "string \<Rightarrow> string list \<Rightarrow> string" where
  "routePath pat vals = joinSlash (fillSegs (segments (groupPrefix @ pat)) vals)"

definition paramNames :: "string \<Rightarrow> string list" where
  "paramNames pat = map tl (filter isParam (segments (groupPrefix @ pat)))"

section \<open>Lemmas\<close>

lemma matchSegs_fill:
  "length vals = length (filter isParam pats) \<Longrightarrow>
     matchSegs pats (fillSegs pats vals) = Some (zip (map tl (filter isParam pats)) vals)"
proof (induction pats arbitrary: vals)
  case (Cons pat pats)
  show ?case
  proof (cases "isParam pat")
    case True
    with Cons.prems obtain v vs where "vals = v # vs" by (cases vals) auto
    with True Cons show ?thesis by simp
  qed (use Cons in simp)
qed simp

text \<open>Two patterns that no path matches both: of different lengths, or apart in a literal segment.\<close>

fun apart :: "string list \<Rightarrow> string list \<Rightarrow> bool" where
  "apart [] [] = False"
| "apart (p # ps) (q # qs) = (\<not> isParam p \<and> \<not> isParam q \<and> p \<noteq> q \<or> apart ps qs)"
| "apart _ _ = True"

lemma apart_match: "apart ps qs \<Longrightarrow> matchSegs ps segs \<noteq> None \<Longrightarrow> matchSegs qs segs = None"
proof (induction ps arbitrary: qs segs)
  case Nil
  then show ?case by (cases qs; cases segs) auto
next
  case (Cons p ps)
  then show ?case by (cases qs; cases segs) (auto split: if_splits)
qed

fun pairwise_apart :: "(httpMethod \<times> string list) list \<Rightarrow> bool" where
  "pairwise_apart [] = True"
| "pairwise_apart ((m, p) # rest) =
     (list_all (\<lambda>(m', q). m' = m \<longrightarrow> apart p q \<and> apart q p) rest \<and> pairwise_apart rest)"

lemma routes_apart:
  "pairwise_apart (map (\<lambda>(m, pat, h). (m, segments (groupPrefix @ pat))) RegisterRoute)"
  by code_simp

lemma map_filter_single:
  assumes "pairwise_apart (map (\<lambda>(m, pat, h). (m, segments (groupPrefix @ pat))) rs)"
    and "(meth, pat, h) \<in> set rs" "matchSegs (segments (groupPrefix @ pat)) segs = Some ps"
  shows "List.map_filter (\<lambda>(m, pat, h).
      if m = meth then map_option (Pair h) (matchSegs (segments (groupPrefix @ pat)) segs) else None) rs =
    [(h, ps)]"
  using assms
proof (induction rs)
  case (Cons r rs)
  obtain m pat' h' where r: "r = (m, pat', h')" by (cases r)
  let ?f = "\<lambda>(m, pat, h).
    if m = meth then map_option (Pair h) (matchSegs (segments (groupPrefix @ pat)) segs) else None"
  have ap: "apart (segments (groupPrefix @ pat')) (segments (groupPrefix @ q)) \<and>
      apart (segments (groupPrefix @ q)) (segments (groupPrefix @ pat'))"
    if "(m, q, g) \<in> set rs" for q g
    using Cons.prems(1) that by (force simp: r list_all_iff)
  show ?case
  proof (cases "(meth, pat, h) = r")
    case True
    have "?f (m', q, g) = None" if "(m', q, g) \<in> set rs" for m' q g
      using True r ap [of q g] that Cons.prems(3)
        apart_match [of "segments (groupPrefix @ pat')" "segments (groupPrefix @ q)" segs] by auto
    then have "List.map_filter ?f rs = []"
      by (auto simp: List.map_filter_def filter_empty_conv split_paired_all)
    with True Cons.prems(3) show ?thesis by (auto simp: List.map_filter_simps)
  next
    case False
    then have in_rs: "(meth, pat, h) \<in> set rs" using Cons.prems(2) by simp
    then have "?f r = None"
      using r ap [of pat h] Cons.prems(3)
        apart_match [of "segments (groupPrefix @ pat)" "segments (groupPrefix @ pat')" segs] by auto
    with Cons.IH [OF _ in_rs Cons.prems(3)] Cons.prems(1) r show ?thesis
      by (auto simp: List.map_filter_simps)
  qed
qed simp

section \<open>Property\<close>

lemma fillSegs_plain:
  "\<forall>p\<in>set pats. slash \<notin> set p \<Longrightarrow> \<forall>v\<in>set vals. slash \<notin> set v \<Longrightarrow>
     length vals = length (filter isParam pats) \<Longrightarrow> \<forall>s\<in>set (fillSegs pats vals). slash \<notin> set s"
proof (induction pats arbitrary: vals)
  case (Cons pat pats)
  show ?case
  proof (cases "isParam pat")
    case True
    with Cons.prems obtain v vs where "vals = v # vs" by (cases vals) auto
    with True Cons show ?thesis by auto
  next
    case False
    with Cons.IH [of vals] Cons.prems show ?thesis by simp
  qed
qed simp

lemma fillSegs_Nil [simp]: "fillSegs pats vals = [] \<longleftrightarrow> pats = []"
  by (cases pats) auto

lemma route_candidates:
  assumes "(meth, pat, h) \<in> set RegisterRoute"
    and "length vals = length (paramNames pat)" "\<forall>v\<in>set vals. slash \<notin> set v"
  shows "candidates meth (routePath pat vals) = [(h, zip (paramNames pat) vals)]"
proof -
  let ?pats = "segments (groupPrefix @ pat)"
  have n: "length vals = length (filter isParam ?pats)" using assms(2) by (simp add: paramNames_def)
  have "\<forall>p\<in>set ?pats. slash \<notin> set p" by (auto simp: segments_def dest: splitOn_parts)
  then have "\<forall>s\<in>set (fillSegs ?pats vals). slash \<notin> set s" using assms(3) n by (rule fillSegs_plain)
  then have path: "segments (routePath pat vals) = fillSegs ?pats vals"
    by (simp add: routePath_def segments_def splitOn_joinSlash)
  show ?thesis
    unfolding candidates_def paramNames_def path
    by (rule map_filter_single [OF routes_apart assms(1) matchSegs_fill [OF n]])
qed



section \<open>The router\<close>

text \<open>
  The contract of a router that has this table, as gin documents it: a request that one pattern
  matches is given to that pattern's handler with the segments its parameters name. With it every
  route works, whichever way the router searches; a router that takes the first match is one instance.
\<close>

locale router =
  fixes route :: "httpMethod \<Rightarrow> string \<Rightarrow> (routeHandler \<times> (string \<times> string) list) option"
  assumes only_match: "candidates meth path = [c] \<Longrightarrow> route meth path = Some c"
    and no_match: "candidates meth path = [] \<Longrightarrow> route meth path = None"
begin

lemma route_reaches:
  assumes "(meth, pat, h) \<in> set RegisterRoute" "length vals = length (paramNames pat)"
    and "\<forall>v\<in>set vals. slash \<notin> set v"
  shows "route meth (routePath pat vals) = Some (h, zip (paramNames pat) vals)"
  by (rule only_match, rule route_candidates) (use assms in auto)

end

definition firstMatch :: "httpMethod \<Rightarrow> string \<Rightarrow> (routeHandler \<times> (string \<times> string) list) option" where
  "firstMatch meth path = (case candidates meth path of [] \<Rightarrow> None | c # _ \<Rightarrow> Some c)"

interpretation first: router firstMatch
  by unfold_locales (simp_all add: firstMatch_def)

end
