(* ===== verification/Processes.thy ===== *)
theory Processes
  imports ControllerSetup AgentSession
begin

text \<open>
  The two programs: construction and \<^verbatim>\<open>Close\<close> of the agent (\<^verbatim>\<open>New\<close>, \<^verbatim>\<open>clientTransportCredentials\<close> of
  \<^verbatim>\<open>pkg/agent/agent.go\<close>) and the commands \<^verbatim>\<open>cmd/agent/main.go\<close> and \<^verbatim>\<open>cmd/controller/main.go\<close>. Flag parsing,
  the HTTP server and the base context are the chassis's; what they return is an argument, and the
  order in which the goroutines of the agent's command end is a list of events.
\<close>

section \<open>Construction of the agent\<close>

record agentConfig =
  ac_endpoint :: string
  ac_certPath :: string
  ac_keyPath :: string
  ac_caPath :: string
  ac_serverName :: string
  ac_dataDir :: string
  ac_scrapeTargets :: "scrapeTargetConfig list"

definition agentFlags :: agentConfig where
  "agentFlags =
     \<lparr>ac_endpoint = [], ac_certPath = [], ac_keyPath = [], ac_caPath = [], ac_serverName = [],
      ac_dataDir = [], ac_scrapeTargets = []\<rparr>"

text \<open>
  The answers of the operating system and the libraries: the working directory, \<^verbatim>\<open>os.Stat\<close>, URL parsing,
  loading a key pair, reading a file, whether a PEM bundle holds a certificate, and whether the Docker
  and the gRPC client (for an endpoint and an authority) can be made.
\<close>

record newEnv =
  ne_cwd :: "string option"
  ne_stat :: "string \<Rightarrow> fsErr + fileInfo"
  ne_parse :: "string \<Rightarrow> parsedURL option"
  ne_urlString :: "parsedURL \<Rightarrow> string"
  ne_keyPair :: "string \<Rightarrow> string \<Rightarrow> bool"
  ne_readFile :: "string \<Rightarrow> bytes option"
  ne_pemCerts :: "bytes \<Rightarrow> bool"
  ne_docker :: bool
  ne_grpc :: "string \<Rightarrow> string option \<Rightarrow> bool"

datatype newErr =
    ErrNoEndpoint | ErrDataDir fsErr | ErrScrapeTargets scrapeConfigErr | ErrAgentTLSFlags | ErrKeyPair
  | ErrReadCA | ErrNoCACertificates | ErrDockerClient | ErrGRPCClient

record clientCreds =
  cc_cert :: "string \<times> string"
  cc_rootPEM :: bytes
  cc_serverName :: string

definition clientTransportCredentials :: "agentConfig \<Rightarrow> newEnv \<Rightarrow> newErr + clientCreds" where
  "clientTransportCredentials cfg env =
     (let certPath = ac_certPath cfg; keyPath = ac_keyPath cfg; caPath = ac_caPath cfg in
      if certPath = [] \<or> keyPath = [] \<or> caPath = [] then Inl ErrAgentTLSFlags
      else if \<not> ne_keyPair env certPath keyPath then Inl ErrKeyPair
      else (case ne_readFile env caPath of
        None \<Rightarrow> Inl ErrReadCA
      | Some caPEM \<Rightarrow>
          if \<not> ne_pemCerts env caPEM then Inl ErrNoCACertificates
          else Inr \<lparr>cc_cert = (certPath, keyPath), cc_rootPEM = caPEM, cc_serverName = ac_serverName cfg\<rparr>))"

text \<open>Nanoseconds.\<close>

definition agentKeepaliveTime :: int where
  "agentKeepaliveTime = 30 * 10 ^ 9"

definition agentKeepaliveTimeout :: int where
  "agentKeepaliveTimeout = 20 * 10 ^ 9"

record dialOptions =
  do_creds :: clientCreds
  do_keepaliveTime :: int
  do_keepaliveTimeout :: int
  do_permitWithoutStream :: bool
  do_authority :: "string option"

record agentProc =
  ap_nodeName :: string
  ap_dataDir :: string
  ap_scrapeTargets :: "scrapeTarget list"
  ap_dial :: dialOptions

datatype agentResource = ADocker | AConn

datatype agentAct = AOpened agentResource | AReleased agentResource

definition New :: "agentConfig \<Rightarrow> newEnv \<Rightarrow> string \<Rightarrow> (newErr + agentProc) \<times> agentAct list" where
  "New cfg env nodeName =
     (if ac_endpoint cfg = [] then (Inl ErrNoEndpoint, [])
      else case resolveDataDir (ne_cwd env) (ne_stat env) (ac_dataDir cfg) of
        Inl e \<Rightarrow> (Inl (ErrDataDir e), [])
      | Inr dataDir \<Rightarrow>
          (case resolveScrapeTargets (ne_parse env) (ne_urlString env) (ac_scrapeTargets cfg) of
             Inl e \<Rightarrow> (Inl (ErrScrapeTargets e), [])
           | Inr scrapeTargets \<Rightarrow>
               (case clientTransportCredentials cfg env of
                  Inl e \<Rightarrow> (Inl e, [])
                | Inr creds \<Rightarrow>
                    if \<not> ne_docker env then (Inl ErrDockerClient, [])
                    else
                      (let dial = \<lparr>do_creds = creds, do_keepaliveTime = agentKeepaliveTime,
                             do_keepaliveTimeout = agentKeepaliveTimeout, do_permitWithoutStream = True,
                             do_authority = (if ac_serverName cfg \<noteq> [] then Some (ac_serverName cfg) else None)\<rparr>
                       in if \<not> ne_grpc env (ac_endpoint cfg) (do_authority dial)
                          then (Inl ErrGRPCClient, [AOpened ADocker, AReleased ADocker])
                          else (Inr \<lparr>ap_nodeName = nodeName, ap_dataDir = dataDir,
                                     ap_scrapeTargets = scrapeTargets, ap_dial = dial\<rparr>,
                                [AOpened ADocker, AOpened AConn])))))"

text \<open>\<^verbatim>\<open>agent.Close\<close>: the parts whose close failed, and what was released.\<close>

definition agent_Close :: "(agentResource \<Rightarrow> bool) \<Rightarrow> agentResource list \<times> agentAct list" where
  "agent_Close ok =
     ((if ok ADocker then [] else [ADocker]) @ (if ok AConn then [] else [AConn]),
      [AReleased ADocker, AReleased AConn])"

section \<open>The agent's command\<close>

text \<open>
  The two goroutines of \<^verbatim>\<open>RunE\<close>: \<open>HttpReturns\<close> and \<open>AgentReturns\<close> are the returns of the two \<^verbatim>\<open>Start\<close>
  calls with their errors, each followed by its deferred \<^verbatim>\<open>cancel\<close>; \<open>BaseDone\<close> is the end of the base
  context. \<open>agentWait\<close> is \<^verbatim>\<open>wg.Wait\<close>, \<open>None\<close> while it waits.
\<close>

datatype procEvent = HttpReturns "string option" | AgentReturns "string option" | BaseDone

record procState =
  httpEnd :: "string option option"
  agentEnd :: "string option option"
  sharedDone :: bool

fun procStep :: "procEvent \<Rightarrow> procState \<Rightarrow> procState" where
  "procStep (HttpReturns e) st =
     (if httpEnd st = None then st\<lparr>httpEnd := Some e, sharedDone := True\<rparr> else st)"
| "procStep (AgentReturns e) st =
     (if agentEnd st = None then st\<lparr>agentEnd := Some e, sharedDone := True\<rparr> else st)"
| "procStep BaseDone st = st\<lparr>sharedDone := True\<rparr>"

fun agentWait :: "procEvent list \<Rightarrow> procState \<Rightarrow> procState option" where
  "agentWait evs st =
     (if httpEnd st \<noteq> None \<and> agentEnd st \<noteq> None then Some st
      else case evs of [] \<Rightarrow> None | e # es \<Rightarrow> agentWait es (procStep e st))"

declare agentWait.simps [simp del]

text \<open>\<^verbatim>\<open>errors.Join\<close>, nil when every argument is.\<close>

definition joinErrors :: "string option list \<Rightarrow> string list option" where
  "joinErrors es =
     (let found = List.map_filter id es in if found = [] then None else Some found)"

datatype runErr = RunBase | RunNew newErr | RunJoined "string list"

definition procStart :: procState where
  "procStart = \<lparr>httpEnd = None, agentEnd = None, sharedDone = False\<rparr>"

definition agent_RunE :: "bool \<Rightarrow> agentConfig \<Rightarrow> newEnv \<Rightarrow> string \<Rightarrow> procEvent list \<Rightarrow> (agentResource \<Rightarrow> bool) \<Rightarrow>
    (runErr option \<times> agentAct list) option" where
  "agent_RunE baseOk cfg env nodeName evs closeOk =
     (if \<not> baseOk then Some (Some RunBase, [])
      else case New cfg env nodeName of
        (Inl e, acts) \<Rightarrow> Some (Some (RunNew e), acts)
      | (Inr ag, acts) \<Rightarrow>
          (case agentWait evs procStart of
             None \<Rightarrow> None
           | Some st \<Rightarrow>
               Some (map_option RunJoined (joinErrors [the (agentEnd st), the (httpEnd st)]),
                     acts @ snd (agent_Close closeOk))))"

section \<open>The controller's command\<close>

text \<open>The keepalive policy and the message limit of the gRPC server.\<close>

record serverOptions =
  so_minTime :: int
  so_permitWithoutStream :: bool
  so_maxRecv :: int

definition controllerServer :: "config \<Rightarrow> serverOptions" where
  "controllerServer cfg =
     \<lparr>so_minTime = 10 * 10 ^ 9, so_permitWithoutStream = True, so_maxRecv = GRPCMaxRecvMsgSize cfg\<rparr>"

datatype ctlRunErr = CtlInit | CtlBase | CtlSetup setupErr | CtlHTTP

text \<open>
  \<open>httpOk\<close> is whether the HTTP server returned without error, \<open>ctxDone\<close> whether the base context has
  ended after that; \<open>ops\<close> is what happened to the service in between. \<open>None\<close> while it waits.
\<close>

definition controller_RunE :: "bool \<Rightarrow> bool \<Rightarrow> config \<Rightarrow> 'o setupEnv \<Rightarrow> closeEnv \<Rightarrow> svcOp list \<Rightarrow> bool \<Rightarrow> bool \<Rightarrow>
    closeEnv \<Rightarrow> (ctlRunErr option \<times> setupAct list) option" where
  "controller_RunE initOk baseOk cfg env cenv ops httpOk ctxDone clo =
     (if \<not> initOk then Some (Some CtlInit, [])
      else if \<not> baseOk then Some (Some CtlBase, [])
      else case RegisterGRPCService cfg env cenv of
        (Inl e, acts) \<Rightarrow> Some (Some (CtlSetup e), acts)
      | (Inr svc, acts) \<Rightarrow>
          (let released = fst (snd (Close clo (fold svc_step ops svc))) in
           if \<not> httpOk then Some (Some CtlHTTP, acts @ released)
           else if ctxDone then Some (None, acts @ released) else None))"

section \<open>Lemmas\<close>

lemma New_acts:
  "New cfg env nodeName = (res, acts) \<Longrightarrow>
     acts = (case res of Inr _ \<Rightarrow> [AOpened ADocker, AOpened AConn]
                       | Inl e \<Rightarrow> if e = ErrGRPCClient then [AOpened ADocker, AReleased ADocker] else [])"
  by (auto simp: New_def clientTransportCredentials_def Let_def split: if_splits sum.splits option.splits)

lemma procStep_done: "sharedDone (procStep e st) \<longleftrightarrow> sharedDone st \<or> (case e of
    HttpReturns _ \<Rightarrow> httpEnd st = None | AgentReturns _ \<Rightarrow> agentEnd st = None | BaseDone \<Rightarrow> True)"
  by (cases e) auto

lemma agentWait_ends:
  assumes "httpEnd st \<noteq> None \<or> (\<exists>e. HttpReturns e \<in> set evs)"
    and "agentEnd st \<noteq> None \<or> (\<exists>e. AgentReturns e \<in> set evs)"
  shows "\<exists>st'. agentWait evs st = Some st' \<and> httpEnd st' \<noteq> None \<and> agentEnd st' \<noteq> None"
  using assms
proof (induction evs arbitrary: st)
  case Nil
  then show ?case by (auto simp: agentWait.simps [of "[]"])
next
  case (Cons e evs)
  show ?case
  proof (cases "httpEnd st \<noteq> None \<and> agentEnd st \<noteq> None")
    case True
    then show ?thesis by (simp add: agentWait.simps [of "e # evs"])
  next
    case False
    have "httpEnd (procStep e st) \<noteq> None \<or> (\<exists>e. HttpReturns e \<in> set evs)"
      "agentEnd (procStep e st) \<noteq> None \<or> (\<exists>e. AgentReturns e \<in> set evs)"
      using Cons.prems by (cases e; auto)+
    from Cons.IH [OF this] False show ?thesis by (simp add: agentWait.simps [of "e # evs"])
  qed
qed

text \<open>Where the results come from: the first return of each goroutine.\<close>

lemma agentWait_results:
  assumes "agentWait evs st = Some st'"
  shows "(httpEnd st' = httpEnd st \<and> httpEnd st \<noteq> None \<or> (\<exists>e. HttpReturns e \<in> set evs \<and> httpEnd st' = Some e)) \<and>
    (agentEnd st' = agentEnd st \<and> agentEnd st \<noteq> None \<or> (\<exists>e. AgentReturns e \<in> set evs \<and> agentEnd st' = Some e))"
  using assms
proof (induction evs arbitrary: st)
  case Nil
  then show ?case by (auto simp: agentWait.simps [of "[]"] split: if_splits)
next
  case (Cons e evs)
  show ?case
  proof (cases "httpEnd st \<noteq> None \<and> agentEnd st \<noteq> None")
    case True
    with Cons.prems show ?thesis by (simp add: agentWait.simps [of "e # evs"])
  next
    case False
    with Cons.prems have "agentWait evs (procStep e st) = Some st'"
      by (auto simp: agentWait.simps [of "e # evs"] split: if_splits)
    from Cons.IH [OF this] show ?thesis by (cases e) (auto split: if_splits)
  qed
qed

text \<open>Once the shared context is cancelled it stays so, and any event cancels it.\<close>

lemma sharedDone_fold: "sharedDone st \<Longrightarrow> sharedDone (fold procStep evs st)"
  by (induction evs arbitrary: st) (simp_all add: procStep_done)

lemma first_event_cancels: "evs \<noteq> [] \<Longrightarrow> sharedDone (fold procStep evs procStart)"
  by (cases evs) (auto simp: procStep_done procStart_def intro!: sharedDone_fold split: procEvent.split)

definition obeys_context :: "procEvent list \<Rightarrow> bool" where
  "obeys_context evs \<longleftrightarrow>
     (sharedDone (fold procStep evs procStart) \<longrightarrow>
        (\<exists>e. HttpReturns e \<in> set evs) \<and> (\<exists>e. AgentReturns e \<in> set evs))"

definition balanced :: "agentAct list \<Rightarrow> bool" where
  "balanced acts \<longleftrightarrow>
     (\<forall>r. count_list acts (AOpened r) = count_list acts (AReleased r) \<and> count_list acts (AOpened r) \<le> 1)"

lemma all_agentResource: "(\<forall>r. P r) \<longleftrightarrow> P ADocker \<and> P AConn"
  by (metis agentResource.exhaust)

lemma balanced_all:
  "balanced [AOpened ADocker, AOpened AConn, AReleased ADocker, AReleased AConn]"
  "balanced [AOpened ADocker, AReleased ADocker]" "balanced []"
  by (simp_all add: balanced_def all_agentResource)

section \<open>Properties\<close>

text \<open>
  (C40) The agent's process ends as a whole. Suppose both \<^verbatim>\<open>Start\<close> calls return once their context is
  cancelled (\<open>obeys_context\<close>). Then as soon as one of them returns, with or without an error, or the
  base context ends, \<^verbatim>\<open>RunE\<close> returns: its error joins the errors of both, the agent's first, and is nil
  exactly when both are nil. If construction failed, its error is returned instead. Either way the
  Docker client and the connection are released as often as they were opened, at most once.
\<close>

theorem agent_process_ends:
  assumes "obeys_context evs" "evs \<noteq> []"
  shows "\<exists>err acts. agent_RunE True cfg env nodeName evs closeOk = Some (err, acts) \<and> balanced acts \<and>
    (\<forall>e. fst (New cfg env nodeName) = Inl e \<longrightarrow> err = Some (RunNew e)) \<and>
    (\<forall>ag. fst (New cfg env nodeName) = Inr ag \<longrightarrow>
       (\<exists>ea eh. AgentReturns ea \<in> set evs \<and> HttpReturns eh \<in> set evs \<and>
          err = map_option RunJoined (joinErrors [ea, eh]) \<and> (err = None \<longleftrightarrow> ea = None \<and> eh = None)))"
proof -
  have ret: "\<exists>e. HttpReturns e \<in> set evs" "\<exists>e. AgentReturns e \<in> set evs"
    using assms first_event_cancels by (auto simp: obeys_context_def)
  then obtain st where st: "agentWait evs procStart = Some st"
    using agentWait_ends [of procStart evs] by (auto simp: procStart_def)
  obtain ea eh where e: "AgentReturns ea \<in> set evs" "agentEnd st = Some ea"
    "HttpReturns eh \<in> set evs" "httpEnd st = Some eh"
    using agentWait_results [OF st] by (auto simp: procStart_def)
  have join: "joinErrors [ea, eh] = None \<longleftrightarrow> ea = None \<and> eh = None"
    by (cases ea; cases eh) (simp_all add: joinErrors_def List.map_filter_simps)
  obtain res acts where n: "New cfg env nodeName = (res, acts)" by (cases "New cfg env nodeName")
  show ?thesis
  proof (cases res)
    case (Inl err)
    with n New_acts [OF n] show ?thesis
      by (auto simp: agent_RunE_def balanced_all)
  next
    case (Inr ag)
    with n New_acts [OF n] st e join show ?thesis
      by (auto simp: agent_RunE_def agent_Close_def balanced_all)
  qed
qed

definition demo_new :: newEnv where
  "demo_new =
     \<lparr>ne_cwd = None, ne_stat = (\<lambda>_. Inl ErrPathEscapes), ne_parse = (\<lambda>_. None), ne_urlString = (\<lambda>_. []),
      ne_keyPair = (\<lambda>_ _. True), ne_readFile = (\<lambda>_. Some ''pem''), ne_pemCerts = (\<lambda>_. True),
      ne_docker = True, ne_grpc = (\<lambda>_ _. True)\<rparr>"

definition demo_agent :: agentConfig where
  "demo_agent = agentFlags\<lparr>ac_endpoint := ''c:443'', ac_certPath := ''c'', ac_keyPath := ''k'', ac_caPath := ''ca''\<rparr>"

theorem agent_process_ends_witness:
  "\<exists>acts. agent_RunE True demo_agent demo_new ''n'' [HttpReturns (Some ''bind''), AgentReturns None] (\<lambda>_. True) =
     Some (Some (RunJoined [''bind'']), acts) \<and> balanced acts"
proof -
  let ?evs = "[HttpReturns (Some ''bind''), AgentReturns None]"
  have o: "obeys_context ?evs" by (simp add: obeys_context_def)
  have "fst (New demo_agent demo_new ''n'') =
      Inr \<lparr>ap_nodeName = ''n'', ap_dataDir = [], ap_scrapeTargets = [],
           ap_dial = ap_dial (projr (fst (New demo_agent demo_new ''n'')))\<rparr>"
    by (simp add: New_def demo_agent_def demo_new_def agentFlags_def resolveDataDir_def
        clientTransportCredentials_def Let_def)
  with agent_process_ends [OF o, of demo_agent demo_new "''n''" "\<lambda>_. True"] show ?thesis
    by (auto simp: joinErrors_def List.map_filter_simps)
qed

text \<open>
  The controller's process releases what it opened on every path it can return on: a failed setup, an
  HTTP server that fails, and the end of the base context.
\<close>

theorem controller_process_balanced:
  assumes "controller_RunE initOk baseOk cfg env cenv ops httpOk ctxDone clo = Some (err, acts)"
  shows "\<exists>rs. acts = map Opened rs @ map Released (filter (\<lambda>r. r \<in> set rs) closeOrder) \<and> distinct rs"
proof (cases "initOk \<and> baseOk")
  case False
  with assms show ?thesis by (auto simp: controller_RunE_def split: if_splits intro: exI [of _ "[]"])
next
  case True
  obtain res a where r: "RegisterGRPCService cfg env cenv = (res, a)"
    by (cases "RegisterGRPCService cfg env cenv")
  show ?thesis
  proof (cases res)
    case (Inl e)
    with True assms r have "acts = a" by (simp add: controller_RunE_def)
    then show ?thesis using setup_failed [OF r [unfolded Inl]] by simp
  next
    case (Inr svc)
    let ?rs = "filter (holds svc) openOrder"
    have acts: "acts = a @ map Released (filter (holds svc) closeOrder)"
      using True assms r Inr
      by (auto simp: controller_RunE_def Let_def Close_eq svc_fold_holds split: if_splits)
    have same: "filter (holds svc) closeOrder = filter (\<lambda>r. r \<in> set ?rs) closeOrder"
      by (rule filter_cong) (auto simp: openOrder_def closeOrder_def)
    have "a = map Opened ?rs" using setup_started [OF r [unfolded Inr]] by simp
    moreover have "distinct ?rs" by (simp add: openOrder_def)
    ultimately show ?thesis unfolding acts same by blast
  qed
qed

text \<open>The controller's keepalive policy accepts the pings of an agent, with and without a stream.\<close>

lemma keepalive_accepted:
  assumes "New acfg env nodeName = (Inr ag, acts)"
  shows "so_minTime (controllerServer cfg) \<le> do_keepaliveTime (ap_dial ag) \<and>
    do_permitWithoutStream (ap_dial ag) = so_permitWithoutStream (controllerServer cfg) \<and>
    0 < so_maxRecv (controllerServer cfg)"
  using assms
  by (auto simp: New_def controllerServer_def agentKeepaliveTime_def GRPCMaxRecvMsgSize_def
      defaultGRPCMaxRecvMsgSize_def Let_def split: if_splits sum.splits)

end
