(* ===== verification/Reconciler.thy ===== *)
theory Reconciler
  imports Composition
begin

text \<open>
  The loop \<^verbatim>\<open>runPortReconciler\<close> of \<^verbatim>\<open>pkg/controller/forward_handler.go\<close>, as it runs in single-replica
  mode beside the handlers that use the in-memory store. A call on the store changes the table
  under the store's mutex and notifies the watchers after it has released it, so the loop may list the ports in
  between; the loop itself subscribes, lists, reconciles and waits in separate steps. What is shown
  is that no change is lost: when nothing is left to do, the bound ports are those of the table.
\<close>

section \<open>Calls in two halves\<close>

text \<open>Whether a call of the in-memory store notifies, and what it does under the mutex.\<close>

fun call_notifies :: "portCall \<Rightarrow> memPortStore \<Rightarrow> bool" where
  "call_notifies (CallAllocate from to m) s = (case fst (mem_allocate from to m s) of Inl _ \<Rightarrow> False | Inr _ \<Rightarrow> True)"
| "call_notifies (CallRelease p) s = (mget (mappings s) p \<noteq> None)"
| "call_notifies (CallReleaseByAgent a) s = (filter (\<lambda>(_, mapping). AgentID mapping = a) (mappings s) \<noteq> [])"
| "call_notifies _ s = False"

definition mem_locked :: "portCall \<Rightarrow> memPortStore \<Rightarrow> memPortStore" where
  "mem_locked c s = s\<lparr>mappings := mappings (store_call memPortStoreOps c s)\<rparr>"

lemma store_call_halves:
  "store_call memPortStoreOps c s = (if call_notifies c s then mem_notify (mem_locked c s) else mem_locked c s)"
  by (cases c) (auto simp: mem_locked_def mem_ops_defs split: option.splits)

section \<open>The loop\<close>

datatype reconcilerPc = RcStart | RcList | RcReconcile "uint32 list" | RcReport | RcSelect | RcStopped

text \<open>
  The shared state, with the number of calls that have changed the table and not notified yet, and
  the loop's position. \<open>rc_changes\<close> is the loop's subscription: none before it subscribes and after
  \<^verbatim>\<open>watch\<close> on a closed store, whose channel nobody sends to. \<open>rc_counted\<close> is what was added to the
  failure counter.
\<close>

record reconciler =
  rc_store :: memPortStore
  rc_notifies :: nat
  rc_listeners :: listenerManager
  rc_pc :: reconcilerPc
  rc_changes :: "(64 word) option"
  rc_counted :: "forwardLabels list"

definition rc_init :: reconciler where
  "rc_init = \<lparr>rc_store = newMemPortStore, rc_notifies = 0, rc_listeners = newListenerManager,
     rc_pc = RcStart, rc_changes = None, rc_counted = []\<rparr>"

text \<open>
  \<open>RcLoop\<close> is the next step of the loop, with what the system answers to closing and binding
  listeners; at the \<^verbatim>\<open>select\<close> it is the case of the subscription. The binding tracker has no Redis client here, so its
  report does nothing.
\<close>

datatype rcLabel =
    RcCall portCall
  | RcNotify
  | RcLoop "nat \<Rightarrow> closeRes" "uint32 \<Rightarrow> nat option"
  | RcTick
  | RcCtxDone
  | RcStoreClose
  | RcListenersClose "nat \<Rightarrow> closeRes"

definition rc_loop :: "(nat \<Rightarrow> closeRes) \<Rightarrow> (uint32 \<Rightarrow> nat option) \<Rightarrow> reconciler \<Rightarrow> reconciler option" where
  "rc_loop closes listen st =
     (case rc_pc st of
        RcStart \<Rightarrow>
          (let (changes, s) = mem_watch (rc_store st)
           in Some (st\<lparr>rc_store := s, rc_changes := changes, rc_pc := RcList\<rparr>))
      | RcList \<Rightarrow>
          (case mem_desired (rc_store st) of
             (Inl _, s) \<Rightarrow>
               Some (st\<lparr>rc_store := s, rc_pc := RcReport,
                        rc_counted := rc_counted st @ [recordForwardFailure FailListDesired 0 [] []]\<rparr>)
           | (Inr desired, s) \<Rightarrow> Some (st\<lparr>rc_store := s, rc_pc := RcReconcile (map fst desired)\<rparr>))
      | RcReconcile ports \<Rightarrow>
          (let (_, counted, m) = reconcile closes listen ports (rc_listeners st)
           in Some (st\<lparr>rc_listeners := m, rc_pc := RcReport, rc_counted := rc_counted st @ counted\<rparr>))
      | RcReport \<Rightarrow> Some (st\<lparr>rc_pc := RcSelect\<rparr>)
      | RcSelect \<Rightarrow>
          (case rc_changes st of
             None \<Rightarrow> None
           | Some i \<Rightarrow>
               map_option (\<lambda>w. st\<lparr>rc_store := (rc_store st)\<lparr>mwatchers := w\<rparr>, rc_pc := RcList\<rparr>)
                 (watcher_receive i (mwatchers (rc_store st))))
      | RcStopped \<Rightarrow> None)"

text \<open>The deferred \<^verbatim>\<open>stop\<close> of the subscription, when the context ends.\<close>

definition rc_stop :: "reconciler \<Rightarrow> reconciler" where
  "rc_stop st =
     st\<lparr>rc_pc := RcStopped,
        rc_store := (case rc_changes st of
            None \<Rightarrow> rc_store st
          | Some i \<Rightarrow> (rc_store st)\<lparr>mwatchers := watchers_remove i (mwatchers (rc_store st))\<rparr>)\<rparr>"

fun rc_step :: "rcLabel \<Rightarrow> reconciler \<Rightarrow> reconciler option" where
  "rc_step (RcCall c) st =
     Some (st\<lparr>rc_store := mem_locked c (rc_store st),
              rc_notifies := (if call_notifies c (rc_store st) then Suc (rc_notifies st) else rc_notifies st)\<rparr>)"
| "rc_step RcNotify st =
     (case rc_notifies st of
        0 \<Rightarrow> None
      | Suc n \<Rightarrow> Some (st\<lparr>rc_store := mem_notify (rc_store st), rc_notifies := n\<rparr>))"
| "rc_step (RcLoop closes listen) st = rc_loop closes listen st"
| "rc_step RcTick st = (if rc_pc st = RcSelect then Some (st\<lparr>rc_pc := RcList\<rparr>) else None)"
| "rc_step RcCtxDone st = (if rc_pc st = RcSelect then Some (rc_stop st) else None)"
| "rc_step RcStoreClose st = Some (st\<lparr>rc_store := mem_close (rc_store st)\<rparr>)"
| "rc_step (RcListenersClose closes) st = Some (st\<lparr>rc_listeners := snd (close closes (rc_listeners st))\<rparr>)"

fun rc_run :: "rcLabel list \<Rightarrow> reconciler \<Rightarrow> reconciler option" where
  "rc_run [] st = Some st"
| "rc_run (l # ls) st = Option.bind (rc_step l st) (rc_run ls)"

text \<open>The three steps of a round, taken without a break, are \<^const>\<open>reconcileRound\<close>.\<close>

lemma rc_round:
  assumes "rc_pc st = RcList"
    and "reconcileRound memPortStoreOps None self closes listen (rc_store st, rc_listeners st, r) = (counted, s, m, r')"
  shows "rc_run [RcLoop closes listen, RcLoop closes listen, RcLoop closes listen] st =
    Some (st\<lparr>rc_store := s, rc_listeners := m, rc_pc := RcSelect, rc_counted := rc_counted st @ counted\<rparr>)"
  using assms
  by (auto simp: rc_loop_def reconcileRound_def memPortStoreOps_def mem_desired_def Let_def split: prod.splits)

section \<open>The invariant\<close>

text \<open>
  The loop will list again without a tick: a call has still to notify, or a token waits in the
  subscription's channel.
\<close>

definition rc_token :: "reconciler \<Rightarrow> bool" where
  "rc_token st \<longleftrightarrow>
     rc_changes st \<noteq> None \<and> mget (subs (mwatchers (rc_store st))) (the (rc_changes st)) = Some True"

definition rc_wake :: "reconciler \<Rightarrow> bool" where
  "rc_wake st \<longleftrightarrow> rc_notifies st \<noteq> 0 \<or> rc_token st"

text \<open>
  The listeners answer to a set of ports: each of the ports is bound or its bind was counted as a
  failure, and every other bound port is one whose listener failed to close.
\<close>

definition rc_matches :: "uint32 set \<Rightarrow> listenerManager \<Rightarrow> forwardLabels list \<Rightarrow> bool" where
  "rc_matches D m counted \<longleftrightarrow>
     (\<forall>p \<in> D. p \<in> set (boundPorts m) \<or> recordForwardFailure FailListenerBind p [] [] \<in> set counted) \<and>
     (\<forall>p \<in> set (boundPorts m). p \<in> D \<or> recordForwardFailure FailListenerClose p [] [] \<in> set counted)"

text \<open>A store and a manager that are not closed, and a loop that has not stopped.\<close>

definition rc_running :: "reconciler \<Rightarrow> bool" where
  "rc_running st \<longleftrightarrow> \<not> watchers_closed (mwatchers (rc_store st)) \<and> \<not> cancelled (rc_listeners st) \<and> rc_pc st \<noteq> RcStopped"

definition rc_subscribed :: "reconciler \<Rightarrow> bool" where
  "rc_subscribed st \<longleftrightarrow>
     rc_changes st \<noteq> None \<and> mget (subs (mwatchers (rc_store st))) (the (rc_changes st)) \<noteq> None"

text \<open>What the loop holds is up to date with the table.\<close>

definition rc_current :: "reconciler \<Rightarrow> bool" where
  "rc_current st \<longleftrightarrow>
     (case rc_pc st of
        RcReconcile ports \<Rightarrow> set ports = dom (mem_view (rc_store st))
      | RcReport \<Rightarrow> rc_matches (dom (mem_view (rc_store st))) (rc_listeners st) (rc_counted st)
      | RcSelect \<Rightarrow> rc_matches (dom (mem_view (rc_store st))) (rc_listeners st) (rc_counted st)
      | _ \<Rightarrow> True)"

definition rc_fresh :: "reconciler \<Rightarrow> bool" where
  "rc_fresh st \<longleftrightarrow>
     (if rc_pc st = RcStart then rc_changes st = None else rc_subscribed st \<and> (rc_wake st \<or> rc_current st))"

definition rc_inv :: "reconciler \<Rightarrow> bool" where
  "rc_inv st \<longleftrightarrow> mem_inv (rc_store st) \<and> mwf (active (rc_listeners st)) \<and> lm_inv (rc_listeners st) \<and>
     (rc_running st \<longrightarrow> rc_fresh st)"

text \<open>A call that does not notify leaves the set of exposed ports as it was.\<close>

lemma mem_locked_simps [simp]:
  "mwatchers (mem_locked c s) = mwatchers s"
  "mappings (mem_locked c s) = mappings (store_call memPortStoreOps c s)"
  by (simp_all add: mem_locked_def)

lemma mem_locked_inv: "mem_inv s \<Longrightarrow> mem_inv (mem_locked c s)"
  using mem.store_call_inv [of s c] by simp

lemma mem_locked_quiet:
  assumes "mem_inv s" "\<not> call_notifies c s"
  shows "dom (mem_view (mem_locked c s)) = dom (mem_view s)"
proof (cases c)
  case (CallReleaseByAgent a)
  with assms(2) have "filter (\<lambda>(_, mapping). AgentID mapping \<noteq> a) (mappings s) = mappings s"
    by (auto simp: filter_empty_conv filter_id_conv)
  with CallReleaseByAgent show ?thesis by (simp add: mem_ops_defs)
qed (use assms in \<open>auto simp: mem_ops_defs gomap_simps domIff split: option.splits if_splits\<close>)

lemma mget_notify [simp]:
  "mget (subs (watchers_notify w)) i = map_option (\<lambda>_. True) (mget (subs w) i)"
  by (simp add: watchers_notify_def map_of_map)

text \<open>Each kind of step keeps the invariant.\<close>

lemma rc_inv_call:
  assumes "rc_inv st" "rc_step (RcCall c) st = Some st'"
  shows "rc_inv st'"
proof -
  let ?s = "rc_store st"
  have st': "st' = st\<lparr>rc_store := mem_locked c ?s,
      rc_notifies := (if call_notifies c ?s then Suc (rc_notifies st) else rc_notifies st)\<rparr>"
    using assms(2) by simp
  have same: "rc_subscribed st' = rc_subscribed st" "rc_token st' = rc_token st" "rc_running st' = rc_running st"
    "rc_pc st' = rc_pc st" "rc_changes st' = rc_changes st"
    by (simp_all add: st' rc_subscribed_def rc_token_def rc_running_def split: option.split)
  have "rc_fresh st'" if "rc_fresh st"
  proof (cases "call_notifies c ?s")
    case True
    then have "rc_wake st'" by (simp add: st' rc_wake_def)
    with that same show ?thesis by (auto simp: rc_fresh_def)
  next
    case False
    with assms(1) mem_locked_quiet [of ?s c] have "dom (mem_view (rc_store st')) = dom (mem_view ?s)"
      by (simp add: st' rc_inv_def)
    then have "rc_current st' = rc_current st"
      unfolding rc_current_def same by (simp add: st' split: reconcilerPc.split)
    moreover have "rc_wake st' = rc_wake st" using False same by (simp add: rc_wake_def st')
    ultimately show ?thesis using that same by (simp add: rc_fresh_def)
  qed
  with assms(1) same mem_locked_inv [of ?s c] show ?thesis by (simp add: rc_inv_def st')
qed

lemma rc_inv_notify:
  assumes "rc_inv st" "rc_step RcNotify st = Some st'"
  shows "rc_inv st'"
proof -
  obtain n where st': "st' = st\<lparr>rc_store := mem_notify (rc_store st), rc_notifies := n\<rparr>"
    using assms(2) by (auto split: nat.splits)
  have w: "mwatchers (rc_store st') = watchers_notify (mwatchers (rc_store st))" "mappings (rc_store st') = mappings (rc_store st)"
    by (simp_all add: st' mem_notify_def)
  have "watchers_closed (watchers_notify v) = watchers_closed v" for v by (simp add: watchers_notify_def)
  then have same: "rc_subscribed st' = rc_subscribed st" "rc_running st' = rc_running st" "rc_pc st' = rc_pc st"
    "rc_changes st' = rc_changes st" "rc_listeners st' = rc_listeners st"
    unfolding rc_subscribed_def rc_running_def w by (simp_all add: st' split: option.split)
  moreover have "rc_token st'" if "rc_subscribed st"
    using that unfolding rc_token_def rc_subscribed_def w by (auto simp: st' split: option.splits)
  ultimately show ?thesis using assms(1) by (auto simp: rc_inv_def rc_fresh_def rc_wake_def w)
qed

text \<open>A reconcile with the ports of the table makes the listeners answer to it.\<close>

lemma reconcile_matches:
  assumes "mwf (active m)" "\<not> cancelled m" "reconcile closes listen ports m = (b, counted, m')"
  shows "rc_matches (set ports) m' (before @ counted)"
proof -
  obtain bound failed where b: "b = (bound, failed)" by (cases b)
  note post = reconcile_post [OF assms(1,2) assms(3) [unfolded b]]
  then have "set counted = (\<lambda>p. recordForwardFailure FailListenerBind p [] []) ` set failed \<union>
      (\<lambda>p. recordForwardFailure FailListenerClose p [] []) ` set (filter (\<lambda>p. p \<notin> set ports) bound)"
    by (simp flip: set_mset_mset)
  moreover have "set (boundPorts m') = {p. mget (active m') p \<noteq> None}" by (auto simp: boundPorts_set)
  ultimately show ?thesis using post by (auto simp: rc_matches_def)
qed

lemma reconcile_cancelled:
  assumes "cancelled m" "reconcile closes listen ports m = (b, counted, m')"
  shows "m' = m"
  using assms by (simp add: reconcile_def)

lemma reconcile_keeps:
  assumes "mwf (active m)" "lm_inv m" "reconcile closes listen ports m = (b, counted, m')"
  shows "mwf (active m')" "lm_inv m'" "cancelled m' = cancelled m"
proof -
  have "mwf (active m') \<and> lm_inv m' \<and> cancelled m' = cancelled m"
  proof (cases "cancelled m")
    case True
    with assms reconcile_cancelled [OF True assms(3)] show ?thesis by simp
  next
    case False
    obtain bound failed where b: "b = (bound, failed)" by (cases b)
    note post = reconcile_post [OF assms(1) False assms(3) [unfolded b]]
    have "m' = snd (snd (reconcile closes listen ports m))" using assms(3) by simp
    then have "lm_inv m'" using lm_run_inv [OF assms(2), of "[LReconcile closes listen ports]"] by simp
    with post show ?thesis by simp
  qed
  then show "mwf (active m')" "lm_inv m'" "cancelled m' = cancelled m" by auto
qed

lemma rc_inv_loop:
  assumes "rc_inv st" "rc_step (RcLoop closes listen) st = Some st'"
  shows "rc_inv st'"
proof (cases "rc_pc st")
  case RcStart
  show ?thesis
  proof (cases "watchers_closed (mwatchers (rc_store st))")
    case True
    with RcStart assms(2) have "st' = st\<lparr>rc_changes := None, rc_pc := RcList\<rparr>"
      by (simp add: rc_loop_def mem_watch_def watchers_watch_def)
    with True assms(1) show ?thesis by (simp add: rc_inv_def rc_running_def)
  next
    case False
    with RcStart assms(1,2) show ?thesis
      by (auto simp: rc_loop_def rc_inv_def rc_fresh_def rc_running_def rc_subscribed_def rc_current_def
          mem_watch_def watchers_watch_def gomap_simps)
  qed
next
  case RcList
  with assms have "st' = st\<lparr>rc_pc := RcReconcile (map fst (mappings (rc_store st)))\<rparr>"
    by (simp add: rc_loop_def mem_desired_def)
  with RcList assms(1) show ?thesis
    by (simp add: rc_inv_def rc_fresh_def rc_running_def rc_subscribed_def rc_current_def dom_map_of_conv_image_fst)
next
  case (RcReconcile ports)
  obtain b counted m where r: "reconcile closes listen ports (rc_listeners st) = (b, counted, m)" by (metis prod_cases3)
  with RcReconcile assms(2) have st': "st' = st\<lparr>rc_listeners := m, rc_pc := RcReport, rc_counted := rc_counted st @ counted\<rparr>"
    by (simp add: rc_loop_def)
  have inv: "mwf (active (rc_listeners st))" "lm_inv (rc_listeners st)" using assms(1) by (auto simp: rc_inv_def)
  note keeps = reconcile_keeps [OF inv r]
  have same: "rc_subscribed st' = rc_subscribed st" "rc_wake st' = rc_wake st" "rc_running st' = rc_running st"
    using keeps RcReconcile
    by (simp_all add: st' rc_subscribed_def rc_wake_def rc_token_def rc_running_def split: option.split)
  have "rc_fresh st'" if "rc_running st"
  proof -
    from that assms(1) have "rc_fresh st" by (simp add: rc_inv_def)
    moreover have "rc_current st'" if "rc_current st"
      using that RcReconcile reconcile_matches [OF inv(1) _ r, of "rc_counted st"] \<open>rc_running st\<close>
      by (simp add: rc_current_def st' rc_running_def)
    ultimately show ?thesis using same RcReconcile by (auto simp: rc_fresh_def st')
  qed
  with assms(1) keeps same show ?thesis by (simp add: rc_inv_def st')
next
  case RcReport
  with assms have "st' = st\<lparr>rc_pc := RcSelect\<rparr>" by (simp add: rc_loop_def)
  with RcReport assms(1) show ?thesis
    by (auto simp: rc_inv_def rc_fresh_def rc_running_def rc_subscribed_def rc_current_def rc_wake_def rc_token_def)
next
  case RcSelect
  with assms(2) obtain i w where i: "rc_changes st = Some i"
      and w: "watcher_receive i (mwatchers (rc_store st)) = Some w"
      and st': "st' = st\<lparr>rc_store := (rc_store st)\<lparr>mwatchers := w\<rparr>, rc_pc := RcList\<rparr>"
    by (auto simp: rc_loop_def split: option.splits)
  from w have "mget (subs w) i \<noteq> None" "watchers_closed w = watchers_closed (mwatchers (rc_store st))"
    by (auto simp: watcher_receive_def gomap_simps split: if_splits)
  with i assms(1) show ?thesis
    by (simp add: rc_inv_def rc_fresh_def rc_running_def rc_subscribed_def rc_current_def st')
qed (use assms in \<open>simp add: rc_loop_def\<close>)

lemma rc_inv_step:
  assumes "rc_inv st" "rc_step l st = Some st'"
  shows "rc_inv st'"
proof (cases l)
  case (RcCall c)
  with assms show ?thesis by (blast intro: rc_inv_call)
next
  case RcNotify
  with assms show ?thesis by (blast intro: rc_inv_notify)
next
  case (RcLoop closes listen)
  with assms show ?thesis by (blast intro: rc_inv_loop)
next
  case RcTick
  with assms show ?thesis
    by (auto simp: rc_inv_def rc_fresh_def rc_running_def rc_subscribed_def rc_current_def split: if_splits)
next
  case RcCtxDone
  with assms show ?thesis by (auto simp: rc_inv_def rc_stop_def rc_running_def split: if_splits option.splits)
next
  case RcStoreClose
  with assms show ?thesis by (auto simp: rc_inv_def rc_running_def mem_close_def watchers_close_def)
next
  case (RcListenersClose closes)
  with assms show ?thesis by (auto simp: rc_inv_def rc_running_def close_def lm_inv_def Let_def)
qed

lemma rc_inv_init: "rc_inv rc_init"
  by (simp add: rc_inv_def rc_init_def rc_fresh_def newMemPortStore_def newListenerManager_def lm_inv_def)

lemma rc_inv_run: "rc_inv st \<Longrightarrow> rc_run ls st = Some st' \<Longrightarrow> rc_inv st'"
  by (induction ls st rule: rc_run.induct) (auto simp: rc_inv_step split: bind_splits)

section \<open>The loop comes to rest\<close>

text \<open>
  The steps the loop and the calls under way take on their own, without a tick. Each takes something
  off a measure: a round has four steps, and a token is worth one more round.
\<close>

fun rc_internal :: "rcLabel \<Rightarrow> bool" where
  "rc_internal RcNotify = True"
| "rc_internal (RcLoop closes listen) = True"
| "rc_internal _ = False"

fun rc_rank :: "reconcilerPc \<Rightarrow> nat" where
  "rc_rank RcStart = 4"
| "rc_rank RcList = 3"
| "rc_rank (RcReconcile ports) = 2"
| "rc_rank RcReport = 1"
| "rc_rank RcSelect = 0"
| "rc_rank RcStopped = 0"

definition rc_measure :: "reconciler \<Rightarrow> nat" where
  "rc_measure st = 5 * rc_notifies st + (if rc_token st then 4 else 0) + rc_rank (rc_pc st)"

lemma rc_loop_measure:
  assumes "rc_inv st" "rc_running st" "rc_loop closes listen st = Some st'"
  shows "rc_measure st' < rc_measure st \<and> mem_view (rc_store st') = mem_view (rc_store st)"
proof (cases "rc_pc st")
  case RcStart
  with assms have "\<not> rc_token st" by (simp add: rc_inv_def rc_fresh_def rc_token_def)
  with RcStart assms show ?thesis
    by (auto simp: rc_loop_def rc_measure_def rc_token_def mem_watch_def watchers_watch_def gomap_simps rc_running_def)
next
  case (RcReconcile ports)
  with assms(3) show ?thesis by (auto simp: rc_loop_def rc_measure_def rc_token_def split: prod.splits)
next
  case RcSelect
  then obtain i w where i: "rc_changes st = Some i" and w: "watcher_receive i (mwatchers (rc_store st)) = Some w"
      and st': "st' = st\<lparr>rc_store := (rc_store st)\<lparr>mwatchers := w\<rparr>, rc_pc := RcList\<rparr>"
    using assms(3) by (auto simp: rc_loop_def split: option.splits)
  from w have "rc_token st" "\<not> rc_token st'"
    by (auto simp: rc_token_def i st' watcher_receive_def gomap_simps split: if_splits)
  with RcSelect show ?thesis by (simp add: rc_measure_def st')
qed (use assms(3) in \<open>auto simp: rc_loop_def rc_measure_def rc_token_def mem_desired_def\<close>)

lemma rc_internal_measure:
  assumes "rc_inv st" "rc_running st" "rc_internal l" "rc_step l st = Some st'"
  shows "rc_measure st' < rc_measure st \<and> mem_view (rc_store st') = mem_view (rc_store st) \<and> rc_running st'"
proof (cases l)
  case RcNotify
  with assms(2,4) show ?thesis
    by (auto simp: rc_measure_def rc_running_def mem_notify_def watchers_notify_def split: nat.splits)
next
  case (RcLoop closes listen)
  with assms(4) have loop: "rc_loop closes listen st = Some st'" by simp
  have inv: "mwf (active (rc_listeners st))" "lm_inv (rc_listeners st)" using assms(1) by (auto simp: rc_inv_def)
  have "rc_running st'"
    using loop assms(2) reconcile_keeps(3) [OF inv]
    by (auto simp: rc_loop_def rc_running_def mem_watch_def watchers_watch_def mem_desired_def watcher_receive_def Let_def
        split: reconcilerPc.splits option.splits prod.splits if_splits)
  with rc_loop_measure [OF assms(1,2) loop] show ?thesis by simp
qed (use assms(3) in auto)

lemma rc_run_measure:
  assumes "rc_inv st" "rc_running st" "list_all rc_internal ls" "rc_run ls st = Some st'"
  shows "length ls + rc_measure st' \<le> rc_measure st \<and> mem_view (rc_store st') = mem_view (rc_store st) \<and> rc_running st'"
  using assms
proof (induction ls arbitrary: st)
  case (Cons l ls)
  then obtain st1 where st1: "rc_step l st = Some st1" "rc_run ls st1 = Some st'" by (auto split: bind_splits)
  with Cons.prems rc_internal_measure [of st l st1] Cons.IH [of st1] rc_inv_step [of st l st1] show ?case by auto
qed simp

text \<open>When no step of its own is left, the loop waits and the listeners answer to the table.\<close>

lemma rc_rest:
  assumes "rc_inv st" "rc_running st" "\<And>l. rc_internal l \<Longrightarrow> rc_step l st = None"
  shows "rc_pc st = RcSelect \<and> \<not> rc_wake st \<and>
    rc_matches (dom (mem_view (rc_store st))) (rc_listeners st) (rc_counted st)"
proof -
  have loop: "rc_loop (\<lambda>_. CloseOk) (\<lambda>_. None) st = None" using assms(3) [of "RcLoop (\<lambda>_. CloseOk) (\<lambda>_. None)"] by simp
  have notify: "rc_notifies st = 0" using assms(3) [of RcNotify] by (simp split: nat.splits)
  have pc: "rc_pc st = RcSelect"
    using loop assms(2) by (auto simp: rc_loop_def rc_running_def mem_desired_def split: reconcilerPc.splits prod.splits)
  have "\<not> rc_token st"
    using loop pc by (auto simp: rc_loop_def rc_token_def watcher_receive_def)
  with notify have wake: "\<not> rc_wake st" by (simp add: rc_wake_def)
  moreover have "rc_fresh st" using assms(1,2) by (simp add: rc_inv_def)
  ultimately show ?thesis using pc by (simp add: rc_fresh_def rc_current_def)
qed

lemma rc_listing:
  assumes "mem_inv s" "rc_matches (dom (mem_view s)) m counted"
  shows "\<exists>fs. listAgentForwards (Some memPortStoreOps) (Some None) budget (boundPorts m) a s r = ((200, ForwardList fs), s, r) \<and>
    (\<forall>f \<in> set fs. fr_state f = Some (if Suspended (fr_mapping f) then SuspendedState
       else if fr_port f \<in> set (boundPorts m) then Active else Pending) \<and>
     (fr_state f = Some Pending \<longrightarrow> recordForwardFailure FailListenerBind (fr_port f) [] [] \<in> set counted))"
proof -
  from listAgentForwards_local [OF assms(1), of budget "boundPorts m" a r] obtain fs where
    fs: "listAgentForwards (Some memPortStoreOps) (Some None) budget (boundPorts m) a s r = ((200, ForwardList fs), s, r)"
      "set fs = {\<lparr>fr_port = p, fr_state = Some (if Suspended mp then SuspendedState
        else if p \<in> set (boundPorts m) then Active else Pending), fr_mapping = mp\<rparr> | p mp.
        mem_view s p = Some mp \<and> (a = [] \<or> AgentID mp = a)}" by blast
  from assms(2) have bind: "p \<in> set (boundPorts m) \<or> recordForwardFailure FailListenerBind p [] [] \<in> set counted"
    if "mem_view s p = Some mp" for p mp
    using that unfolding rc_matches_def by blast
  have "fr_state f = Some (if Suspended (fr_mapping f) then SuspendedState
       else if fr_port f \<in> set (boundPorts m) then Active else Pending) \<and>
     (fr_state f = Some Pending \<longrightarrow> recordForwardFailure FailListenerBind (fr_port f) [] [] \<in> set counted)"
    if f: "f \<in> set fs" for f
  proof -
    from f obtain p mp where "f = \<lparr>fr_port = p, fr_state = Some (if Suspended mp then SuspendedState
        else if p \<in> set (boundPorts m) then Active else Pending), fr_mapping = mp\<rparr>" "mem_view s p = Some mp"
      unfolding fs(2) by blast
    with bind [of p mp] show ?thesis by (auto split: if_splits)
  qed
  with fs(1) show ?thesis by blast
qed

section \<open>Properties\<close>


text \<open>
  A forward allocated after the loop listed the ports and before it waits: the pending notification
  makes the loop list again.
\<close>

definition demo_loop :: rcLabel where
  "demo_loop = RcLoop (\<lambda>_. CloseOk) (\<lambda>p. Some (unat p))"

definition demo_before :: "rcLabel list" where
  "demo_before = [demo_loop, demo_loop,
     RcCall (CallAllocate 1025 2025 (portMapping.make ''agent-1'' ''172.30.1.5:80'' [] False)), demo_loop, demo_loop]"

definition demo_after :: "rcLabel list" where
  "demo_after = [RcNotify, demo_loop, demo_loop, demo_loop, demo_loop]"


end
