(* ===== verification/ServerEvents.thy ===== *)
theory ServerEvents
  imports RestApi
begin

text \<open>
  The handlers that stream to the client as server-sent events, \<^verbatim>\<open>pullAgentImage\<close> of
  \<^verbatim>\<open>pkg/controller/api.go\<close> and \<^verbatim>\<open>logsAgentContainer\<close> of \<^verbatim>\<open>pkg/controller/containers.go\<close>, down to the bytes of
  the response, and the container logs from the agent to the client.
\<close>

section \<open>Writing events\<close>

text \<open>
  The body written so far and the outcomes of the writes that are left; a write that fails finds the
  client gone and adds nothing.
\<close>

record sse =
  sse_out :: bytes
  sse_writes :: "bool list"

record streamDoneFrame =
  sd_done :: bool
  sd_code :: uint32
  sd_error :: string

definition writeSSERaw :: "bytes \<Rightarrow> sse \<Rightarrow> bool \<times> sse" where
  "writeSSERaw payload s =
     (let ok = (sse_writes s = [] \<or> hd (sse_writes s)); s = s\<lparr>sse_writes := tl (sse_writes s)\<rparr> in
      (ok, if ok then s\<lparr>sse_out := sse_out s @ ''data: '' @ payload @ [newline, newline]\<rparr> else s))"

text \<open>\<open>encDone\<close> is \<^verbatim>\<open>json.Marshal\<close> on a done frame.\<close>

definition writeSSEEvent :: "(streamDoneFrame \<Rightarrow> bytes option) \<Rightarrow> streamDoneFrame \<Rightarrow> sse \<Rightarrow> sse" where
  "writeSSEEvent encDone v s =
     (case encDone v of None \<Rightarrow> s | Some payload \<Rightarrow> snd (writeSSERaw payload s))"

definition emitSSE :: "(streamDoneFrame \<Rightarrow> bytes option) \<Rightarrow> streamFrame \<Rightarrow> sse \<Rightarrow> bool \<times> sse" where
  "emitSSE encDone f s =
     (if sf_final f
      then (True, writeSSEEvent encDone \<lparr>sd_done = True, sd_code = sf_code f, sd_error = sf_error f\<rparr> s)
      else (case writeSSERaw (sf_payload f) s of (ok, s') \<Rightarrow> (\<not> ok, s')))"

definition abortSSE :: "(streamDoneFrame \<Rightarrow> bytes option) \<Rightarrow> sse \<Rightarrow> sse" where
  "abortSSE encDone s = writeSSEEvent encDone \<lparr>sd_done = True, sd_code = 0, sd_error = ''agent disconnected''\<rparr> s"

section \<open>The handlers\<close>

text \<open>The answer of a streaming handler: a plain response, or status 200 and an event stream with its body.\<close>

datatype streamed = Plain response | EventStream bytes

definition serveSSEStream :: "(streamDoneFrame \<Rightarrow> bytes option) \<Rightarrow> bool \<Rightarrow> streamTurn list \<Rightarrow> bool list \<Rightarrow> streamed option" where
  "serveSSEStream encDone flusher turns writes =
     (if \<not> flusher then Some (Plain (500, BodyError ''streaming unsupported''))
      else map_option (\<lambda>s. EventStream (sse_out s))
        (consumeStream (emitSSE encDone) (abortSSE encDone) turns \<lparr>sse_out = [], sse_writes = writes\<rparr>))"

definition streamError :: "apiErr \<Rightarrow> response" where
  "streamError err =
     (if err = NotConnected then (404, BodyError ''agent not connected'') else (502, BodyError ''dispatch failed''))"

record pullRequestBody =
  prb_image :: string
  prb_auth :: "registryAuth option"

text \<open>\<open>bound\<close> is what \<^verbatim>\<open>ShouldBindJSON\<close> decoded, \<open>None\<close> when it failed.\<close>

definition pullAgentImage :: "(apiRequest \<Rightarrow> bytes option) \<Rightarrow> (streamDoneFrame \<Rightarrow> bytes option) \<Rightarrow> streamer \<Rightarrow> httpReq \<Rightarrow>
    pullRequestBody option \<Rightarrow> bool \<Rightarrow> bool list \<Rightarrow> streamed option" where
  "pullAgentImage marshal encDone open_stream c bound flusher writes =
     (case bound of
        None \<Rightarrow> Some (Plain (400, BodyError ''invalid pull request body''))
      | Some body \<Rightarrow>
          if prb_image body = [] then Some (Plain (400, BodyError ''image is required''))
          else (case marshal (PullRequest \<lparr>pr_image = prb_image body, pr_auth = prb_auth body\<rparr>) of
            None \<Rightarrow> Some (Plain (500, BodyError ''encode pull request failed''))
          | Some payload \<Rightarrow>
              (case open_stream (hr_param c ''agentId'') MethodImagesPull payload of
                 Inl err \<Rightarrow> Some (Plain (streamError err))
               | Inr turns \<Rightarrow> serveSSEStream encDone flusher turns writes)))"

definition logsAgentContainer :: "(apiRequest \<Rightarrow> bytes option) \<Rightarrow> (streamDoneFrame \<Rightarrow> bytes option) \<Rightarrow> streamer \<Rightarrow> httpReq \<Rightarrow>
    bool \<Rightarrow> bool list \<Rightarrow> streamed option" where
  "logsAgentContainer marshal encDone open_stream c flusher writes =
     (case parseBoolQuery c ''follow'' of
        None \<Rightarrow> Some (Plain (400, BodyError ''invalid follow query parameter''))
      | Some follow \<Rightarrow>
          (case parseBoolQuery c ''timestamps'' of
             None \<Rightarrow> Some (Plain (400, BodyError ''invalid timestamps query parameter''))
           | Some timestamps \<Rightarrow>
               (case marshal (ContainerLogsRequest \<lparr>cl_id = hr_param c ''containerId'', cl_follow = follow,
                    cl_tail = hr_query c ''tail'', cl_since = hr_query c ''since'', cl_timestamps = timestamps\<rparr>) of
                  None \<Rightarrow> Some (Plain (500, BodyError ''encode logs request failed''))
                | Some payload \<Rightarrow>
                    (case open_stream (hr_param c ''agentId'') MethodContainersLogs payload of
                       Inl err \<Rightarrow> Some (Plain (streamError err))
                     | Inr turns \<Rightarrow> serveSSEStream encDone flusher turns writes))))"

section \<open>What a client reads\<close>

text \<open>
  Reading an event stream, as its specification says for a stream without carriage returns: a line
  \<^verbatim>\<open>data:\<close> adds its value, less one leading space, to the event, an empty line ends the event, other
  lines are left out here, and an event that no empty line ends is dropped.
\<close>

definition dataValue :: "string \<Rightarrow> string" where
  "dataValue l = (let v = drop 5 l in if v \<noteq> [] \<and> hd v = CHR '' '' then tl v else v)"

fun joinLines :: "string list \<Rightarrow> string" where
  "joinLines [] = []"
| "joinLines [l] = l"
| "joinLines (l # ls) = l @ newline # joinLines ls"

fun readEvents :: "string list \<Rightarrow> string list \<Rightarrow> string list" where
  "readEvents [] buf = []"
| "readEvents (l # ls) buf =
     (if l = [] then (if buf = [] then readEvents ls [] else joinLines buf # readEvents ls [])
      else readEvents ls (if hasPrefix l ''data:'' then buf @ [dataValue l] else buf))"

definition clientEvents :: "bytes \<Rightarrow> string list" where
  "clientEvents body = readEvents (splitOn newline body) []"

text \<open>A payload on one line, as \<^verbatim>\<open>json.Marshal\<close> writes every value.\<close>

definition oneLine :: "bytes \<Rightarrow> bool" where
  "oneLine payload \<longleftrightarrow> newline \<notin> set payload \<and> carriage \<notin> set payload"

definition sseBytes :: "bytes list \<Rightarrow> bytes" where
  "sseBytes payloads = concat (map (\<lambda>p. ''data: '' @ p @ [newline, newline]) payloads)"

lemma sseBytes_simps [simp]:
  "sseBytes [] = []" "sseBytes (p # ps) = ''data: '' @ p @ newline # newline # sseBytes ps"
  "sseBytes (ps @ qs) = sseBytes ps @ sseBytes qs"
  by (simp_all add: sseBytes_def)

text \<open>Written one after the other, payloads are read back one by one.\<close>

lemma clientEvents_sseBytes:
  assumes "list_all oneLine payloads"
  shows "clientEvents (sseBytes payloads) = payloads"
  using assms
proof (induction payloads)
  case Nil
  show ?case by (simp add: clientEvents_def)
next
  case (Cons p ps)
  then have nl: "newline \<notin> set (''data: '' @ p)" by (simp add: oneLine_def newline_def)
  have "splitOn newline (sseBytes (p # ps)) = (''data: '' @ p) # [] # splitOn newline (sseBytes ps)"
    using splitOn_append [OF nl, of "newline # sseBytes ps"] by simp
  then have "clientEvents (sseBytes (p # ps)) = p # clientEvents (sseBytes ps)"
    by (simp add: clientEvents_def hasPrefix_def dataValue_def)
  with Cons show ?case by simp
qed

section \<open>What the handler writes\<close>

definition donePayload :: "(streamDoneFrame \<Rightarrow> bytes option) \<Rightarrow> uint32 \<Rightarrow> string \<Rightarrow> bytes list" where
  "donePayload encDone code err =
     (case encDone \<lparr>sd_done = True, sd_code = code, sd_error = err\<rparr> of None \<Rightarrow> [] | Some p \<Rightarrow> [p])"

definition framePayload :: "(streamDoneFrame \<Rightarrow> bytes option) \<Rightarrow> streamFrame \<Rightarrow> bytes list" where
  "framePayload encDone f = (if sf_final f then donePayload encDone (sf_code f) (sf_error f) else [sf_payload f])"

definition streamPayloads :: "(streamDoneFrame \<Rightarrow> bytes option) \<Rightarrow> streamFrame list \<times> bool \<Rightarrow> bytes list" where
  "streamPayloads encDone = (\<lambda>(frames, aborted).
     concat (map (framePayload encDone) frames) @
     (if aborted then donePayload encDone 0 ''agent disconnected'' else []))"

definition sseState :: "(streamDoneFrame \<Rightarrow> bytes option) \<Rightarrow> streamFrame list \<times> bool \<Rightarrow> sse" where
  "sseState encDone rec = \<lparr>sse_out = sseBytes (streamPayloads encDone rec), sse_writes = []\<rparr>"

lemma record_simps [simp]:
  "collect f (fs, aborted) = (sf_final f, fs @ [f], aborted)" "noteAbort (fs, aborted) = (fs, True)"
  by (simp_all add: collect_def noteAbort_def)

lemma emitSSE_state:
  "emitSSE encDone f (sseState encDone (fs, False)) = (sf_final f, sseState encDone (fs @ [f], False))"
  by (simp add: emitSSE_def sseState_def streamPayloads_def framePayload_def donePayload_def writeSSEEvent_def
      writeSSERaw_def Let_def split: option.split)

lemma abortSSE_state: "abortSSE encDone (sseState encDone (fs, False)) = sseState encDone (fs, True)"
  by (simp add: abortSSE_def sseState_def streamPayloads_def donePayload_def writeSSEEvent_def writeSSERaw_def
      Let_def split: option.split)

lemma drain_sse:
  "drain (emitSSE encDone) (abortSSE encDone) fs (sseState encDone (acc, False)) =
     sseState encDone (drain collect noteAbort fs (acc, False))"
  by (induction fs arbitrary: acc) (simp_all add: emitSSE_state abortSSE_state)

lemma consume_sse:
  "consumeStream (emitSSE encDone) (abortSSE encDone) turns (sseState encDone (acc, False)) =
     map_option (sseState encDone) (consumeStream collect noteAbort turns (acc, False))"
proof (induction turns arbitrary: acc)
  case (Cons t ts)
  then show ?case by (cases t) (simp_all add: emitSSE_state drain_sse)
qed simp

text \<open>
  A stream that is written without a failure reaches the client event by event: the payloads of the
  frames and the terminal event, whatever the client's connection does with the chunks.
\<close>

theorem sse_stream_exact:
  assumes "consumeStream collect noteAbort turns ([], False) = Some rec"
    and "list_all oneLine (streamPayloads encDone rec)"
  shows "\<exists>body. serveSSEStream encDone True turns [] = Some (EventStream body) \<and>
    clientEvents body = streamPayloads encDone rec"
proof -
  have "sseState encDone ([], False) = \<lparr>sse_out = [], sse_writes = []\<rparr>"
    by (simp add: sseState_def streamPayloads_def)
  with consume_sse [of encDone turns "[]"] assms(1)
  have "serveSSEStream encDone True turns [] = Some (EventStream (sseBytes (streamPayloads encDone rec)))"
    by (simp add: serveSSEStream_def sseState_def)
  with clientEvents_sseBytes [OF assms(2)] show ?thesis by blast
qed

section \<open>Container logs, end to end\<close>

lemma emitFrames_all:
  assumes "\<forall>f \<in> set fs. \<exists>b. encode f = Inr b"
  shows "emitFrames encode node rid fs [] = (map (progressEvent node rid \<circ> projr \<circ> encode) fs, False)"
  using assms by (induction fs) auto

lemma consume_frames:
  "consumeStream collect noteAbort
     (map TurnFrame (eventFrames (map (progressEvent node rid) ps @ [resultEvent node rid code msg]))) (acc, False) =
   Some (acc @ map (\<lambda>p. \<lparr>sf_payload = p, sf_code = 0, sf_error = [], sf_final = False\<rparr>) ps @
     [\<lparr>sf_payload = [], sf_code = code, sf_error = msg, sf_final = True\<rparr>], False)"
  unfolding eventFrames_read by (induction ps arbitrary: acc) simp_all

text \<open>The frames of a log's writes, and what the agent sends for a request that it can serve.\<close>

abbreviation logFrames :: "(bool \<times> bytes) list \<Rightarrow> logFrame list" where
  "logFrames ws \<equiv> copyLogs ws \<lparr>lw_stream = ''stdout'', lw_buf = []\<rparr> \<lparr>lw_stream = ''stderr'', lw_buf = []\<rparr>"

definition logWrites :: "(logSource \<Rightarrow> (bool \<times> bytes) list \<times> string option) \<Rightarrow> inspectResponse \<Rightarrow> logSource \<Rightarrow>
    (bool \<times> bytes) list \<times> string option" where
  "logWrites stdCopy inspect src =
     (if (case ir_config inspect of None \<Rightarrow> False | Some c \<Rightarrow> cfg_tty c)
      then (map (Pair False) (ls_reads src), ls_err src) else stdCopy src)"

lemma handleLogs_events:
  assumes "decode (rq_payload req) = Inr lr" "cl_id lr \<noteq> []"
    and "dk_inspect dk (cl_id lr) = Inr inspect" "dk_logs dk lr = Inr src" "logWrites stdCopy inspect src = (ws, copyErr)"
    and "\<forall>f \<in> set (logFrames ws). \<exists>b. encode f = Inr b"
  shows "handleLogs node dk stdCopy decode encode False [] req =
    map (progressEvent node (rq_request_id req)) (map (projr \<circ> encode) (logFrames ws)) @
    [resultEvent node (rq_request_id req) (if copyErr = None then 200 else 502) (case copyErr of None \<Rightarrow> [] | Some msg \<Rightarrow> msg)]"
proof -
  note emit = emitFrames_all [OF assms(6), of node]
  show ?thesis
    using assms(1-5) by (cases copyErr) (simp_all add: handleLogs_def containerLogs_def logWrites_def emit Let_def comp_assoc)
qed

section \<open>Properties\<close>


definition demo_logs_query :: httpReq where
  "demo_logs_query = \<lparr>hr_param = (\<lambda>k. if k = ''containerId'' then ''web'' else ''a''), hr_query = (\<lambda>_. []),
     hr_queryArray = (\<lambda>_. []), hr_accept = []\<rparr>"

definition demo_logs_request :: containerLogsRequest where
  "demo_logs_request = \<lparr>cl_id = ''web'', cl_follow = False, cl_tail = [], cl_since = [], cl_timestamps = False\<rparr>"

definition demo_inspect :: inspectResponse where
  "demo_inspect = \<lparr>ir_id = ''web'', ir_name = [], ir_image = [], ir_created = [], ir_restartCount = 0, ir_state = None,
     ir_config = None, ir_hostConfig = None, ir_network = None\<rparr>"

definition demo_logs_docker :: docker where
  "demo_logs_docker = demo_docker\<lparr>dk_inspect := \<lambda>_. Inr demo_inspect, dk_logs := \<lambda>_. Inr \<lparr>ls_reads = [], ls_err = None\<rparr>\<rparr>"

definition demo_log_encode :: "logFrame \<Rightarrow> string + bytes" where
  "demo_log_encode f = Inr (lf_stream f @ CHR '':'' # lf_line f)"

definition demo_decode_frame :: "bytes \<Rightarrow> logFrame" where
  "demo_decode_frame b = \<lparr>lf_stream = takeWhile (\<lambda>c. c \<noteq> CHR '':'') b, lf_line = tl (dropWhile (\<lambda>c. c \<noteq> CHR '':'') b)\<rparr>"

definition demo_logs_req :: agentRequest where
  "demo_logs_req = \<lparr>rq_request_id = ''7'', rq_method = ''containers.logs'', rq_payload = ''q''\<rparr>"


end
