(* ===== verification/UploadTimer.thy ===== *)
theory UploadTimer
  imports AgentFs
begin

text \<open>
  The idle timer of an upload, \<^verbatim>\<open>consumeUpload\<close> and \<^verbatim>\<open>resetIdleTimer\<close> of \<^verbatim>\<open>pkg/agent/fs.go\<close>, with time in
  nanoseconds. \<open>AgentFs\<close> takes what the loop's \<^verbatim>\<open>select\<close> chooses as given; here the choices carry the time at
  which they are made, and the timer says when its case can be chosen.
\<close>

section \<open>The timer\<close>

text \<open>
  A \<^verbatim>\<open>time.Timer\<close>: when it will fire, if it runs, and whether a value waits in its channel of capacity
  one. \<^verbatim>\<open>Stop\<close> reports whether the timer was running and leaves the channel as it is.
\<close>

record goTimer =
  tm_when :: "nat option"
  tm_value :: bool

definition NewTimer :: "nat \<Rightarrow> nat \<Rightarrow> goTimer" where
  "NewTimer now d = \<lparr>tm_when = Some (now + d), tm_value = False\<rparr>"

definition timer_at :: "nat \<Rightarrow> goTimer \<Rightarrow> goTimer" where
  "timer_at now t =
     (case tm_when t of
        Some w \<Rightarrow> if w \<le> now then \<lparr>tm_when = None, tm_value = True\<rparr> else t
      | None \<Rightarrow> t)"

definition timer_Stop :: "goTimer \<Rightarrow> bool \<times> goTimer" where
  "timer_Stop t = (tm_when t \<noteq> None, t\<lparr>tm_when := None\<rparr>)"

definition timer_drain :: "goTimer \<Rightarrow> goTimer" where
  "timer_drain t = t\<lparr>tm_value := False\<rparr>"

definition timer_Reset :: "nat \<Rightarrow> nat \<Rightarrow> goTimer \<Rightarrow> goTimer" where
  "timer_Reset now d t = t\<lparr>tm_when := Some (now + d)\<rparr>"

definition fsUploadIdleTimeout :: nat where
  "fsUploadIdleTimeout = 120000000000"

definition resetIdleTimer :: "nat \<Rightarrow> goTimer \<Rightarrow> goTimer" where
  "resetIdleTimer now t =
     (let (running, t) = timer_Stop t;
          t = (if \<not> running then timer_drain t else t)
      in timer_Reset now fsUploadIdleTimeout t)"

section \<open>The loop with time\<close>

text \<open>
  The turns of the loop at their times: the timer's case needs a value in its channel; a chunk resets
  the timer. \<open>fires\<close> is whether the turns can happen in this order at these times.
\<close>

fun fires :: "goTimer \<Rightarrow> (nat \<times> uploadEvent) list \<Rightarrow> bool" where
  "fires t [] = True"
| "fires t ((now, UpCtxDone msg) # evs) = True"
| "fires t ((now, UpIdle) # evs) = tm_value (timer_at now t)"
| "fires t ((now, UpChunk d isLast w s) # evs) = fires (resetIdleTimer now (timer_at now t)) evs"

definition consumeUpload_at :: "nat \<Rightarrow> (nat \<times> uploadEvent) list \<Rightarrow> (osCall list \<times> bool \<times> uint32 \<times> string) option option" where
  "consumeUpload_at start evs =
     (if fires (NewTimer start fsUploadIdleTimeout) evs then Some (consumeUpload (map snd evs)) else None)"

section \<open>Lemmas\<close>

text \<open>Whether the timer had fired or not, and whether the value was read or not, it starts afresh.\<close>

lemma resetIdleTimer_fresh:
  assumes "tm_when t \<noteq> None \<longrightarrow> \<not> tm_value t"
  shows "resetIdleTimer now t = NewTimer now fsUploadIdleTimeout"
  using assms
  by (cases t) (auto simp: resetIdleTimer_def timer_Stop_def timer_drain_def timer_Reset_def NewTimer_def)

lemma timer_at_value: "tm_when (timer_at now t) \<noteq> None \<longrightarrow> \<not> tm_value (timer_at now t)"
  if "tm_when t \<noteq> None \<longrightarrow> \<not> tm_value t"
  using that by (auto simp: timer_at_def split: option.splits)

lemma NewTimer_fires: "tm_value (timer_at now (NewTimer start d)) \<longleftrightarrow> start + d \<le> now"
  by (simp add: timer_at_def NewTimer_def)

lemma fires_chunk:
  "fires (NewTimer start d) ((now, UpChunk x isLast w s) # evs) = fires (NewTimer now fsUploadIdleTimeout) evs"
  by (simp add: resetIdleTimer_fresh timer_at_value NewTimer_def [of start d])

text \<open>The time since the last chunk, or since the start, at each turn.\<close>

fun idle_gaps :: "nat \<Rightarrow> (nat \<times> uploadEvent) list \<Rightarrow> nat list" where
  "idle_gaps since [] = []"
| "idle_gaps since ((now, UpChunk d isLast w s) # evs) = (now - since) # idle_gaps now evs"
| "idle_gaps since ((now, ev) # evs) = [now - since]"

lemma fsErrorCode_status: "fsErrorCode err \<noteq> (408, msg)"
  by (cases err) (simp_all add: fsErrorCode_def)

lemma fires_idle:
  assumes "fires (NewTimer since fsUploadIdleTimeout) evs" "consumeUpload (map snd evs) = Some (calls, committed, 408, msg)"
  shows "\<exists>g \<in> set (idle_gaps since evs). fsUploadIdleTimeout \<le> g"
  using assms
proof (induction since evs arbitrary: calls rule: idle_gaps.induct)
  case (2 since now d isLast w s evs)
  from 2(3) obtain calls' where "consumeUpload (map snd evs) = Some (calls', committed, 408, msg)"
    by (auto simp: Let_def fsErrorCode_status split: if_splits option.splits)
  moreover have "fires (NewTimer now fsUploadIdleTimeout) evs" using 2(2) unfolding fires_chunk .
  ultimately have "\<exists>g \<in> set (idle_gaps now evs). fsUploadIdleTimeout \<le> g" by (rule 2(1) [rotated])
  then show ?case by simp
qed (auto simp: NewTimer_fires)

text \<open>
  An upload is never broken off while chunks keep coming: if the loop ends with 408, then for the length
  of the idle timeout no chunk came, counted from the start or from the last chunk, however long
  the upload took; in particular a timer that fired just before a chunk was taken does no harm.
\<close>

theorem upload_idle_timeout:
  assumes "consumeUpload_at start evs = Some (Some (calls, committed, 408, msg))"
  shows "\<exists>g \<in> set (idle_gaps start evs). fsUploadIdleTimeout \<le> g"
  using fires_idle [of start evs calls committed msg] assms by (auto simp: consumeUpload_at_def split: if_splits)

end
