(* ===== verification/Spec2Isabelle.thy ===== *)
theory Spec2Isabelle
  imports Tunnel Composition AgentEvents Leases Metrics PortSubscription MetricsFanout ControllerSetup Routes Processes Reconciler ServerEvents UploadTimer
begin

text \<open>
  \<^bold>\<open>hostlink\<close> connects hosts behind NAT to a controller in a cluster. An agent on the host
  (\<^verbatim>\<open>cmd/agent\<close>, \<^verbatim>\<open>pkg/agent\<close>) dials the controller (\<^verbatim>\<open>cmd/controller\<close>, \<^verbatim>\<open>pkg/controller\<close>) and keeps one
  Control stream open. Over it the controller sends requests (Docker images and containers, files,
  metrics) on behalf of REST clients and commands that open reverse TCP tunnels; results, progress
  frames and container events come back. Several controllers share a Redis with the directory of
  agents and the table of public ports, and relay to each other what is meant for an agent that
  another one holds. This development models these parts as functions and step relations, one theory
  per component, and proves what makes each of them, and their composition, correct.

  \<^bold>\<open>Conventions.\<close> A Go struct is a \<open>record\<close>, an enumeration or a \<^verbatim>\<open>oneof\<close> a \<open>datatype\<close>, a map an
  association list without duplicate keys (\<open>gomap\<close>, any order), \<^verbatim>\<open>uint32\<close> is \<open>32 word\<close>, a byte slice or a
  string a list of characters, an error the left summand of a sum or \<open>Some\<close> of an option. A section
  under a mutex is one atomic function. What the operating system, the network, Redis, Docker, JSON
  and the certificate library answer are arguments: a function of the request, a record of
  functions, or a list of results in the order in which they arrive. Such a list that is too short
  gives \<open>None\<close>, the program still waiting. Loops are structural recursion over these lists or
  \<open>function\<close>s with a termination proof; nothing is bounded by fuel except the cursor loop of a Redis
  \<^verbatim>\<open>SCAN\<close>, whose budget is an argument and whose contract (locale \<open>redis_client\<close>) says when it is enough.
  Concurrent code is a step function on a state with program counters, and its theorems hold in
  every reachable state, over all interleavings. Logging is left out.

  \<^bold>\<open>Shared.\<close>
  \<^item> \<open>Prelude\<close>: types, maps, and what the sources use of \<^verbatim>\<open>strings\<close> and \<^verbatim>\<open>strconv\<close>. \<open>GoNet\<close> and \<open>GoPath\<close>:
    \<^verbatim>\<open>net.SplitHostPort\<close> and \<^verbatim>\<open>path/filepath\<close>. \<open>Messages\<close>: the protobuf messages of \<^verbatim>\<open>pkg/api/hostlink/v1\<close>.
    \<open>AgentApi\<close>: method names and payloads of \<^verbatim>\<open>pkg/agentapi\<close>.

  \<^bold>\<open>Public ports\<close> (\<^verbatim>\<open>pkg/controller\<close>).
  \<^item> \<open>Ports\<close> (\<^verbatim>\<open>ports.go\<close>): ranges, keys, watchers, the interface \<^verbatim>\<open>portStore\<close> as the locale \<open>port_store\<close> and
    \<^verbatim>\<open>memPortStore\<close>, interpreted in it. \<open>Redis\<close> (\<^verbatim>\<open>redis.go\<close>): the commands used of a Redis client as the
    locale \<open>redis_client\<close>, a small Redis as its interpretation, the topology of a URL. \<open>RedisPorts\<close>:
    \<^verbatim>\<open>redisPortStore\<close>, whose locale is a sublocale of \<open>port_store\<close>. Both stores refine the same table of ports.
  \<^item> \<open>PortSubscription\<close> (\<^verbatim>\<open>ports.go\<close>): the goroutine that listens for changes and \<^verbatim>\<open>close\<close>, interleaved. The
    measure \<open>sub_measure\<close> bounds the steps left once the context is cancelled; \<^verbatim>\<open>close\<close> terminates.
  \<^item> \<open>Listeners\<close> (\<^verbatim>\<open>listeners.go\<close>), \<open>Bindings\<close> (\<^verbatim>\<open>bindings.go\<close>), \<open>Forwards\<close> (\<^verbatim>\<open>forwards.go\<close>), \<open>ContainerEvents\<close>
    (\<^verbatim>\<open>container_events.go\<close>): reconciling listeners with the table, the activation barrier, the REST
    handlers of forwards over any \<open>port_store\<close>, suspending and resuming a container's ports.
    \<open>ForwardMetrics\<close> (\<^verbatim>\<open>forward_metrics.go\<close>): the failure counter by its label values, which the listeners and
    the connection handlers return. \<open>Composition\<close> follows a forward from its creation through one round of
    the reconciler to its listing as active; \<open>Reconciler\<close> (\<^verbatim>\<open>runPortReconciler\<close> of \<^verbatim>\<open>forward_handler.go\<close>)
    interleaves the loop with calls that change the table and notify later, and bounds by
    \<open>rc_measure\<close> the steps until the listeners answer to the table.

  \<^bold>\<open>Tunnels.\<close>
  \<^item> \<open>Tunnel\<close> (\<^verbatim>\<open>pkg/tunnel/splice.go\<close>): \<^verbatim>\<open>SpliceConn\<close> as two interleaved workers, the relay \<^verbatim>\<open>SpliceStream\<close>, and
    the composition of two splices and a relay: bytes arrive in order and nothing is made up.
  \<^item> \<open>Sessions\<close> (\<^verbatim>\<open>sessions.go\<close>, \<^verbatim>\<open>service.go\<close>, \<^verbatim>\<open>peer_forward.go\<close>) and \<open>ForwardHandler\<close> (\<^verbatim>\<open>forward_handler.go\<close>,
    \<^verbatim>\<open>pkg/agent/forward.go\<close>): pairing a public connection with the agent's stream, on
    this controller or through a sibling; every path ends the connection exactly once.

  \<^bold>\<open>Requests.\<close>
  \<^item> \<open>AgentConn\<close> and \<open>Registry\<close> (\<^verbatim>\<open>registry.go\<close>, \<^verbatim>\<open>service.go\<close>): dispatchers, receive loop and teardown of one
    connection as interleaved steps over channels in a heap (no panic, no blocked receive loop,
    results and frames to their own callers); the directory of agents over any number of controllers.
    \<open>Leases\<close>: the directory with time, over the locale \<open>timed_redis\<close>, which extends \<open>redis_client\<close> by expiry:
    an entry lives as long as heartbeats get through and lapses when they stop.
  \<^item> \<open>Relay\<close> (\<^verbatim>\<open>api.go\<close>, \<^verbatim>\<open>peer.go\<close>): routing, and that a relayed request, stream or upload is answered like a local one.
  \<^item> \<open>RestApi\<close> (\<^verbatim>\<open>api.go\<close>, \<^verbatim>\<open>fs.go\<close>, \<^verbatim>\<open>containers.go\<close>): the REST handlers, composed with the agent's; \<open>Routes\<close>: the table
    of routes, unambiguous. \<open>ServerEvents\<close>: the handlers that stream server-sent events, down to the bytes
    and back to the events a client reads.
  \<^item> \<open>AgentSession\<close> (\<^verbatim>\<open>pkg/agent/agent.go\<close>), \<open>AgentDocker\<close> (\<^verbatim>\<open>commands.go\<close>, \<^verbatim>\<open>containers.go\<close>), \<open>AgentFs\<close> (\<^verbatim>\<open>fs.go\<close>),
    \<open>AgentEvents\<close> (\<^verbatim>\<open>events.go\<close>): reconnection and its delays, routing of commands to handlers by request
    id, the handlers (confined to the working directory, at most one terminal result, logs cut into
    lines exactly), the watcher of Docker events. \<open>UploadTimer\<close> (\<^verbatim>\<open>fs.go\<close>): the idle timer of an upload.
  \<^item> \<open>Metrics\<close> (\<^verbatim>\<open>metrics.go\<close> of both sides): scraping, reassembly and the merge into one exposition.
    \<open>MetricsFanout\<close>: the bounded fan-out over the agents as interleaved steps, with the measure by which it ends.

  \<^bold>\<open>Processes.\<close>
  \<^item> \<open>ControllerSetup\<close> (\<^verbatim>\<open>controller.go\<close>, \<^verbatim>\<open>flags.go\<close>, \<^verbatim>\<open>redis.go\<close>, \<^verbatim>\<open>peer.go\<close>): setup as a function of the flags that
    yields the service with the initial states of all its parts, or an error, and the trace of what
    was opened and released; \<^verbatim>\<open>Close\<close>; the check of a sibling's certificate.
  \<^item> \<open>Processes\<close>: construction and \<^verbatim>\<open>Close\<close> of the agent and \<^verbatim>\<open>RunE\<close> of both commands.

  \<^bold>\<open>What the theorems show.\<close> Refinement of the port table by both stores; end-to-end statements for
  tunnels, uploads, downloads, logs, container actions and metrics; invariants and safety over all
  interleavings of connections, sessions, the directory and the agent's handlers; termination of
  \<^verbatim>\<open>close\<close>, of the metrics fan-out and of the reconciler's work, bounds of delays; consistency of setup and completeness of teardown. Two properties are
  about runs in which the code does what it should not: a reconnect can lose an agent's directory
  entry, and a reply can cross into the next session.

  \<^bold>\<open>Not modelled.\<close> The generated gRPC stubs and the reflection tables of the generated messages, the
  Helm chart and certificates, and the libraries (gin, grpc, go-redis, the Docker client, viper,
  cobra, the chassis, Prometheus), which appear as arguments. Time is a quantity only in
  the delays, in \<open>Leases\<close> and in \<open>UploadTimer\<close>; elsewhere expiry, timers and deadlines are events that may happen. The loop of
  the port reconciler is interleaved with the in-memory store only; over Redis its round is. Help texts of flags and
  counters, log lines and the identity of contexts other than what they cancel are left out.
\<close>

end
